(* ===== verification/Prelude.thy ===== *)
theory Prelude
  imports Main "HOL-Library.Word" "HOL-Library.List_Lexorder"
begin

text \<open>
  Shared vocabulary of the development: the machine types of the 32-bit Windows build the
  repository ships (\<open>wchar_t\<close> is 16 bits, \<open>std::size_t\<close> and \<open>int\<close> are 32 bits,
  \<open>char\<close> is signed), the failures a run of the code can end in, and generic lemmas
  on lists, words and results that several components use.
\<close>

section \<open>Machine types\<close>

type_synonym u8 = "8 word"
type_synonym u16 = "16 word"
type_synonym u32 = "32 word"
type_synonym u64 = "64 word"

text \<open>A \<open>std::string\<close> or file content is a list of bytes, a \<open>std::wstring\<close> a
  list of 16-bit code units.\<close>

type_synonym bytes = "u8 list"
type_synonym wchar = "16 word"
type_synonym wstring = "wchar list"

definition wide :: "string \<Rightarrow> wstring" where
  "wide s = map (\<lambda>c. word_of_nat (of_char c)) s"

definition narrow :: "string \<Rightarrow> bytes" where
  "narrow s = map (\<lambda>c. word_of_nat (of_char c)) s"

lemma unat_bound: "unat (w :: 'a::len word) < 2 ^ LENGTH('a)"
  by (rule unsigned_less)

section \<open>Failures\<close>

text \<open>
  Where the C++ code throws, reads through a null pointer, or goes on with a value no
  language rule defines, the model returns one of these in the left summand.
  \<open>Bad_extraction\<close> is an extraction from a packet that fails: the code never tests
  the packet and continues with an indeterminate variable.
\<close>

datatype failure =
    Filesystem_error
  | Null_dereference
  | Bad_extraction
  | Range_error

type_synonym 'a result = "failure + 'a"

definition is_ok :: "'a result \<Rightarrow> bool" where
  "is_ok r = (case r of Inl _ \<Rightarrow> False | Inr _ \<Rightarrow> True)"

lemma is_ok_simps [simp]: "is_ok (Inr x)" "\<not> is_ok (Inl e)"
  by (simp_all add: is_ok_def)

text \<open>
  A call that may also run for ever: \<open>None\<close> when it does not return, else its result.
  \<open>run_bind\<close> goes on with the value of a call that returned without failure.
\<close>

type_synonym 'a run = "'a result option"

definition run_bind :: "'a run \<Rightarrow> ('a \<Rightarrow> 'b run) \<Rightarrow> 'b run" where
  "run_bind m f = (case m of None \<Rightarrow> None | Some (Inl e) \<Rightarrow> Some (Inl e) | Some (Inr x) \<Rightarrow> f x)"

lemma run_bind_simps [simp]:
  "run_bind None f = None" "run_bind (Some (Inl e)) f = Some (Inl e)" "run_bind (Some (Inr x)) f = f x"
  by (simp_all add: run_bind_def)

lemma run_bind_Inr_iff:
  "run_bind m f = Some (Inr y) \<longleftrightarrow> (\<exists>x. m = Some (Inr x) \<and> f x = Some (Inr y))"
  by (auto simp: run_bind_def split: option.splits sum.splits)

section \<open>Invariants of step relations\<close>

text \<open>
  The contract of every invariant proof of the development: the predicate holds at the
  start and each step keeps it, so it holds at every state that steps lead to.
\<close>

locale invariant_system =
  fixes start :: "'s \<Rightarrow> bool"
    and step :: "'s \<Rightarrow> 's \<Rightarrow> bool"
    and inv :: "'s \<Rightarrow> bool"
  assumes inv_start: "start s \<Longrightarrow> inv s"
    and inv_step: "inv s \<Longrightarrow> step s t \<Longrightarrow> inv t"
begin

lemma inv_steps: "step\<^sup>*\<^sup>* s t \<Longrightarrow> inv s \<Longrightarrow> inv t"
  by (induction rule: rtranclp_induct) (auto intro: inv_step)

lemma inv_reached: "start s \<Longrightarrow> step\<^sup>*\<^sup>* s t \<Longrightarrow> inv t"
  by (blast intro: inv_start inv_steps)

end

text \<open>A system in which some measure falls with every step runs only finitely long: from a
  state that satisfies the invariant, every sequence of steps is at most as long as the
  measure, and a state without a next step is reached.\<close>

locale terminating_system = invariant_system start step inv
  for start :: "'s \<Rightarrow> bool" and step :: "'s \<Rightarrow> 's \<Rightarrow> bool" and inv :: "'s \<Rightarrow> bool" +
  fixes weight :: "'s \<Rightarrow> nat"
  assumes weight_step: "inv s \<Longrightarrow> step s t \<Longrightarrow> weight t < weight s"
begin

lemma steps_bounded: "(step ^^ n) s t \<Longrightarrow> inv s \<Longrightarrow> n + weight t \<le> weight s"
proof (induction n arbitrary: t)
  case (Suc n)
  then obtain u where u: "(step ^^ n) s u" "step u t" by auto
  with Suc.prems have "inv u" by (meson inv_steps relpowp_imp_rtranclp)
  with u Suc show ?case using weight_step [of u t] by fastforce
qed simp

lemma reaches_end: "inv s \<Longrightarrow> \<exists>t. step\<^sup>*\<^sup>* s t \<and> (\<nexists>u. step t u)"
proof (induction "weight s" arbitrary: s rule: less_induct)
  case less
  show ?case
  proof (cases "\<exists>u. step s u")
    case False
    then show ?thesis by blast
  next
    case True
    then obtain u where u: "step s u" by blast
    with less.prems less.hyps obtain t where "step\<^sup>*\<^sup>* u t" "\<nexists>v. step t v"
      using weight_step inv_step by blast
    with u show ?thesis by (meson converse_rtranclp_into_rtranclp)
  qed
qed

end

text \<open>A system with more detail against one with less: each of its steps is a step of the other, or
  it is invisible there and uses up some of what is pending. So a run of the detailed system is a
  run of the other one, and it is not much longer.\<close>

locale stuttering_simulation =
  fixes detailed :: "'c \<Rightarrow> 'c \<Rightarrow> bool" and plain :: "'a \<Rightarrow> 'a \<Rightarrow> bool"
    and abs :: "'c \<Rightarrow> 'a" and related :: "'c \<Rightarrow> bool" and left :: "'c \<Rightarrow> nat"
  assumes simulates: "related s \<Longrightarrow> detailed s t \<Longrightarrow> related t \<and>
    (plain (abs s) (abs t) \<and> left t \<le> left s + 1 \<or> abs t = abs s \<and> left t < left s)"
begin

lemma simulated_run:
  "(detailed ^^ n) s t \<Longrightarrow> related s \<Longrightarrow>
     related t \<and> (\<exists>k. (plain ^^ k) (abs s) (abs t) \<and> n + left t \<le> 2 * k + left s)"
proof (induction n arbitrary: t)
  case 0
  then show ?case by (auto intro: exI [of _ 0])
next
  case (Suc n)
  then obtain u where u: "(detailed ^^ n) s u" "detailed u t" by auto
  with Suc obtain k where k: "related u" "(plain ^^ k) (abs s) (abs u)" "n + left u \<le> 2 * k + left s" by blast
  from simulates [OF k(1) u(2)] show ?case
  proof (elim conjE disjE)
    assume t: "related t" "plain (abs u) (abs t)" "left t \<le> left u + 1"
    have "(plain ^^ Suc k) (abs s) (abs t)" using k(2) t(2) by auto
    moreover have "Suc n + left t \<le> 2 * Suc k + left s" using k(3) t(3) by simp
    ultimately show ?thesis using t(1) by blast
  next
    assume t: "related t" "abs t = abs u" "left t < left u"
    then have "Suc n + left t \<le> 2 * k + left s" using k(3) by simp
    with t k(2) show ?thesis by auto
  qed
qed

lemma simulated_steps: "detailed\<^sup>*\<^sup>* s t \<Longrightarrow> related s \<Longrightarrow> related t \<and> plain\<^sup>*\<^sup>* (abs s) (abs t)"
  by (metis relpowp_imp_rtranclp rtranclp_imp_relpowp simulated_run)

end

end
