(* ===== verification/Sf_Socket.thy ===== *)
theory Sf_Socket
  imports Prelude
begin

text \<open>
  The socket classes of SFML the program calls. Their implementation is not part of the
  repository: each class is a record of functions on an abstract socket state, and every
  call returns the status code \<open>Socket.hpp\<close> declares. Addresses carry the data members
  of \<open>IpAddress.hpp\<close>; the order in which \<open>std::map\<close> keeps them is some linear order.
\<close>

datatype status = Done | NotReady | Partial | Disconnected | Error

datatype IpAddress = IpAddress (m_address: u32) (m_valid: bool)

text \<open>\<open>IpAddress::None\<close>, the value representing an invalid address.\<close>

definition IpAddress_None :: IpAddress where
  "IpAddress_None = IpAddress 0 False"

instantiation IpAddress :: linorder
begin

definition less_eq_IpAddress :: "IpAddress \<Rightarrow> IpAddress \<Rightarrow> bool" where
  "less_eq_IpAddress a b \<longleftrightarrow>
     (m_valid a \<longrightarrow> m_valid b) \<and> (m_valid a = m_valid b \<longrightarrow> m_address a \<le> m_address b)"

definition less_IpAddress :: "IpAddress \<Rightarrow> IpAddress \<Rightarrow> bool" where
  "less_IpAddress a b \<longleftrightarrow> a \<le> b \<and> \<not> b \<le> a"

instance
  by standard (auto simp: less_eq_IpAddress_def less_IpAddress_def IpAddress.expand)

end

text \<open>\<open>sf::TcpSocket\<close>: \<open>connect\<close> with a timeout in seconds, raw and packet transfer and the
  address of the peer.\<close>

record ('s, 'p) tcp_api =
  tcp_connect :: "bytes \<Rightarrow> u16 \<Rightarrow> nat \<Rightarrow> 's \<Rightarrow> status \<times> 's"
  tcp_send_raw :: "bytes \<Rightarrow> 's \<Rightarrow> status \<times> 's"
  tcp_receive_raw :: "nat \<Rightarrow> 's \<Rightarrow> status \<times> bytes \<times> 's"
  tcp_send :: "'p \<Rightarrow> 's \<Rightarrow> status \<times> 's"
  tcp_receive :: "'s \<Rightarrow> status \<times> 'p \<times> 's"
  tcp_remote :: "'s \<Rightarrow> IpAddress"

text \<open>\<open>sf::TcpListener\<close>; \<open>accept\<close> also yields the socket of the new connection.\<close>

record ('l, 's) listener_api =
  listener_listen :: "u16 \<Rightarrow> 'l \<Rightarrow> status \<times> 'l"
  listener_accept :: "'l \<Rightarrow> status \<times> 's \<times> 'l"

text \<open>\<open>sf::UdpSocket\<close>; a received packet comes with the sender's address and port.\<close>

record ('u, 'p) udp_api =
  udp_bind :: "u16 \<Rightarrow> 'u \<Rightarrow> status \<times> 'u"
  udp_send :: "'p \<Rightarrow> IpAddress \<Rightarrow> u16 \<Rightarrow> 'u \<Rightarrow> status \<times> 'u"
  udp_receive :: "'u \<Rightarrow> status \<times> ('p \<times> IpAddress \<times> u16) \<times> 'u"

end
