(* ===== verification/Sf_Packet.thy ===== *)
theory Sf_Packet
  imports Prelude
begin

text \<open>
  \<open>sf::Packet\<close>. The repository holds its header (\<open>SFML/Network/Packet.hpp\<close>) and a
  compiled library, not its source: the class is a parameter of the model, a record of
  the operations the program calls, and what the program relies on are the laws of the
  locale \<open>packet_laws\<close>, each of which restates a sentence of the header. A byte-level
  instance with the header's data members shows that the laws can hold together.
\<close>

section \<open>The operations the program calls\<close>

text \<open>The types the overloads of \<open>operator <<\<close> and \<open>operator >>\<close> are used at.\<close>

datatype field =
    Bool bool
  | Uint8 u8
  | Uint16 u16
  | Uint32 u32
  | Uint64 u64
  | Str bytes
  | Wstr wstring

datatype field_type = TBool | TUint8 | TUint16 | TUint32 | TUint64 | TStr | TWstr

fun type_of :: "field \<Rightarrow> field_type" where
  "type_of (Bool _) = TBool"
| "type_of (Uint8 _) = TUint8"
| "type_of (Uint16 _) = TUint16"
| "type_of (Uint32 _) = TUint32"
| "type_of (Uint64 _) = TUint64"
| "type_of (Str _) = TStr"
| "type_of (Wstr _) = TWstr"

text \<open>
  \<open>packet_extract\<close> is \<open>None\<close> when the extraction fails (the packet then tests false);
  \<open>packet_arrived\<close> is the packet a \<open>receive\<close> fills at the other end of a \<open>send\<close>.
\<close>

record 'p packet_api =
  packet_new :: 'p
  packet_data :: "'p \<Rightarrow> bytes"
  packet_insert :: "'p \<Rightarrow> field \<Rightarrow> 'p"
  packet_extract :: "'p \<Rightarrow> field_type \<Rightarrow> (field \<times> 'p) option"
  packet_arrived :: "'p \<Rightarrow> 'p"

definition put_all :: "'p packet_api \<Rightarrow> field list \<Rightarrow> 'p \<Rightarrow> 'p" where
  "put_all P fs p = foldl (packet_insert P) p fs"

definition get_bool :: "'p packet_api \<Rightarrow> 'p \<Rightarrow> (bool \<times> 'p) result" where
  "get_bool P p =
     (case packet_extract P p TBool of Some (Bool v, p') \<Rightarrow> Inr (v, p') | _ \<Rightarrow> Inl Bad_extraction)"

definition get_u8 :: "'p packet_api \<Rightarrow> 'p \<Rightarrow> (u8 \<times> 'p) result" where
  "get_u8 P p =
     (case packet_extract P p TUint8 of Some (Uint8 v, p') \<Rightarrow> Inr (v, p') | _ \<Rightarrow> Inl Bad_extraction)"

definition get_u16 :: "'p packet_api \<Rightarrow> 'p \<Rightarrow> (u16 \<times> 'p) result" where
  "get_u16 P p =
     (case packet_extract P p TUint16 of Some (Uint16 v, p') \<Rightarrow> Inr (v, p') | _ \<Rightarrow> Inl Bad_extraction)"

definition get_u32 :: "'p packet_api \<Rightarrow> 'p \<Rightarrow> (u32 \<times> 'p) result" where
  "get_u32 P p =
     (case packet_extract P p TUint32 of Some (Uint32 v, p') \<Rightarrow> Inr (v, p') | _ \<Rightarrow> Inl Bad_extraction)"

definition get_u64 :: "'p packet_api \<Rightarrow> 'p \<Rightarrow> (u64 \<times> 'p) result" where
  "get_u64 P p =
     (case packet_extract P p TUint64 of Some (Uint64 v, p') \<Rightarrow> Inr (v, p') | _ \<Rightarrow> Inl Bad_extraction)"

definition get_str :: "'p packet_api \<Rightarrow> 'p \<Rightarrow> (bytes \<times> 'p) result" where
  "get_str P p =
     (case packet_extract P p TStr of Some (Str v, p') \<Rightarrow> Inr (v, p') | _ \<Rightarrow> Inl Bad_extraction)"

definition get_wstr :: "'p packet_api \<Rightarrow> 'p \<Rightarrow> (wstring \<times> 'p) result" where
  "get_wstr P p =
     (case packet_extract P p TWstr of Some (Wstr v, p') \<Rightarrow> Inr (v, p') | _ \<Rightarrow> Inl Bad_extraction)"

lemmas get_field_defs =
  get_bool_def get_u8_def get_u16_def get_u32_def get_u64_def get_str_def get_wstr_def

section \<open>The laws\<close>

text \<open>A string's length is carried in 32 bits.\<close>

fun field_ok :: "field \<Rightarrow> bool" where
  "field_ok (Str s) = (length s < 2 ^ 32)"
| "field_ok (Wstr s) = (length s < 2 ^ 32)"
| "field_ok _ = True"

text \<open>
  \<open>holds p fs us\<close>: the fields \<open>fs\<close> were inserted into \<open>p\<close>, and \<open>us\<close> of them are
  still to be read. An extraction gives back the values in the order and at the types
  they were inserted; a packet with no more data to read is invalid; the bounds of a
  packet are preserved by sending (one send is one receive); \<open>getData\<close> is null for an
  empty packet, and data are appended at the end.
\<close>

locale packet_laws =
  fixes P :: "'p packet_api"
    and holds :: "'p \<Rightarrow> field list \<Rightarrow> field list \<Rightarrow> bool"
  assumes holds_new: "holds (packet_new P) [] []"
    and holds_insert: "holds p fs us \<Longrightarrow> field_ok f \<Longrightarrow> holds (packet_insert P p f) (fs @ [f]) (us @ [f])"
    and holds_extract: "holds p fs (f # us) \<Longrightarrow>
      \<exists>p'. packet_extract P p (type_of f) = Some (f, p') \<and> holds p' fs us"
    and holds_exhausted: "holds p fs [] \<Longrightarrow> packet_extract P p t = None"
    and holds_arrived: "holds p fs us \<Longrightarrow> holds (packet_arrived P p) fs fs"
    and holds_no_data: "holds p [] us \<Longrightarrow> packet_data P p = []"
    and holds_head: "holds p (Uint8 b # fs) us \<Longrightarrow> \<exists>rest. packet_data P p = b # rest"
begin

lemma holds_put_all:
  "holds p fs us \<Longrightarrow> list_all field_ok gs \<Longrightarrow> holds (put_all P gs p) (fs @ gs) (us @ gs)"
proof (induction gs arbitrary: p fs us)
  case Nil
  then show ?case by (simp add: put_all_def)
next
  case (Cons g gs)
  then have "holds (packet_insert P p g) (fs @ [g]) (us @ [g])"
    by (simp add: holds_insert)
  from Cons.IH [OF this] Cons.prems(2) show ?case by (simp add: put_all_def)
qed

lemma holds_built: "list_all field_ok gs \<Longrightarrow> holds (put_all P gs (packet_new P)) gs gs"
  using holds_put_all [OF holds_new] by simp

lemma get_bool_holds: "holds p fs (Bool v # us) \<Longrightarrow> \<exists>p'. get_bool P p = Inr (v, p') \<and> holds p' fs us"
  using holds_extract by (fastforce simp: get_bool_def)

lemma get_u8_holds: "holds p fs (Uint8 v # us) \<Longrightarrow> \<exists>p'. get_u8 P p = Inr (v, p') \<and> holds p' fs us"
  using holds_extract by (fastforce simp: get_u8_def)

lemma get_u16_holds: "holds p fs (Uint16 v # us) \<Longrightarrow> \<exists>p'. get_u16 P p = Inr (v, p') \<and> holds p' fs us"
  using holds_extract by (fastforce simp: get_u16_def)

lemma get_u32_holds: "holds p fs (Uint32 v # us) \<Longrightarrow> \<exists>p'. get_u32 P p = Inr (v, p') \<and> holds p' fs us"
  using holds_extract by (fastforce simp: get_u32_def)

lemma get_u64_holds: "holds p fs (Uint64 v # us) \<Longrightarrow> \<exists>p'. get_u64 P p = Inr (v, p') \<and> holds p' fs us"
  using holds_extract by (fastforce simp: get_u64_def)

lemma get_str_holds: "holds p fs (Str v # us) \<Longrightarrow> \<exists>p'. get_str P p = Inr (v, p') \<and> holds p' fs us"
  using holds_extract by (fastforce simp: get_str_def)

lemma get_wstr_holds: "holds p fs (Wstr v # us) \<Longrightarrow> \<exists>p'. get_wstr P p = Inr (v, p') \<and> holds p' fs us"
  using holds_extract by (fastforce simp: get_wstr_def)

lemma get_exhausted:
  assumes "holds p fs []"
  shows "get_bool P p = Inl Bad_extraction" "get_u8 P p = Inl Bad_extraction"
    "get_u16 P p = Inl Bad_extraction" "get_u32 P p = Inl Bad_extraction"
    "get_u64 P p = Inl Bad_extraction" "get_str P p = Inl Bad_extraction"
    "get_wstr P p = Inl Bad_extraction"
  by (simp_all add: get_field_defs holds_exhausted [OF assms])

end

end
