(* ===== verification/Std_Map.thy ===== *)
theory Std_Map
  imports Prelude
begin

text \<open>
  \<open>std::map\<close> of the standard library, as the code uses it: an association list kept
  strictly increasing in its keys, so that a range-based \<open>for\<close> and the iterators
  visit the entries in key order. The interface the clients rely on is the locale
  \<open>lookup_table\<close>; \<open>std_map_table\<close> interprets it on the operations below.
\<close>

section \<open>Operations\<close>

type_synonym ('k, 'v) std_map = "('k \<times> 'v) list"

definition map_ok :: "('k::linorder, 'v) std_map \<Rightarrow> bool" where
  "map_ok m \<longleftrightarrow> sorted_wrt (<) (map fst m)"

text \<open>\<open>m.find(k)\<close>, as the value found or \<open>None\<close> for \<open>m.end()\<close>.\<close>

fun map_find :: "('k::linorder, 'v) std_map \<Rightarrow> 'k \<Rightarrow> 'v option" where
  "map_find [] k = None"
| "map_find ((k', v) # m) k = (if k = k' then Some v else map_find m k)"

text \<open>\<open>m.count(k)\<close> used as a truth value.\<close>

definition map_count :: "('k::linorder, 'v) std_map \<Rightarrow> 'k \<Rightarrow> bool" where
  "map_count m k = (map_find m k \<noteq> None)"

text \<open>\<open>m[k] = v\<close>: overwrites the entry or creates it at its place in the order.\<close>

fun map_assign :: "'k \<Rightarrow> 'v \<Rightarrow> ('k::linorder, 'v) std_map \<Rightarrow> ('k, 'v) std_map" where
  "map_assign k v [] = [(k, v)]"
| "map_assign k v ((k', v') # m) =
     (if k < k' then (k, v) # (k', v') # m
      else if k = k' then (k, v) # m
      else (k', v') # map_assign k v m)"

text \<open>\<open>m.insert(hint, {k, v})\<close>: the hint changes only the cost; an existing entry stays.\<close>

definition map_insert :: "'k \<Rightarrow> 'v \<Rightarrow> ('k::linorder, 'v) std_map \<Rightarrow> ('k, 'v) std_map" where
  "map_insert k v m = (if map_count m k then m else map_assign k v m)"

text \<open>Reading \<open>m[k]\<close>: a missing key is first inserted with the value-initialised \<open>d\<close>.\<close>

definition map_index :: "'v \<Rightarrow> 'k \<Rightarrow> ('k::linorder, 'v) std_map \<Rightarrow> 'v \<times> ('k, 'v) std_map" where
  "map_index d k m =
     (case map_find m k of Some v \<Rightarrow> (v, m) | None \<Rightarrow> (d, map_assign k d m))"

text \<open>\<open>m.erase(it)\<close> for the iterator \<open>m.find(k)\<close>.\<close>

fun map_erase :: "'k \<Rightarrow> ('k::linorder, 'v) std_map \<Rightarrow> ('k, 'v) std_map" where
  "map_erase k [] = []"
| "map_erase k ((k', v) # m) = (if k = k' then m else (k', v) # map_erase k m)"

section \<open>Laws\<close>

lemma map_ok_Nil [simp]: "map_ok []"
  by (simp add: map_ok_def)

lemma map_ok_Cons: "map_ok ((k, v) # m) \<longleftrightarrow> (\<forall>k' \<in> fst ` set m. k < k') \<and> map_ok m"
  by (auto simp: map_ok_def)

lemma map_ok_distinct: "map_ok m \<Longrightarrow> distinct (map fst m)"
  by (simp add: map_ok_def strict_sorted_iff)

lemma map_find_map_of: "map_find m = map_of m"
  by (induction m) (auto simp: fun_eq_iff)

lemma map_find_None_iff: "map_find m k = None \<longleftrightarrow> k \<notin> fst ` set m"
  by (simp add: map_find_map_of map_of_eq_None_iff)

lemma map_count_iff: "map_count m k \<longleftrightarrow> k \<in> fst ` set m"
  by (simp add: map_count_def map_find_None_iff)

lemma map_find_in_set: "map_ok m \<Longrightarrow> map_find m k = Some v \<longleftrightarrow> (k, v) \<in> set m"
  by (simp add: map_find_map_of map_ok_distinct)

lemma map_find_assign: "map_ok m \<Longrightarrow> map_find (map_assign k v m) = (map_find m)(k \<mapsto> v)"
  by (induction m) (auto simp: fun_eq_iff map_ok_Cons)

lemma keys_map_assign: "fst ` set (map_assign k v m) = insert k (fst ` set m)"
  by (induction k v m rule: map_assign.induct) (simp_all add: insert_commute)

lemma map_ok_assign: "map_ok m \<Longrightarrow> map_ok (map_assign k v m)"
proof (induction m)
  case (Cons e m)
  obtain k' v' where e: "e = (k', v')" by force
  with Cons show ?case by (auto simp: map_ok_Cons keys_map_assign)
qed (simp add: map_ok_Cons)

lemma keys_map_erase: "map_ok m \<Longrightarrow> fst ` set (map_erase k m) = fst ` set m - {k}"
proof (induction m)
  case (Cons e m)
  obtain k' v where e: "e = (k', v)" by force
  with Cons.prems have "k' \<notin> fst ` set m" by (auto simp: map_ok_Cons)
  with Cons e show ?case by (cases "k = k'") (auto simp: map_ok_Cons insert_Diff_if)
qed simp

lemma map_find_erase: "map_ok m \<Longrightarrow> map_find (map_erase k m) = (map_find m)(k := None)"
proof (induction m)
  case (Cons e m)
  obtain k' v' where e: "e = (k', v')" by force
  with Cons.prems have "k' \<notin> fst ` set m" by (auto simp: map_ok_Cons)
  then have "map_find m k' = None" by (simp add: map_find_None_iff)
  with Cons e show ?case by (auto simp: fun_eq_iff map_ok_Cons)
qed (simp add: fun_eq_iff)

lemma map_ok_erase: "map_ok m \<Longrightarrow> map_ok (map_erase k m)"
proof (induction m)
  case (Cons e m)
  obtain k' v' where e: "e = (k', v')" by force
  with Cons show ?case by (auto simp: map_ok_Cons keys_map_erase)
qed simp

lemma map_ok_insert: "map_ok m \<Longrightarrow> map_ok (map_insert k v m)"
  by (simp add: map_insert_def map_ok_assign)

lemma map_find_insert:
  "map_ok m \<Longrightarrow> map_find (map_insert k v m) =
     (if map_find m k = None then (map_find m)(k \<mapsto> v) else map_find m)"
  by (simp add: map_insert_def map_count_def map_find_assign)

lemma map_index_present: "map_find m k = Some v \<Longrightarrow> map_index d k m = (v, m)"
  by (simp add: map_index_def)

text \<open>Two maps with the same lookups are the same list of entries.\<close>

lemma map_ok_eqI:
  assumes "map_ok m" "map_ok m'" "map_find m = map_find m'"
  shows "m = m'"
proof -
  have keys: "fst ` set m = fst ` set m'"
    using assms(3) by (metis map_find_None_iff set_eqI)
  have fsts: "map fst m = map fst m'"
    using assms(1,2) keys unfolding map_ok_def
    by (metis list.set_map strict_sorted_equal)
  have "m = map (\<lambda>k. (k, the (map_find m k))) (map fst m)" if "map_ok m" for m :: "('a, 'b) std_map"
    using that by (auto simp: map_find_in_set [symmetric] intro!: map_idI [symmetric])
  with assms fsts show ?thesis by metis
qed

section \<open>The interface its clients use\<close>

text \<open>
  What a table of keys and values promises. The clients replay lists of updates on it:
  an update stores a value (\<open>Some v\<close>) or removes the key (\<open>None\<close>).
\<close>

locale lookup_table =
  fixes find :: "'m \<Rightarrow> 'k \<Rightarrow> 'v option"
    and assign :: "'k \<Rightarrow> 'v \<Rightarrow> 'm \<Rightarrow> 'm"
    and erase :: "'k \<Rightarrow> 'm \<Rightarrow> 'm"
    and valid :: "'m \<Rightarrow> bool"
  assumes valid_assign: "valid m \<Longrightarrow> valid (assign k v m)"
    and valid_erase: "valid m \<Longrightarrow> valid (erase k m)"
    and find_assign: "valid m \<Longrightarrow> find (assign k v m) = (find m)(k \<mapsto> v)"
    and find_erase: "valid m \<Longrightarrow> find (erase k m) = (find m)(k := None)"
begin

definition update1 :: "'k \<times> 'v option \<Rightarrow> 'm \<Rightarrow> 'm" where
  "update1 u m = (case snd u of Some v \<Rightarrow> assign (fst u) v m | None \<Rightarrow> erase (fst u) m)"

lemma valid_update1: "valid m \<Longrightarrow> valid (update1 u m)"
  by (simp add: update1_def valid_assign valid_erase split: option.split)

lemma find_update1: "valid m \<Longrightarrow> find (update1 u m) = (find m)(fst u := snd u)"
  by (simp add: update1_def find_assign find_erase split: option.split)

lemma valid_replay: "valid m \<Longrightarrow> valid (fold update1 us m)"
  by (induction us arbitrary: m) (auto simp: valid_update1)

text \<open>After a replay a key has what the last update naming it says, or its old value.\<close>

lemma find_replay:
  "valid m \<Longrightarrow> find (fold update1 us m) k =
     (case map_of (rev us) k of None \<Rightarrow> find m k | Some w \<Rightarrow> w)"
proof (induction us arbitrary: m)
  case (Cons u us)
  then show ?case
    by (cases u) (auto simp: valid_update1 find_update1 map_add_def split: option.split)
qed simp

lemma find_replay_distinct:
  assumes "valid m" "distinct (map fst us)"
  shows "find (fold update1 us m) k =
     (case map_of us k of None \<Rightarrow> find m k | Some w \<Rightarrow> w)"
proof -
  have "map_of (rev us) = map_of us"
    using assms(2) by (simp add: map_of_inject_set rev_map [symmetric])
  with assms(1) show ?thesis by (simp add: find_replay)
qed

end

text \<open>A table that can also be walked through entry by entry, as the packet operators do.\<close>

locale iterable_table = lookup_table find assign erase valid
  for find :: "'m \<Rightarrow> 'k \<Rightarrow> 'v option" and assign erase valid +
  fixes empty :: 'm
    and entries :: "'m \<Rightarrow> ('k \<times> 'v) list"
  assumes valid_empty: "valid empty"
    and find_empty: "find empty k = None"
    and distinct_entries: "valid m \<Longrightarrow> distinct (map fst (entries m))"
    and entries_find: "valid m \<Longrightarrow> (k, v) \<in> set (entries m) \<longleftrightarrow> find m k = Some v"
begin

lemma valid_fill: "valid m \<Longrightarrow> valid (fold (\<lambda>(k, v). assign k v) es m)"
  by (induction es arbitrary: m) (auto simp: valid_assign)

lemma find_fill:
  "valid m \<Longrightarrow> distinct (map fst es) \<Longrightarrow>
     find (fold (\<lambda>(k, v). assign k v) es m) k =
       (case map_of es k of None \<Rightarrow> find m k | Some v \<Rightarrow> Some v)"
proof (induction es arbitrary: m)
  case (Cons e es)
  obtain k' v' where e: "e = (k', v')" by force
  with Cons.prems have "map_of es k' = None" by (simp add: map_of_eq_None_iff)
  with Cons e show ?case by (auto simp: valid_assign find_assign split: option.split)
qed simp

text \<open>Storing the entries of a table one by one into an empty one rebuilds its lookups.\<close>

lemma find_rebuild:
  assumes "valid m"
  shows "find (fold (\<lambda>(k, v). assign k v) (entries m) empty) = find m"
proof
  fix k
  have "map_of (entries m) k = find m k"
  proof (cases "find m k")
    case None
    with assms show ?thesis by (force simp: map_of_eq_None_iff entries_find)
  next
    case (Some v)
    with assms show ?thesis by (simp add: distinct_entries entries_find map_of_eq_Some_iff)
  qed
  with assms show "find (fold (\<lambda>(k, v). assign k v) (entries m) empty) k = find m k"
    by (auto simp: find_fill valid_empty distinct_entries find_empty split: option.split)
qed

end

interpretation std_map_table: lookup_table map_find map_assign map_erase map_ok
  by unfold_locales (simp_all add: map_ok_assign map_ok_erase map_find_assign map_find_erase)

interpretation std_map_iter: iterable_table map_find map_assign map_erase map_ok "[]" "\<lambda>m. m"
  by unfold_locales (simp_all add: map_ok_distinct map_find_in_set)

lemma map_rebuild:
  assumes "map_ok m"
  shows "fold (\<lambda>(k, v). map_assign k v) m [] = m"
proof (rule map_ok_eqI)
  show "map_ok (fold (\<lambda>(k, v). map_assign k v) m [])"
    by (rule std_map_iter.valid_fill) simp
qed (use assms std_map_iter.find_rebuild in auto)

end
