(* ===== verification/File_System.thy ===== *)
theory File_System
  imports Prelude "HOL-Library.AList"
begin

text \<open>
  The part of \<open>std::filesystem\<close> and of the file streams the program uses, on a tree of
  named nodes. A directory lists its entries in the order \<open>directory_iterator\<close> visits
  them. Paths are resolved lexically, as Windows does before it opens them: either slash
  separates, repeated separators count once, and \<open>.\<close> and \<open>..\<close> are removed. The
  comparison of names is exact (the case folding of Windows is not modelled), and so are
  neither permissions nor links.
\<close>

section \<open>Paths\<close>

definition backslash :: wchar where
  "backslash = 0x5C"

definition slash :: wchar where
  "slash = 0x2F"

definition is_sep :: "wchar \<Rightarrow> bool" where
  "is_sep c \<longleftrightarrow> c = backslash \<or> c = slash"

fun pieces :: "wstring \<Rightarrow> wstring list" where
  "pieces [] = [[]]"
| "pieces (c # cs) =
     (if is_sep c then [] # pieces cs
      else (case pieces cs of [] \<Rightarrow> [[c]] | p # ps \<Rightarrow> (c # p) # ps))"

definition components :: "wstring \<Rightarrow> wstring list" where
  "components s = filter (\<lambda>p. p \<noteq> []) (pieces s)"

definition dot :: wstring where
  "dot = [0x2E]"

definition dotdot :: wstring where
  "dotdot = [0x2E, 0x2E]"

text \<open>The first component is the drive, which \<open>..\<close> does not leave.\<close>

fun normalise :: "wstring list \<Rightarrow> wstring list \<Rightarrow> wstring list" where
  "normalise st [] = rev st"
| "normalise st (c # cs) =
     (if c = dot then normalise st cs
      else if c = dotdot then normalise (if length st \<le> 1 then st else tl st) cs
      else normalise (c # st) cs)"

definition resolve :: "wstring \<Rightarrow> wstring list" where
  "resolve s = normalise [] (components s)"

text \<open>\<open>path::make_preferred\<close> and \<open>operator/\<close> of \<open>std::filesystem::path\<close>.\<close>

definition make_preferred :: "wstring \<Rightarrow> wstring" where
  "make_preferred p = map (\<lambda>c. if c = slash then backslash else c) p"

definition path_append :: "wstring \<Rightarrow> wstring \<Rightarrow> wstring" where
  "path_append p q = (if p = [] \<or> is_sep (last p) then p @ q else p @ backslash # q)"

text \<open>A name of a directory entry: no separator, and neither empty nor a dot name.\<close>

definition name_ok :: "wstring \<Rightarrow> bool" where
  "name_ok n \<longleftrightarrow> n \<noteq> [] \<and> (\<forall>c \<in> set n. \<not> is_sep c) \<and> n \<noteq> dot \<and> n \<noteq> dotdot"

lemma pieces_nonempty [simp]: "pieces s \<noteq> []"
  by (induction s) (auto split: list.split)

lemma pieces_append_sep: "is_sep c \<Longrightarrow> pieces (s @ c # t) = pieces s @ pieces t"
  by (induction s) (auto split: list.split)

lemma components_append_sep: "is_sep c \<Longrightarrow> components (s @ c # t) = components s @ components t"
  by (simp add: components_def pieces_append_sep)

lemma is_sep_backslash [simp]: "is_sep backslash"
  by (simp add: is_sep_def)

lemma components_Nil [simp]: "components [] = []"
  by (simp add: components_def)

lemma components_sep [simp]: "is_sep c \<Longrightarrow> components (c # t) = components t"
  using components_append_sep [of c "[]" t] by simp

lemma pieces_name: "\<forall>c \<in> set n. \<not> is_sep c \<Longrightarrow> pieces n = [n]"
  by (induction n) auto

lemma components_name: "name_ok n \<Longrightarrow> components n = [n]"
  by (simp add: components_def name_ok_def pieces_name)

lemma normalise_append_names:
  "\<forall>n \<in> set ns. name_ok n \<Longrightarrow> normalise st (ns @ cs) = normalise (rev ns @ st) cs"
  by (induction ns arbitrary: st) (auto simp: name_ok_def)

lemma normalise_names: "\<forall>n \<in> set ns. name_ok n \<Longrightarrow> normalise st ns = rev st @ ns"
  using normalise_append_names [of ns st "[]"] by simp

lemma normalise_append: "normalise st (cs @ ds) = normalise (rev (normalise st cs)) ds"
  by (induction cs arbitrary: st) auto

lemma resolve_append_sep:
  "is_sep c \<Longrightarrow> resolve (s @ c # t) = normalise (rev (resolve s)) (components t)"
  by (simp add: resolve_def components_append_sep normalise_append)

text \<open>A doubled separator changes the string, not the file it names.\<close>

lemma resolve_double_sep: "is_sep c \<Longrightarrow> is_sep d \<Longrightarrow> resolve (s @ c # d # t) = resolve (s @ d # t)"
  by (simp add: resolve_append_sep)

section \<open>The tree\<close>

datatype fsnode = File bytes | Dir "(wstring \<times> fsnode) list"

fun node_at :: "fsnode \<Rightarrow> wstring list \<Rightarrow> fsnode option" where
  "node_at n [] = Some n"
| "node_at (File _) (c # cs) = None"
| "node_at (Dir es) (c # cs) = (case map_of es c of None \<Rightarrow> None | Some n \<Rightarrow> node_at n cs)"

text \<open>Replacing or creating the entry at a path whose parent is a directory.\<close>

fun write_at :: "wstring list \<Rightarrow> fsnode \<Rightarrow> fsnode \<Rightarrow> fsnode option" where
  "write_at [] new n = None"
| "write_at (c # cs) new (File _) = None"
| "write_at (c # cs) new (Dir es) =
     (if cs = [] then Some (Dir (AList.update c new es))
      else (case map_of es c of None \<Rightarrow> None
        | Some n \<Rightarrow> map_option (\<lambda>n'. Dir (AList.update c n' es)) (write_at cs new n)))"

fun remove_at :: "wstring list \<Rightarrow> fsnode \<Rightarrow> fsnode option" where
  "remove_at [] n = None"
| "remove_at (c # cs) (File _) = None"
| "remove_at (c # cs) (Dir es) =
     (case map_of es c of None \<Rightarrow> None
      | Some n \<Rightarrow>
          if cs = [] then Some (Dir (AList.delete c es))
          else map_option (\<lambda>n'. Dir (AList.update c n' es)) (remove_at cs n))"

lemma node_at_append:
  "node_at n (cs @ ds) = (case node_at n cs of None \<Rightarrow> None | Some m \<Rightarrow> node_at m ds)"
  by (induction n cs rule: node_at.induct) (auto split: option.split)

lemma write_at_same: "write_at cs new n = Some n' \<Longrightarrow> node_at n' cs = Some new"
proof (induction cs new n arbitrary: n' rule: write_at.induct)
  case (3 c cs new es)
  then show ?case
    by (auto simp: update_conv' split: if_splits option.splits)
qed auto

text \<open>A write leaves every path alone that does not start with the written one.\<close>

lemma write_at_frame:
  "write_at cs new n = Some n' \<Longrightarrow> take (length cs) ds \<noteq> cs \<Longrightarrow> \<not> (\<exists>r. cs = ds @ r) \<Longrightarrow>
     node_at n' ds = node_at n ds"
proof (induction cs new n arbitrary: n' ds rule: write_at.induct)
  case (3 c cs new es)
  from "3.prems"(3) obtain d ds' where ds: "ds = d # ds'" by (cases ds) auto
  show ?case
  proof (cases "d = c")
    case False
    with "3.prems"(1) show ?thesis
      by (auto simp: ds update_conv' split: if_splits option.splits)
  next
    case True
    with "3.prems"(2,3) ds have ne: "cs \<noteq> []" "take (length cs) ds' \<noteq> cs" "\<not> (\<exists>r. cs = ds' @ r)" by auto
    with "3.prems"(1) obtain n m where "map_of es c = Some n" "write_at cs new n = Some m"
      "n' = Dir (AList.update c m es)" by (auto split: option.splits)
    with "3.IH" [of n m ds'] ne True ds show ?thesis by (simp add: update_conv')
  qed
qed auto

lemma write_at_exists_iff:
  "(\<exists>n'. write_at cs new n = Some n') \<longleftrightarrow>
     cs \<noteq> [] \<and> (\<exists>es. node_at n (butlast cs) = Some (Dir es))"
  by (induction cs new n rule: write_at.induct) (auto split: option.splits)

lemma remove_at_gone:
  "remove_at cs n = Some n' \<Longrightarrow> node_at n' cs = None"
proof (induction cs n arbitrary: n' rule: remove_at.induct)
  case (3 c cs es)
  then show ?case
    by (auto simp: update_conv' delete_conv' split: if_splits option.splits)
qed auto

lemma remove_at_frame:
  "remove_at cs n = Some n' \<Longrightarrow> take (length cs) ds \<noteq> cs \<Longrightarrow> \<not> (\<exists>r. cs = ds @ r) \<Longrightarrow>
     node_at n' ds = node_at n ds"
proof (induction cs n arbitrary: n' ds rule: remove_at.induct)
  case (3 c cs es)
  from "3.prems"(3) obtain d ds' where ds: "ds = d # ds'" by (cases ds) auto
  from "3.prems"(1) obtain n where n: "map_of es c = Some n" by (auto split: option.splits)
  show ?case
  proof (cases "d = c")
    case False
    with "3.prems"(1) n show ?thesis
      by (auto simp: ds update_conv' delete_conv' split: if_splits)
  next
    case True
    with "3.prems"(2,3) ds have ne: "cs \<noteq> []" "take (length cs) ds' \<noteq> cs" "\<not> (\<exists>r. cs = ds' @ r)" by auto
    with "3.prems"(1) n obtain m where "remove_at cs n = Some m" "n' = Dir (AList.update c m es)"
      by auto
    with "3.IH" [of n m ds'] n ne True ds show ?thesis by (simp add: update_conv')
  qed
qed auto

lemma remove_at_exists: "cs \<noteq> [] \<Longrightarrow> node_at n cs = Some m \<Longrightarrow> \<exists>n'. remove_at cs n = Some n'"
  by (induction cs n rule: remove_at.induct) (auto split: option.splits)

section \<open>Operations on paths\<close>

definition fs_exists :: "fsnode \<Rightarrow> wstring \<Rightarrow> bool" where
  "fs_exists fs path \<longleftrightarrow> node_at fs (resolve path) \<noteq> None"

definition fs_is_directory :: "fsnode \<Rightarrow> wstring \<Rightarrow> bool" where
  "fs_is_directory fs path =
     (case node_at fs (resolve path) of Some (Dir _) \<Rightarrow> True | _ \<Rightarrow> False)"

text \<open>
  \<open>create_directory\<close>: false when the directory is there already; an error (which the
  overload without \<open>error_code\<close> throws) when a file is in the way or the parent is missing.
\<close>

definition fs_create_directory :: "fsnode \<Rightarrow> wstring \<Rightarrow> (bool \<times> fsnode) result" where
  "fs_create_directory fs path =
     (case node_at fs (resolve path) of
        Some (Dir _) \<Rightarrow> Inr (False, fs)
      | Some (File _) \<Rightarrow> Inl Filesystem_error
      | None \<Rightarrow> (case write_at (resolve path) (Dir []) fs of
            None \<Rightarrow> Inl Filesystem_error | Some fs' \<Rightarrow> Inr (True, fs')))"

text \<open>\<open>create_directories\<close> creates the missing directories from the top down.\<close>

fun create_dirs :: "fsnode \<Rightarrow> wstring list \<Rightarrow> wstring list \<Rightarrow> bool \<Rightarrow> (bool \<times> fsnode) result" where
  "create_dirs fs base [] made = Inr (made, fs)"
| "create_dirs fs base (c # cs) made =
     (case node_at fs (base @ [c]) of
        Some (Dir _) \<Rightarrow> create_dirs fs (base @ [c]) cs made
      | Some (File _) \<Rightarrow> Inl Filesystem_error
      | None \<Rightarrow> (case write_at (base @ [c]) (Dir []) fs of
            None \<Rightarrow> Inl Filesystem_error
          | Some fs' \<Rightarrow> create_dirs fs' (base @ [c]) cs True))"

text \<open>\<open>remove\<close>: false when nothing is there, an error for a directory that is not empty.\<close>

definition fs_remove :: "fsnode \<Rightarrow> wstring \<Rightarrow> (bool \<times> fsnode) result" where
  "fs_remove fs path =
     (case node_at fs (resolve path) of
        None \<Rightarrow> Inr (False, fs)
      | Some (Dir (_ # _)) \<Rightarrow> Inl Filesystem_error
      | Some _ \<Rightarrow> (case remove_at (resolve path) fs of
            None \<Rightarrow> Inl Filesystem_error | Some fs' \<Rightarrow> Inr (True, fs')))"

section \<open>Streams\<close>

text \<open>Opening for reading fails unless the path names a file.\<close>

definition open_read :: "fsnode \<Rightarrow> wstring \<Rightarrow> bytes option" where
  "open_read fs path = (case node_at fs (resolve path) of Some (File bs) \<Rightarrow> Some bs | _ \<Rightarrow> None)"

text \<open>
  What a stream opened in text mode delivers on Windows: a carriage return before a
  line feed is dropped, and control-Z ends the input.
\<close>

fun text_mode :: "bytes \<Rightarrow> bytes" where
  "text_mode [] = []"
| "text_mode (b # bs) =
     (if b = 0x1A then []
      else if b = 0x0D \<and> bs \<noteq> [] \<and> hd bs = 0x0A then text_mode bs
      else b # text_mode bs)"

text \<open>An input stream opened in binary mode: the bytes still to be read and the state
  bits. A short \<open>read\<close> delivers what is there and sets the end-of-file and fail bits;
  a stream whose fail bit is set delivers nothing.\<close>

record ifstream =
  in_rest :: bytes
  in_good :: bool

definition if_read :: "nat \<Rightarrow> ifstream \<Rightarrow> bytes \<times> ifstream" where
  "if_read n s =
     (if \<not> in_good s then ([], s)
      else (take n (in_rest s),
            s\<lparr>in_rest := drop n (in_rest s), in_good := n \<le> length (in_rest s)\<rparr>))"

text \<open>An output stream in binary mode. \<open>tellp\<close> is -1 on a stream that failed to open.\<close>

record ofstream =
  out_good :: bool
  out_data :: bytes

definition of_write :: "bytes \<Rightarrow> ofstream \<Rightarrow> ofstream" where
  "of_write bs s = (if out_good s then s\<lparr>out_data := out_data s @ bs\<rparr> else s)"

definition of_tellp :: "ofstream \<Rightarrow> int" where
  "of_tellp s = (if out_good s then int (length (out_data s)) else - 1)"

text \<open>Opening for writing truncates or creates the file; it fails on a directory and
  when the parent directory is missing.\<close>

definition open_write :: "fsnode \<Rightarrow> wstring \<Rightarrow> ofstream \<times> fsnode" where
  "open_write fs path =
     (if fs_is_directory fs path then (\<lparr>out_good = False, out_data = []\<rparr>, fs)
      else (case write_at (resolve path) (File []) fs of
          None \<Rightarrow> (\<lparr>out_good = False, out_data = []\<rparr>, fs)
        | Some fs' \<Rightarrow> (\<lparr>out_good = True, out_data = []\<rparr>, fs')))"

definition close_write :: "fsnode \<Rightarrow> wstring \<Rightarrow> ofstream \<Rightarrow> fsnode" where
  "close_write fs path s =
     (if out_good s
      then (case write_at (resolve path) (File (out_data s)) fs of None \<Rightarrow> fs | Some fs' \<Rightarrow> fs')
      else fs)"

lemma text_mode_clean:
  "0x1A \<notin> set bs \<Longrightarrow> 0x0D \<notin> set bs \<Longrightarrow> text_mode bs = bs"
  by (induction bs) auto

lemma text_mode_ctrl_z: "0x1A \<notin> set pre \<Longrightarrow> text_mode (pre @ 0x1A # post) = text_mode (pre @ [0x1A])"
proof (induction pre)
  case (Cons b pre)
  then show ?case by (cases pre) auto
qed simp

lemma set_text_mode: "set (text_mode bs) \<subseteq> set bs"
  by (induction bs) auto

lemma open_read_same: "resolve p = resolve q \<Longrightarrow> open_read fs p = open_read fs q"
  by (simp add: open_read_def)

lemma fs_exists_open_read: "open_read fs p = Some bs \<Longrightarrow> fs_exists fs p"
  by (auto simp: open_read_def fs_exists_def split: option.splits)

end
