(* ===== verification/Networking.thy ===== *)
theory Networking
  imports Sf_Socket Sf_Packet Std_Map File_System
begin

text \<open>
  The \<open>Networking Library\<close>: the classes \<open>Client\<close>, \<open>Server\<close> and \<open>UdpConnection\<close> around
  the SFML sockets. \<open>T\<close>, \<open>L\<close> and \<open>U\<close> are the socket classes, \<open>P\<close> the packet class.
  Console output is left out.
\<close>

section \<open>Client\<close>

record ('s, 'p) Client =
  cl_socket :: 's
  cl_todo :: "'p list"

definition Client_connect :: "('s, 'p) tcp_api \<Rightarrow> bytes \<Rightarrow> u16 \<Rightarrow> ('s, 'p) Client \<Rightarrow> bool \<times> ('s, 'p) Client" where
  "Client_connect T ip port c =
     (let (status, s) = tcp_connect T ip port 30 (cl_socket c)
      in (if status \<noteq> Done then False else True, c\<lparr>cl_socket := s\<rparr>))"

definition Client_sendString :: "('s, 'p) tcp_api \<Rightarrow> bytes \<Rightarrow> ('s, 'p) Client \<Rightarrow> bool \<times> ('s, 'p) Client" where
  "Client_sendString T data c =
     (let (status, s) = tcp_send_raw T data (cl_socket c)
      in (if status \<noteq> Done then False else True, c\<lparr>cl_socket := s\<rparr>))"

definition Client_send :: "('s, 'p) tcp_api \<Rightarrow> 'p \<Rightarrow> ('s, 'p) Client \<Rightarrow> bool \<times> ('s, 'p) Client" where
  "Client_send T packet c =
     (let (status, s) = tcp_send T packet (cl_socket c)
      in (if status \<noteq> Done then False else True, c\<lparr>cl_socket := s\<rparr>))"

definition Client_receiveString :: "('s, 'p) tcp_api \<Rightarrow> nat \<Rightarrow> ('s, 'p) Client \<Rightarrow> bytes \<times> ('s, 'p) Client" where
  "Client_receiveString T buffer c =
     (let (status, data, s) = tcp_receive_raw T buffer (cl_socket c)
      in (if status \<noteq> Done then [] else data, c\<lparr>cl_socket := s\<rparr>))"

definition Client_receive :: "('s, 'p) tcp_api \<Rightarrow> ('s, 'p) Client \<Rightarrow> status \<times> 'p \<times> ('s, 'p) Client" where
  "Client_receive T c =
     (let (status, packet, s) = tcp_receive T (cl_socket c)
      in (status, packet, c\<lparr>cl_socket := s\<rparr>))"

definition Client_handle :: "'p packet_api \<Rightarrow> ('s, 'p) Client \<Rightarrow> (bool \<times> ('s, 'p) Client) result" where
  "Client_handle P c =
     (case cl_todo c of
        [] \<Rightarrow> Inr (False, c)
      | packet # rest \<Rightarrow>
          (case get_str P packet of Inl e \<Rightarrow> Inl e | Inr (ip, p1) \<Rightarrow>
           (case get_str P p1 of Inl e \<Rightarrow> Inl e | Inr (message, p2) \<Rightarrow>
              Inr (True, c\<lparr>cl_todo := rest\<rparr>))))"

definition Client_getTodoCount :: "('s, 'p) Client \<Rightarrow> nat" where
  "Client_getTodoCount c = length (cl_todo c)"

section \<open>Server\<close>

text \<open>\<open>clients\<close> maps an address to a pointer to a socket; \<open>None\<close> is the null pointer that
  \<open>operator[]\<close> stores for an address it does not know.\<close>

record ('l, 's, 'p) Server =
  clients :: "(IpAddress, 's option) std_map"
  srv_todo :: "'p list"
  listener :: 'l

definition Server_accept :: "('s, 'p) tcp_api \<Rightarrow> ('l, 's) listener_api \<Rightarrow> ('l, 's, 'p) Server \<Rightarrow>
    IpAddress \<times> ('l, 's, 'p) Server" where
  "Server_accept T L srv =
     (let (status, client, l) = listener_accept L (listener srv);
          srv' = srv\<lparr>listener := l\<rparr>
      in if status \<noteq> Done then (IpAddress_None, srv')
         else (tcp_remote T client,
               srv'\<lparr>clients := map_assign (tcp_remote T client) (Some client) (clients srv')\<rparr>))"

text \<open>\<open>accept(n)\<close>: \<open>waits\<close> are the answers of the selector, true when a connection is
  requested within ten seconds.\<close>

fun Server_accept_n :: "('s, 'p) tcp_api \<Rightarrow> ('l, 's) listener_api \<Rightarrow> nat \<Rightarrow> bool list \<Rightarrow>
    ('l, 's, 'p) Server \<Rightarrow> ('l, 's, 'p) Server" where
  "Server_accept_n T L 0 waits srv = srv"
| "Server_accept_n T L (Suc n) [] srv = srv"
| "Server_accept_n T L (Suc n) (w # waits) srv =
     (if w then Server_accept_n T L n waits (snd (Server_accept T L srv)) else srv)"

definition Server_listen :: "('l, 's) listener_api \<Rightarrow> u16 \<Rightarrow> ('l, 's, 'p) Server \<Rightarrow> bool \<times> ('l, 's, 'p) Server" where
  "Server_listen L port srv =
     (let (status, l) = listener_listen L port (listener srv)
      in (if status \<noteq> Done then False else True, srv\<lparr>listener := l\<rparr>))"

text \<open>\<open>clients[dest]->f\<close>: the lookup inserts a null pointer for an unknown address and the
  call goes through it.\<close>

definition with_client :: "IpAddress \<Rightarrow> ('s \<Rightarrow> 'r \<times> 's) \<Rightarrow> ('l, 's, 'p) Server \<Rightarrow>
    ('r \<times> ('l, 's, 'p) Server) result" where
  "with_client dest f srv =
     (case map_index None dest (clients srv) of
        (None, _) \<Rightarrow> Inl Null_dereference
      | (Some s, m) \<Rightarrow> (let (r, s') = f s in Inr (r, srv\<lparr>clients := map_assign dest (Some s') m\<rparr>)))"

definition Server_sendString :: "('s, 'p) tcp_api \<Rightarrow> bytes \<Rightarrow> IpAddress \<Rightarrow> ('l, 's, 'p) Server \<Rightarrow>
    (bool \<times> ('l, 's, 'p) Server) result" where
  "Server_sendString T data dest srv =
     (case with_client dest (tcp_send_raw T data) srv of Inl e \<Rightarrow> Inl e
      | Inr (status, srv') \<Rightarrow> Inr (if status \<noteq> Done then False else True, srv'))"

definition Server_send :: "('s, 'p) tcp_api \<Rightarrow> 'p \<Rightarrow> IpAddress \<Rightarrow> ('l, 's, 'p) Server \<Rightarrow>
    (bool \<times> ('l, 's, 'p) Server) result" where
  "Server_send T packet dest srv =
     (case with_client dest (tcp_send T packet) srv of Inl e \<Rightarrow> Inl e
      | Inr (status, srv') \<Rightarrow> Inr (if status \<noteq> Done then False else True, srv'))"

definition Server_receiveString :: "('s, 'p) tcp_api \<Rightarrow> IpAddress \<Rightarrow> nat \<Rightarrow> ('l, 's, 'p) Server \<Rightarrow>
    (bytes \<times> ('l, 's, 'p) Server) result" where
  "Server_receiveString T source buffer srv =
     (case with_client source (\<lambda>s. let (status, data, s') = tcp_receive_raw T buffer s in ((status, data), s')) srv of
        Inl e \<Rightarrow> Inl e
      | Inr ((status, data), srv') \<Rightarrow> Inr (if status \<noteq> Done then narrow ''null'' else data, srv'))"

definition Server_receive :: "('s, 'p) tcp_api \<Rightarrow> IpAddress \<Rightarrow> ('l, 's, 'p) Server \<Rightarrow>
    (bool \<times> 'p \<times> ('l, 's, 'p) Server) result" where
  "Server_receive T source srv =
     (case with_client source (\<lambda>s. let (status, packet, s') = tcp_receive T s in ((status, packet), s')) srv of
        Inl e \<Rightarrow> Inl e
      | Inr ((status, packet), srv') \<Rightarrow> Inr (if status \<noteq> Done then False else True, packet, srv'))"

text \<open>\<open>ip_of_string\<close> is the conversion of a \<open>std::string\<close> to \<open>sf::IpAddress\<close>.\<close>

definition Server_handle :: "(bytes \<Rightarrow> IpAddress) \<Rightarrow> 'p packet_api \<Rightarrow> ('s, 'p) tcp_api \<Rightarrow> ('l, 's, 'p) Server \<Rightarrow>
    (bool \<times> ('l, 's, 'p) Server) result" where
  "Server_handle ip_of_string P T srv =
     (case srv_todo srv of
        [] \<Rightarrow> Inr (False, srv)
      | packet # rest \<Rightarrow>
          (case get_str P packet of Inl e \<Rightarrow> Inl e | Inr (ip, packet') \<Rightarrow>
            let srv1 = srv\<lparr>srv_todo := packet' # rest\<rparr>
            in (case Server_send T packet' (ip_of_string ip) srv1 of Inl e \<Rightarrow> Inl e
                | Inr (sent, srv2) \<Rightarrow>
                    if sent then Inr (True, srv2\<lparr>srv_todo := rest\<rparr>) else Inr (False, srv2))))"

definition Server_getTodoCount :: "('l, 's, 'p) Server \<Rightarrow> nat" where
  "Server_getTodoCount srv = length (srv_todo srv)"

definition Server_getClientIps :: "('l, 's, 'p) Server \<Rightarrow> IpAddress list" where
  "Server_getClientIps srv = map fst (clients srv)"

text \<open>\<open>getNBytes\<close> on a stream in good state: seek, then up to \<open>n\<close> single-byte reads.\<close>

fun get_bytes :: "nat \<Rightarrow> bytes \<Rightarrow> bytes \<Rightarrow> bytes" where
  "get_bytes 0 rest buffer = buffer"
| "get_bytes (Suc n) rest buffer =
     (case rest of [] \<Rightarrow> buffer | c # cs \<Rightarrow> get_bytes n cs (buffer @ [c]))"

definition Server_getNBytes :: "bytes \<Rightarrow> nat \<Rightarrow> nat \<Rightarrow> bytes" where
  "Server_getNBytes file startPosition n = get_bytes n (drop startPosition file) []"

section \<open>UdpConnection\<close>

definition Udp_bind :: "('u, 'p) udp_api \<Rightarrow> u16 \<Rightarrow> 'u \<Rightarrow> bool \<times> 'u" where
  "Udp_bind U port u =
     (let (status, u') = udp_bind U port u in (if status \<noteq> Done then False else True, u'))"

definition Udp_send :: "('u, 'p) udp_api \<Rightarrow> 'p \<Rightarrow> IpAddress \<Rightarrow> u16 \<Rightarrow> 'u \<Rightarrow> bool \<times> 'u" where
  "Udp_send U packet recipient port u =
     (let (status, u') = udp_send U packet recipient port u in (if status \<noteq> Done then False else True, u'))"

definition Udp_receive :: "('u, 'p) udp_api \<Rightarrow> 'u \<Rightarrow> bool \<times> ('p \<times> IpAddress \<times> u16) \<times> 'u" where
  "Udp_receive U u =
     (let (status, message, u') = udp_receive U u in (if status \<noteq> Done then False else True, message, u'))"

section \<open>Lemmas\<close>

definition server_ok :: "('l, 's, 'p) Server \<Rightarrow> bool" where
  "server_ok srv \<longleftrightarrow> map_ok (clients srv) \<and> (\<forall>ip. map_find (clients srv) ip \<noteq> Some None)"

lemma server_ok_with_client:
  "server_ok srv \<Longrightarrow> with_client dest f srv = Inr (r, srv') \<Longrightarrow> server_ok srv'"
  by (auto simp: server_ok_def with_client_def map_index_def map_ok_assign map_find_assign
      split: option.splits prod.splits if_splits)

lemma with_client_unknown:
  "map_find (clients srv) dest = None \<Longrightarrow> with_client dest f srv = Inl Null_dereference"
  by (simp add: with_client_def map_index_def)

lemma with_client_known:
  "map_find (clients srv) dest = Some (Some s) \<Longrightarrow> with_client dest f srv =
     Inr (fst (f s), srv\<lparr>clients := map_assign dest (Some (snd (f s))) (clients srv)\<rparr>)"
  by (simp add: with_client_def map_index_def split: prod.split)

lemma server_ok_accept: "server_ok srv \<Longrightarrow> server_ok (snd (Server_accept T L srv))"
  by (auto simp: Server_accept_def server_ok_def map_ok_assign map_find_assign Let_def
      split: prod.split if_splits)

lemma get_bytes_take: "get_bytes n rest buffer = buffer @ take n rest"
  by (induction n rest buffer rule: get_bytes.induct) (auto split: list.split)

end
