(* ===== verification/Wire_Packet.thy ===== *)
theory Wire_Packet
  imports Sf_Packet
begin

text \<open>
  A packet as a byte buffer with the data members \<open>Packet.hpp\<close> declares: the stored
  data, the reading and sending positions and the reading state. Integers are written
  in network byte order, a string as its 32-bit length and its characters, a wide
  character as 32 bits. It interprets the packet laws, so a theorem with the laws as a
  hypothesis has this instance to hold at.
\<close>

record wire_packet =
  m_data :: bytes
  m_readPos :: nat
  m_sendPos :: nat
  m_isValid :: bool

section \<open>Big-endian numbers\<close>

fun be :: "nat \<Rightarrow> nat \<Rightarrow> bytes" where
  "be 0 v = []"
| "be (Suc n) v = be n (v div 256) @ [word_of_nat v]"

definition unbe :: "bytes \<Rightarrow> nat" where
  "unbe bs = foldl (\<lambda>a b. a * 256 + unat b) 0 bs"

lemma length_be [simp]: "length (be n v) = n"
  by (induction n arbitrary: v) auto

lemma unbe_be: "unbe (be n v) = v mod 256 ^ n"
proof (induction n arbitrary: v)
  case 0
  then show ?case by (simp add: unbe_def)
next
  case (Suc n)
  then have "unbe (be (Suc n) v) = (v div 256) mod 256 ^ n * 256 + v mod 256"
    by (simp add: unbe_def unat_of_nat)
  also have "\<dots> = v mod (256 * 256 ^ n)"
    by (simp add: mod_mult2_eq)
  finally show ?case by simp
qed

lemma unbe_be_word:
  "unbe (be 2 (unat (w :: u16))) = unat w"
  "unbe (be 4 (unat (d :: u32))) = unat d"
  "unbe (be 8 (unat (q :: u64))) = unat q"
  using unat_bound [of w] unat_bound [of d] unat_bound [of q] by (simp_all add: unbe_be)

lemma unbe_be_wchar: "word_of_nat (unbe (be 4 (unat (c :: wchar)))) = c"
proof -
  have "unat c < 65536" using unat_bound [of c] by simp
  then show ?thesis by (simp add: unbe_be)
qed

section \<open>Fields as bytes\<close>

fun field_bytes :: "field \<Rightarrow> bytes" where
  "field_bytes (Bool b) = [if b then 1 else 0]"
| "field_bytes (Uint8 b) = [b]"
| "field_bytes (Uint16 w) = be 2 (unat w)"
| "field_bytes (Uint32 w) = be 4 (unat w)"
| "field_bytes (Uint64 w) = be 8 (unat w)"
| "field_bytes (Str s) = be 4 (length s) @ s"
| "field_bytes (Wstr s) = be 4 (length s) @ concat (map (\<lambda>c. be 4 (unat c)) s)"

fun wide_chars :: "nat \<Rightarrow> bytes \<Rightarrow> wstring" where
  "wide_chars 0 bs = []"
| "wide_chars (Suc n) bs = word_of_nat (unbe (take 4 bs)) # wide_chars n (drop 4 bs)"

lemma wide_chars_concat:
  "wide_chars (length s) (concat (map (\<lambda>c. be 4 (unat c)) s) @ r) = s"
  by (induction s) (simp_all add: unbe_be_wchar)

lemma length_concat_be: "length (concat (map (\<lambda>c. be 4 (unat c)) s)) = 4 * length s"
  by (induction s) auto

definition unread :: "wire_packet \<Rightarrow> bytes" where
  "unread p = drop (m_readPos p) (m_data p)"

text \<open>\<open>checkSize\<close> followed by the read of \<open>n\<close> bytes.\<close>

definition wire_read :: "nat \<Rightarrow> wire_packet \<Rightarrow> (bytes \<times> wire_packet) option" where
  "wire_read n p =
     (if m_isValid p \<and> n \<le> length (unread p)
      then Some (take n (unread p), p\<lparr>m_readPos := m_readPos p + n\<rparr>) else None)"

fun wire_extract :: "wire_packet \<Rightarrow> field_type \<Rightarrow> (field \<times> wire_packet) option" where
  "wire_extract p TBool = map_option (\<lambda>(bs, p'). (Bool (bs \<noteq> [0]), p')) (wire_read 1 p)"
| "wire_extract p TUint8 = map_option (\<lambda>(bs, p'). (Uint8 (hd bs), p')) (wire_read 1 p)"
| "wire_extract p TUint16 = map_option (\<lambda>(bs, p'). (Uint16 (word_of_nat (unbe bs)), p')) (wire_read 2 p)"
| "wire_extract p TUint32 = map_option (\<lambda>(bs, p'). (Uint32 (word_of_nat (unbe bs)), p')) (wire_read 4 p)"
| "wire_extract p TUint64 = map_option (\<lambda>(bs, p'). (Uint64 (word_of_nat (unbe bs)), p')) (wire_read 8 p)"
| "wire_extract p TStr =
     (case wire_read 4 p of None \<Rightarrow> None
      | Some (n, p') \<Rightarrow> map_option (\<lambda>(bs, p''). (Str bs, p'')) (wire_read (unbe n) p'))"
| "wire_extract p TWstr =
     (case wire_read 4 p of None \<Rightarrow> None
      | Some (n, p') \<Rightarrow>
          map_option (\<lambda>(bs, p''). (Wstr (wide_chars (unbe n) bs), p'')) (wire_read (4 * unbe n) p'))"

definition wire_api :: "wire_packet packet_api" where
  "wire_api = \<lparr>
     packet_new = \<lparr>m_data = [], m_readPos = 0, m_sendPos = 0, m_isValid = True\<rparr>,
     packet_data = m_data,
     packet_insert = (\<lambda>p f. p\<lparr>m_data := m_data p @ field_bytes f\<rparr>),
     packet_extract = wire_extract,
     packet_arrived = (\<lambda>p. \<lparr>m_data = m_data p, m_readPos = 0, m_sendPos = 0, m_isValid = True\<rparr>)\<rparr>"

definition wire_holds :: "wire_packet \<Rightarrow> field list \<Rightarrow> field list \<Rightarrow> bool" where
  "wire_holds p fs us \<longleftrightarrow>
     m_isValid p \<and> list_all field_ok fs \<and> list_all field_ok us \<and>
     m_readPos p \<le> length (m_data p) \<and>
     m_data p = concat (map field_bytes fs) \<and> unread p = concat (map field_bytes us)"

lemma wire_read_append:
  assumes "m_isValid p" "unread p = bs @ r" "m_readPos p \<le> length (m_data p)"
  shows "\<exists>p'. wire_read (length bs) p = Some (bs, p') \<and> m_isValid p' \<and> unread p' = r \<and>
     m_data p' = m_data p \<and> m_readPos p' \<le> length (m_data p')"
proof -
  have "length bs \<le> length (m_data p) - m_readPos p"
    using arg_cong [OF assms(2), of length] by (simp add: unread_def)
  moreover have "drop (m_readPos p + length bs) (m_data p) = r"
    using assms(2) by (simp add: unread_def add.commute flip: drop_drop)
  ultimately show ?thesis
    using assms by (auto simp: wire_read_def unread_def add.commute)
qed

lemma wire_extract_field:
  assumes "m_isValid p" "unread p = field_bytes f @ r" "m_readPos p \<le> length (m_data p)" "field_ok f"
  shows "\<exists>p'. wire_extract p (type_of f) = Some (f, p') \<and> m_isValid p' \<and> unread p' = r \<and>
     m_data p' = m_data p \<and> m_readPos p' \<le> length (m_data p')"
proof (cases f)
  case (Str s)
  from assms(2) have "unread p = be 4 (length s) @ (s @ r)" by (simp add: Str)
  from wire_read_append [OF assms(1) this assms(3)] obtain p1 where
    p1: "wire_read 4 p = Some (be 4 (length s), p1)" "m_isValid p1" "unread p1 = s @ r"
      "m_data p1 = m_data p" "m_readPos p1 \<le> length (m_data p1)" by auto
  from assms(4) have "unbe (be 4 (length s)) = length s" by (simp add: Str unbe_be)
  with wire_read_append [OF p1(2,3,5)] p1 show ?thesis by (auto simp: Str)
next
  case (Wstr s)
  let ?w = "concat (map (\<lambda>c. be 4 (unat c)) s)"
  from assms(2) have "unread p = be 4 (length s) @ (?w @ r)" by (simp add: Wstr)
  from wire_read_append [OF assms(1) this assms(3)] obtain p1 where
    p1: "wire_read 4 p = Some (be 4 (length s), p1)" "m_isValid p1" "unread p1 = ?w @ r"
      "m_data p1 = m_data p" "m_readPos p1 \<le> length (m_data p1)" by auto
  from assms(4) have "unbe (be 4 (length s)) = length s" by (simp add: Wstr unbe_be)
  with wire_read_append [OF p1(2,3,5)] p1 wide_chars_concat [of s "[]"] show ?thesis
    by (auto simp: Wstr length_concat_be)
qed (use wire_read_append [OF assms(1,2,3)] in \<open>auto simp: unbe_be_word\<close>)

interpretation wire: packet_laws wire_api wire_holds
proof unfold_locales
  fix p fs us f
  assume "wire_holds p fs us" "field_ok f"
  then show "wire_holds (packet_insert wire_api p f) (fs @ [f]) (us @ [f])"
    by (auto simp: wire_holds_def wire_api_def unread_def)
next
  fix p fs f us
  assume "wire_holds p fs (f # us)"
  then show "\<exists>p'. packet_extract wire_api p (type_of f) = Some (f, p') \<and> wire_holds p' fs us"
    using wire_extract_field [of p f "concat (map field_bytes us)"]
    by (auto simp: wire_holds_def wire_api_def)
next
  fix p fs t
  assume "wire_holds p fs []"
  then have "unread p = []" by (simp add: wire_holds_def)
  then show "packet_extract wire_api p t = None"
    by (cases t) (simp_all add: wire_api_def wire_read_def)
qed (auto simp: wire_holds_def wire_api_def unread_def)

end
