(* ===== verification/File_Transfer.thy ===== *)
theory File_Transfer
  imports Networking Wire_Packet
begin

text \<open>
  \<open>Node::sendFile\<close> and \<open>Node::receiveFile\<close>: the stop-and-wait transfer of one file over
  a TCP connection. First the two functions over abstract sockets, cut into the pieces
  that build a packet and that react to one; then the two sides as one step system whose
  channels are the connection, made of the same pieces.
\<close>

section \<open>Packets of the transfer\<close>

definition chunkSize :: nat where
  "chunkSize = 1024"

text \<open>\<open>packet << pid << pos << contents.size() << contents\<close>.\<close>

definition chunk_packet :: "'p packet_api \<Rightarrow> u32 \<Rightarrow> bytes \<Rightarrow> 'p" where
  "chunk_packet P pos contents =
     (let p1 = packet_insert P (packet_new P) (Uint8 100);
          p2 = packet_insert P p1 (Uint32 pos);
          p3 = packet_insert P p2 (Uint32 (word_of_nat (length contents)))
      in packet_insert P p3 (Str contents))"

definition end_packet :: "'p packet_api \<Rightarrow> 'p" where
  "end_packet P = packet_insert P (packet_new P) (Uint8 101)"

definition pos_packet :: "'p packet_api \<Rightarrow> u32 \<Rightarrow> 'p" where
  "pos_packet P pos = packet_insert P (packet_new P) (Uint32 pos)"

section \<open>The sender\<close>

text \<open>\<open>file.seekg(0, file.end); unsigned int length = file.tellg()\<close>: the low 32 bits of the
  size, and of \<open>-1\<close> for a stream that is not open.\<close>

definition stream_length :: "ifstream \<Rightarrow> u32" where
  "stream_length file = (if in_good file then word_of_nat (length (in_rest file)) else - 1)"

definition open_ifstream :: "fsnode \<Rightarrow> wstring \<Rightarrow> ifstream" where
  "open_ifstream fs path =
     (case open_read fs path of
        Some bs \<Rightarrow> \<lparr>in_rest = bs, in_good = True\<rparr>
      | None \<Rightarrow> \<lparr>in_rest = [], in_good = False\<rparr>)"

text \<open>The loop of \<open>sendFile\<close>. It may run forever, so its value is optional.\<close>

partial_function (option) send_loop :: "'p packet_api \<Rightarrow> ('s, 'p) tcp_api \<Rightarrow> IpAddress \<Rightarrow> u32 \<Rightarrow>
    u32 \<Rightarrow> ifstream \<Rightarrow> ('l, 's, 'p) Server \<Rightarrow> ('l, 's, 'p) Server result option" where
  "send_loop P T clientIp len pos file srv =
     (if pos < len
      then (let (contents, file') = if_read chunkSize file
            in (case Server_send T (chunk_packet P pos contents) clientIp srv of
                  Inl e \<Rightarrow> Some (Inl e)
                | Inr (_, srv1) \<Rightarrow>
                    (case Server_receive T clientIp srv1 of
                       Inl e \<Rightarrow> Some (Inl e)
                     | Inr (ok, response, srv2) \<Rightarrow>
                         if ok
                         then (case get_u32 P response of
                                 Inl e \<Rightarrow> Some (Inl e)
                               | Inr (clientPos, _) \<Rightarrow> send_loop P T clientIp len clientPos file' srv2)
                         else send_loop P T clientIp len pos file' srv2)))
      else Some (Inr srv))"

definition sendFile :: "'p packet_api \<Rightarrow> ('s, 'p) tcp_api \<Rightarrow> ('l, 's) listener_api \<Rightarrow> ifstream \<Rightarrow>
    ('l, 's, 'p) Server \<Rightarrow> ('l, 's, 'p) Server result option" where
  "sendFile P T L file srv =
     (let (clientIp, srv0) = Server_accept T L srv
      in (case send_loop P T clientIp (stream_length file) 0 file srv0 of
            None \<Rightarrow> None
          | Some (Inl e) \<Rightarrow> Some (Inl e)
          | Some (Inr srv1) \<Rightarrow>
              (case Server_send T (end_packet P) clientIp srv1 of
                 Inl e \<Rightarrow> Some (Inl e)
               | Inr (_, srv2) \<Rightarrow>
                   (case Server_receive T clientIp srv2 of
                      Inl e \<Rightarrow> Some (Inl e)
                    | Inr (_, _, srv3) \<Rightarrow> Some (Inr srv3)))))"

section \<open>The receiver\<close>

text \<open>\<open>pos = file.tellp()\<close>, a \<open>Uint32\<close>.\<close>

definition tellp32 :: "ofstream \<Rightarrow> u32" where
  "tellp32 file = word_of_int (of_tellp file)"

text \<open>One packet: \<open>None\<close> for the end of the file, else the file, the position and the
  response. Writing more bytes than the string holds is undefined behaviour.\<close>

definition receive_packet :: "'p packet_api \<Rightarrow> 'p \<Rightarrow> ofstream \<Rightarrow> u32 \<Rightarrow>
    (ofstream \<times> u32 \<times> 'p) option result" where
  "receive_packet P packet file pos =
     (case get_u8 P packet of Inl e \<Rightarrow> Inl e | Inr (pid, p1) \<Rightarrow>
      if pid = 101 then Inr None
      else (case get_u32 P p1 of Inl e \<Rightarrow> Inl e | Inr (serverPos, p2) \<Rightarrow>
        (case get_u32 P p2 of Inl e \<Rightarrow> Inl e | Inr (len, p3) \<Rightarrow>
          (case get_str P p3 of Inl e \<Rightarrow> Inl e | Inr (contents, p4) \<Rightarrow>
            if pos = serverPos
            then (if unat len \<le> length contents
                  then let file' = of_write (take (unat len) contents) file
                       in Inr (Some (file', tellp32 file', pos_packet P (tellp32 file')))
                  else Inl Range_error)
            else Inr (Some (file, pos, pos_packet P pos))))))"

text \<open>The loop of \<open>receiveFile\<close>: a failed receive is reported and tried again.\<close>

partial_function (option) receive_loop :: "'p packet_api \<Rightarrow> ('s, 'p) tcp_api \<Rightarrow> ofstream \<Rightarrow> u32 \<Rightarrow>
    ('s, 'p) Client \<Rightarrow> (ofstream \<times> ('s, 'p) Client) result option" where
  "receive_loop P T file pos c =
     (let (status, packet, c1) = Client_receive T c
      in if status = Done
         then (case receive_packet P packet file pos of
                 Inl e \<Rightarrow> Some (Inl e)
               | Inr None \<Rightarrow> Some (Inr (file, c1))
               | Inr (Some (file', pos', response)) \<Rightarrow>
                   receive_loop P T file' pos' (snd (Client_send T response c1)))
         else receive_loop P T file pos c1)"

definition receiveFile :: "'p packet_api \<Rightarrow> ('s, 'p) tcp_api \<Rightarrow> ofstream \<Rightarrow> ('s, 'p) Client \<Rightarrow>
    (ofstream \<times> ('s, 'p) Client) result option" where
  "receiveFile P T file c =
     (case receive_loop P T file 0 c of
        None \<Rightarrow> None
      | Some (Inl e) \<Rightarrow> Some (Inl e)
      | Some (Inr (file', c')) \<Rightarrow> Some (Inr (file', snd (Client_send T (packet_new P) c'))))"

section \<open>Both sides and their connection\<close>

datatype sender_pc = Chunk | AwaitPos | AwaitEnd | Sent
datatype receiver_pc = Receiving | Received

record 'p transfer =
  snd_pc :: sender_pc
  snd_file :: ifstream
  snd_pos :: u32
  snd_length :: u32
  to_client :: "'p list"
  to_server :: "'p list"
  rcv_pc :: receiver_pc
  rcv_file :: ofstream
  rcv_pos :: u32

text \<open>
  One rule per call that touches the connection, between two such calls each side runs the
  code above. \<open>send_chunk\<close> and \<open>take_pos\<close> are the halves of a round of \<open>send_loop\<close>,
  \<open>take_packet\<close> and \<open>take_end\<close> a round of \<open>receive_loop\<close>.
\<close>

inductive transfer_step :: "'p packet_api \<Rightarrow> 'p transfer \<Rightarrow> 'p transfer \<Rightarrow> bool" for P where
  send_chunk:
  "snd_pc t = Chunk \<Longrightarrow> snd_pos t < snd_length t \<Longrightarrow> if_read chunkSize (snd_file t) = (contents, file') \<Longrightarrow>
   transfer_step P t (t\<lparr>snd_pc := AwaitPos, snd_file := file',
     to_client := to_client t @ [packet_arrived P (chunk_packet P (snd_pos t) contents)]\<rparr>)"
| take_pos:
  "snd_pc t = AwaitPos \<Longrightarrow> to_server t = response # rest \<Longrightarrow> get_u32 P response = Inr (clientPos, p') \<Longrightarrow>
   transfer_step P t (t\<lparr>snd_pc := Chunk, snd_pos := clientPos, to_server := rest\<rparr>)"
| send_end:
  "snd_pc t = Chunk \<Longrightarrow> \<not> snd_pos t < snd_length t \<Longrightarrow>
   transfer_step P t (t\<lparr>snd_pc := AwaitEnd,
     to_client := to_client t @ [packet_arrived P (end_packet P)]\<rparr>)"
| take_last:
  "snd_pc t = AwaitEnd \<Longrightarrow> to_server t = response # rest \<Longrightarrow>
   transfer_step P t (t\<lparr>snd_pc := Sent, to_server := rest\<rparr>)"
| take_packet:
  "rcv_pc t = Receiving \<Longrightarrow> to_client t = packet # rest \<Longrightarrow>
   receive_packet P packet (rcv_file t) (rcv_pos t) = Inr (Some (file', pos', response)) \<Longrightarrow>
   transfer_step P t (t\<lparr>to_client := rest, rcv_file := file', rcv_pos := pos',
     to_server := to_server t @ [packet_arrived P response]\<rparr>)"
| take_end:
  "rcv_pc t = Receiving \<Longrightarrow> to_client t = packet # rest \<Longrightarrow>
   receive_packet P packet (rcv_file t) (rcv_pos t) = Inr None \<Longrightarrow>
   transfer_step P t (t\<lparr>to_client := rest, rcv_pc := Received,
     to_server := to_server t @ [packet_arrived P (packet_new P)]\<rparr>)"

definition transfer_init :: "ifstream \<Rightarrow> ofstream \<Rightarrow> 'p transfer" where
  "transfer_init file out =
     \<lparr>snd_pc = Chunk, snd_file = file, snd_pos = 0, snd_length = stream_length file,
      to_client = [], to_server = [], rcv_pc = Receiving, rcv_file = out, rcv_pos = 0\<rparr>"

end
