(* ===== verification/Transfer_Proof.thy ===== *)
theory Transfer_Proof
  imports File_Transfer
begin

text \<open>
  Correctness of the transfer. The reachable states fall into six phases, each fixed by
  the number \<open>k\<close> of bytes the receiver has written; every step leads from one phase to
  the next and lowers a weight, so the transfer ends, and it can only end when the
  receiver has everything the sender's 32-bit length asks for.
\<close>

section \<open>Positions\<close>

text \<open>The length the sender works with, and the number of bytes it sends: whole chunks until
  that length is reached, or the end of the file.\<close>

definition asked_length :: "bytes \<Rightarrow> nat" where
  "asked_length bs = length bs mod 2 ^ 32"

definition sent_length :: "bytes \<Rightarrow> nat" where
  "sent_length bs = min (length bs) (1024 * ((asked_length bs + 1023) div 1024))"

definition no_wrap :: "bytes \<Rightarrow> bool" where
  "no_wrap bs \<longleftrightarrow> sent_length bs < 2 ^ 32"

definition at_pos :: "bytes \<Rightarrow> nat \<Rightarrow> bool" where
  "at_pos bs k \<longleftrightarrow> k \<le> sent_length bs \<and> (1024 dvd k \<or> k = length bs)"

definition after_chunk :: "bytes \<Rightarrow> nat \<Rightarrow> nat" where
  "after_chunk bs k = min (k + 1024) (length bs)"

lemma at_pos_0: "at_pos bs 0"
  by (simp add: at_pos_def)

lemma asked_le: "asked_length bs \<le> length bs"
  by (simp add: asked_length_def)

lemma at_pos_next:
  assumes "at_pos bs k" "k < asked_length bs"
  shows "at_pos bs (after_chunk bs k)" "k < after_chunk bs k" "k < length bs"
    "after_chunk bs k < length bs \<Longrightarrow> 1024 \<le> length bs - k"
proof -
  show len: "k < length bs" using assms(2) asked_le [of bs] by simp
  with assms(1) obtain m where m: "k = 1024 * m" by (auto simp: at_pos_def)
  with assms(2) have "m < (asked_length bs + 1023) div 1024" by linarith
  then have "k + 1024 \<le> 1024 * ((asked_length bs + 1023) div 1024)" using m by linarith
  then show "at_pos bs (after_chunk bs k)"
    using m by (auto simp: at_pos_def after_chunk_def sent_length_def min_def)
  show "k < after_chunk bs k" using len by (simp add: after_chunk_def)
  show "after_chunk bs k < length bs \<Longrightarrow> 1024 \<le> length bs - k"
    by (simp add: after_chunk_def)
qed

lemma at_pos_end:
  assumes "at_pos bs k" "\<not> k < asked_length bs"
  shows "k = sent_length bs"
proof (cases "k = length bs")
  case True
  with assms(1) show ?thesis by (simp add: at_pos_def sent_length_def)
next
  case False
  with assms(1) obtain m where m: "k = 1024 * m" by (auto simp: at_pos_def)
  with assms(2) have "(asked_length bs + 1023) div 1024 \<le> m" by linarith
  with m have "sent_length bs \<le> k" by (simp add: sent_length_def)
  with assms(1) show ?thesis by (simp add: at_pos_def)
qed

lemma small_sent_length: "length bs < 2 ^ 32 \<Longrightarrow> sent_length bs = length bs \<and> no_wrap bs"
  by (auto simp: sent_length_def asked_length_def no_wrap_def)

lemma unat_pos: "no_wrap bs \<Longrightarrow> at_pos bs k \<Longrightarrow> unat (word_of_nat k :: u32) = k"
  by (simp add: no_wrap_def at_pos_def unat_of_nat)

lemma less_length_iff:
  assumes "no_wrap bs" "at_pos bs k"
  shows "(word_of_nat k :: u32) < word_of_nat (length bs) \<longleftrightarrow> k < asked_length bs"
proof -
  have "unat (word_of_nat (length bs) :: u32) = asked_length bs"
    by (simp add: unat_of_nat asked_length_def)
  then show ?thesis by (simp add: word_less_nat_alt unat_pos [OF assms])
qed

lemma pos_eq_iff:
  "no_wrap bs \<Longrightarrow> at_pos bs j \<Longrightarrow> at_pos bs k \<Longrightarrow> (word_of_nat j :: u32) = word_of_nat k \<longleftrightarrow> j = k"
  by (metis unat_pos)

section \<open>Phases\<close>

abbreviation w32 :: "nat \<Rightarrow> u32" where
  "w32 n \<equiv> word_of_nat n"

definition chunk_at :: "bytes \<Rightarrow> nat \<Rightarrow> bytes" where
  "chunk_at bs k = take 1024 (drop k bs)"

inductive phase :: "('p \<Rightarrow> field list \<Rightarrow> field list \<Rightarrow> bool) \<Rightarrow> bytes \<Rightarrow> nat \<Rightarrow> 'p transfer \<Rightarrow> bool"
  for holds bs where
  ready: "at_pos bs k \<Longrightarrow> (k < length bs \<Longrightarrow> g) \<Longrightarrow>
    phase holds bs k \<lparr>snd_pc = Chunk, snd_file = \<lparr>in_rest = drop k bs, in_good = g\<rparr>,
      snd_pos = w32 k, snd_length = w32 (length bs), to_client = [], to_server = [],
      rcv_pc = Receiving, rcv_file = \<lparr>out_good = True, out_data = take k bs\<rparr>, rcv_pos = w32 k\<rparr>"
| chunk_flies: "at_pos bs k \<Longrightarrow> k < asked_length bs \<Longrightarrow> (after_chunk bs k < length bs \<Longrightarrow> g) \<Longrightarrow>
    holds packet fs [Uint8 100, Uint32 (w32 k), Uint32 (w32 (length (chunk_at bs k))), Str (chunk_at bs k)] \<Longrightarrow>
    phase holds bs k \<lparr>snd_pc = AwaitPos, snd_file = \<lparr>in_rest = drop (after_chunk bs k) bs, in_good = g\<rparr>,
      snd_pos = w32 k, snd_length = w32 (length bs), to_client = [packet], to_server = [],
      rcv_pc = Receiving, rcv_file = \<lparr>out_good = True, out_data = take k bs\<rparr>, rcv_pos = w32 k\<rparr>"
| pos_flies: "at_pos bs k \<Longrightarrow> (k < length bs \<Longrightarrow> g) \<Longrightarrow> holds packet fs [Uint32 (w32 k)] \<Longrightarrow>
    phase holds bs k \<lparr>snd_pc = AwaitPos, snd_file = \<lparr>in_rest = drop k bs, in_good = g\<rparr>,
      snd_pos = old, snd_length = w32 (length bs), to_client = [], to_server = [packet],
      rcv_pc = Receiving, rcv_file = \<lparr>out_good = True, out_data = take k bs\<rparr>, rcv_pos = w32 k\<rparr>"
| end_flies: "k = sent_length bs \<Longrightarrow> holds packet fs [Uint8 101] \<Longrightarrow>
    phase holds bs k \<lparr>snd_pc = AwaitEnd, snd_file = f,
      snd_pos = w32 k, snd_length = w32 (length bs), to_client = [packet], to_server = [],
      rcv_pc = Receiving, rcv_file = \<lparr>out_good = True, out_data = take k bs\<rparr>, rcv_pos = w32 k\<rparr>"
| last_flies: "k = sent_length bs \<Longrightarrow>
    phase holds bs k \<lparr>snd_pc = AwaitEnd, snd_file = f,
      snd_pos = w32 k, snd_length = w32 (length bs), to_client = [], to_server = [packet],
      rcv_pc = Received, rcv_file = \<lparr>out_good = True, out_data = take k bs\<rparr>, rcv_pos = w32 k\<rparr>"
| finished: "k = sent_length bs \<Longrightarrow>
    phase holds bs k \<lparr>snd_pc = Sent, snd_file = f,
      snd_pos = w32 k, snd_length = w32 (length bs), to_client = [], to_server = [],
      rcv_pc = Received, rcv_file = \<lparr>out_good = True, out_data = take k bs\<rparr>, rcv_pos = w32 k\<rparr>"

definition transfer_inv :: "('p \<Rightarrow> field list \<Rightarrow> field list \<Rightarrow> bool) \<Rightarrow> bytes \<Rightarrow> 'p transfer \<Rightarrow> bool" where
  "transfer_inv holds bs t \<longleftrightarrow> no_wrap bs \<and> (\<exists>k. phase holds bs k t)"

definition transfer_start :: "bytes \<Rightarrow> 'p transfer \<Rightarrow> bool" where
  "transfer_start bs t \<longleftrightarrow> no_wrap bs \<and>
     t = transfer_init \<lparr>in_rest = bs, in_good = True\<rparr> \<lparr>out_good = True, out_data = []\<rparr>"

definition chunks :: "nat \<Rightarrow> nat" where
  "chunks n = (n + 1023) div 1024"

text \<open>Three steps a chunk, and three for the end.\<close>

definition transfer_weight :: "bytes \<Rightarrow> 'p transfer \<Rightarrow> nat" where
  "transfer_weight bs t =
     (let left = chunks (sent_length bs - length (out_data (rcv_file t)))
      in case snd_pc t of
           Chunk \<Rightarrow> 3 * left + 3
         | AwaitPos \<Rightarrow> if to_client t \<noteq> [] then 3 * left + 2 else 3 * left + 4
         | AwaitEnd \<Rightarrow> if to_client t \<noteq> [] then 2 else 1
         | Sent \<Rightarrow> 0)"

lemma length_chunk_at: "length (chunk_at bs k) = after_chunk bs k - k"
  by (auto simp: chunk_at_def after_chunk_def)

lemma take_after_chunk: "take k bs @ chunk_at bs k = take (after_chunk bs k) bs"
  by (simp add: chunk_at_def after_chunk_def take_add [symmetric] min_def)

lemma at_pos_le_length: "at_pos bs k \<Longrightarrow> k \<le> length bs"
  by (auto simp: at_pos_def sent_length_def)

lemma sent_length_le: "sent_length bs \<le> length bs"
  by (simp add: sent_length_def)

lemma at_pos_sent: "at_pos bs k \<Longrightarrow> k \<le> sent_length bs"
  by (simp add: at_pos_def)

lemma chunks_after_chunk:
  assumes "at_pos bs k" "k < asked_length bs"
  shows "chunks (sent_length bs - after_chunk bs k) + 1 = chunks (sent_length bs - k)"
proof (cases "k + 1024 \<le> length bs")
  case True
  then have "after_chunk bs k = k + 1024" by (simp add: after_chunk_def)
  with at_pos_sent [OF at_pos_next(1) [OF assms]]
  have "sent_length bs - k = (sent_length bs - after_chunk bs k) + 1024" by simp
  then show ?thesis by (simp add: chunks_def)
next
  case False
  then have a: "after_chunk bs k = length bs" by (simp add: after_chunk_def)
  with at_pos_sent [OF at_pos_next(1) [OF assms]] sent_length_le [of bs]
  have "sent_length bs = length bs" by simp
  with a False at_pos_next(3) [OF assms] show ?thesis by (simp add: chunks_def)
qed

lemma tellp32_of: "tellp32 \<lparr>out_good = True, out_data = d\<rparr> = w32 (length d)"
  by (simp add: tellp32_def of_tellp_def)

section \<open>The packets\<close>

lemma chunk_packet_fields:
  "chunk_packet P pos c =
     put_all P [Uint8 100, Uint32 pos, Uint32 (w32 (length c)), Str c] (packet_new P)"
  by (simp add: chunk_packet_def put_all_def Let_def)

lemma end_packet_fields: "end_packet P = put_all P [Uint8 101] (packet_new P)"
  by (simp add: end_packet_def put_all_def)

lemma pos_packet_fields: "pos_packet P pos = put_all P [Uint32 pos] (packet_new P)"
  by (simp add: pos_packet_def put_all_def)

context packet_laws
begin

lemma holds_sent: "list_all field_ok fs \<Longrightarrow> holds (packet_arrived P (put_all P fs (packet_new P))) fs fs"
  by (rule holds_arrived) (rule holds_built)

lemma receive_chunk:
  assumes "holds packet fs [Uint8 100, Uint32 sp, Uint32 (w32 (length c)), Str c]" "length c \<le> 1024"
  shows "receive_packet P packet file pos =
    (if pos = sp
     then Inr (Some (of_write c file, tellp32 (of_write c file), pos_packet P (tellp32 (of_write c file))))
     else Inr (Some (file, pos, pos_packet P pos)))"
proof -
  from get_u8_holds [OF assms(1)] obtain p1 where 1: "get_u8 P packet = Inr (100, p1)"
    "holds p1 fs [Uint32 sp, Uint32 (w32 (length c)), Str c]" by blast
  from get_u32_holds [OF 1(2)] obtain p2 where 2: "get_u32 P p1 = Inr (sp, p2)"
    "holds p2 fs [Uint32 (w32 (length c)), Str c]" by blast
  from get_u32_holds [OF 2(2)] obtain p3 where 3: "get_u32 P p2 = Inr (w32 (length c), p3)"
    "holds p3 fs [Str c]" by blast
  from get_str_holds [OF 3(2)] obtain p4 where 4: "get_str P p3 = Inr (c, p4)" by blast
  have "unat (w32 (length c)) = length c" using assms(2) by (simp add: unat_of_nat)
  with 1(1) 2(1) 3(1) 4 show ?thesis by (simp add: receive_packet_def Let_def)
qed

lemma receive_end:
  assumes "holds packet fs [Uint8 101]"
  shows "receive_packet P packet file pos = Inr None"
  using get_u8_holds [OF assms] by (auto simp: receive_packet_def)


lemma holds_chunk:
  assumes "length c \<le> 1024"
  shows "holds (packet_arrived P (chunk_packet P sp c)) [Uint8 100, Uint32 sp, Uint32 (w32 (length c)), Str c]
     [Uint8 100, Uint32 sp, Uint32 (w32 (length c)), Str c]"
  unfolding chunk_packet_fields using assms by (intro holds_sent) simp

lemma holds_end: "holds (packet_arrived P (end_packet P)) [Uint8 101] [Uint8 101]"
  unfolding end_packet_fields by (intro holds_sent) simp

lemma holds_pos: "holds (packet_arrived P (pos_packet P pos)) [Uint32 pos] [Uint32 pos]"
  unfolding pos_packet_fields by (intro holds_sent) simp

section \<open>One step\<close>

lemma step_ready:
  assumes ph: "phase holds bs k t" and st: "transfer_step P t u" and nw: "no_wrap bs"
    and pc: "snd_pc t = Chunk"
  shows "\<exists>k'. phase holds bs k' u \<and> transfer_weight bs u < transfer_weight bs t"
  using ph
proof (cases rule: phase.cases)
  case (ready g)
  note less = less_length_iff [OF nw ready(2)]
  have kl: "min (length bs) k = k" using at_pos_le_length [OF ready(2)] by simp
  from st show ?thesis
  proof (cases rule: transfer_step.cases)
    case (send_chunk contents file')
    have k: "k < asked_length bs" using send_chunk(3) ready(1) less by simp
    note nx = at_pos_next [OF ready(2) k]
    have c: "contents = chunk_at bs k" and r: "in_rest file' = drop (after_chunk bs k) bs"
      and gd: "after_chunk bs k < length bs \<Longrightarrow> in_good file'"
      using send_chunk(4) ready(1,3) nx
      by (auto simp: if_read_def chunk_at_def after_chunk_def chunkSize_def min_def add.commute split: if_splits)
    have u: "phase holds bs k u"
      unfolding send_chunk(1) ready(1)
      using chunk_flies [OF ready(2) k, of "in_good file'" holds, OF gd holds_chunk] r c
      by (cases file') (auto simp: chunk_at_def)
    have "transfer_weight bs u < transfer_weight bs t"
      unfolding send_chunk(1) ready(1) by (simp add: transfer_weight_def)
    with u show ?thesis by blast
  next
    case send_end
    have k: "k = sent_length bs"
      using send_end(3) ready(1) less at_pos_end [OF ready(2)] by simp
    have u: "phase holds bs k u"
      unfolding send_end(1) ready(1) using end_flies [where holds=holds, OF k holds_end] by simp
    have "transfer_weight bs u < transfer_weight bs t"
      unfolding send_end(1) ready(1) by (simp add: transfer_weight_def)
    with u show ?thesis by blast
  qed (use ready(1) in auto)
qed (use pc in auto)

lemma step_await_pos:
  assumes ph: "phase holds bs k t" and st: "transfer_step P t u" and nw: "no_wrap bs"
    and pc: "snd_pc t = AwaitPos"
  shows "\<exists>k'. phase holds bs k' u \<and> transfer_weight bs u < transfer_weight bs t"
  using ph
proof (cases rule: phase.cases)
  case (chunk_flies g packet fs)
  note nx = at_pos_next [OF chunk_flies(2,3)]
  have lenc: "length (chunk_at bs k) \<le> 1024" by (simp add: chunk_at_def)
  let ?k' = "after_chunk bs k"
  have len: "length (take ?k' bs) = ?k'" by (simp add: after_chunk_def)
  have len': "min (length bs) ?k' = ?k'" using len by simp
  have wr: "of_write (chunk_at bs k) (rcv_file t) = \<lparr>out_good = True, out_data = take ?k' bs\<rparr>"
    by (simp add: chunk_flies(1) of_write_def take_after_chunk)
  note rc = receive_chunk [OF chunk_flies(5) lenc]
  from st show ?thesis
  proof (cases rule: transfer_step.cases)
    case (take_packet pk rest file' pos' response)
    have e: "file' = \<lparr>out_good = True, out_data = take ?k' bs\<rparr>" "pos' = w32 ?k'"
      "response = pos_packet P (w32 ?k')" "rest = []"
      using take_packet(3,4) chunk_flies(1) rc [of "rcv_file t" "rcv_pos t"] wr
      by (simp_all add: tellp32_of len')
    have u: "phase holds bs ?k' u"
      unfolding take_packet(1) e using pos_flies [where holds=holds, OF nx(1) chunk_flies(4) holds_pos]
      by (simp add: chunk_flies(1))
    have "length (take k bs) = k" using at_pos_le_length [OF chunk_flies(2)] by simp
    then have "transfer_weight bs u < transfer_weight bs t"
      unfolding take_packet(1) e using chunks_after_chunk [OF chunk_flies(2,3)] len
      by (simp add: chunk_flies(1) transfer_weight_def Let_def)
    with u show ?thesis by blast
  next
    case (take_end pk rest)
    then show ?thesis using chunk_flies(1) rc [of "rcv_file t" "rcv_pos t"] by simp
  qed (use chunk_flies(1) in auto)
next
  case (pos_flies g packet fs old)
  have len: "length (take k bs) = k" using at_pos_le_length [OF pos_flies(2)] by simp
  from get_u32_holds [OF pos_flies(4)] obtain p' where g: "get_u32 P packet = Inr (w32 k, p')"
    by blast
  from st show ?thesis
  proof (cases rule: transfer_step.cases)
    case (take_pos response rest clientPos p2)
    have e: "clientPos = w32 k" "rest = []" using take_pos pos_flies(1) g by simp_all
    have u: "phase holds bs k u"
      unfolding take_pos(1) e using ready [OF pos_flies(2,3)] by (simp add: pos_flies(1))
    have "transfer_weight bs u < transfer_weight bs t"
      unfolding take_pos(1) e by (simp add: pos_flies(1) transfer_weight_def Let_def)
    with u show ?thesis by blast
  qed (use pos_flies(1) in auto)
qed (use pc in auto)

lemma step_ending:
  assumes ph: "phase holds bs k t" and st: "transfer_step P t u"
    and pc: "snd_pc t = AwaitEnd \<or> snd_pc t = Sent"
  shows "\<exists>k'. phase holds bs k' u \<and> transfer_weight bs u < transfer_weight bs t"
  using ph
proof (cases rule: phase.cases)
  case (end_flies packet fs f)
  note re = receive_end [OF end_flies(3)]
  from st show ?thesis
  proof (cases rule: transfer_step.cases)
    case (take_end pk rest)
    have u: "phase holds bs k u"
      unfolding take_end(1) using last_flies [OF end_flies(2)] take_end(3) by (simp add: end_flies(1))
    have "transfer_weight bs u < transfer_weight bs t"
      unfolding take_end(1) using take_end(3) by (simp add: end_flies(1) transfer_weight_def Let_def)
    with u show ?thesis by blast
  next
    case (take_packet pk rest file' pos' response)
    then show ?thesis using end_flies(1) re by simp
  qed (use end_flies(1) in auto)
next
  case (last_flies f packet)
  from st show ?thesis
  proof (cases rule: transfer_step.cases)
    case (take_last response rest)
    have u: "phase holds bs k u"
      unfolding take_last(1) using finished [OF last_flies(2)] take_last(3) by (simp add: last_flies(1))
    have "transfer_weight bs u < transfer_weight bs t"
      unfolding take_last(1) by (simp add: last_flies(1) transfer_weight_def Let_def)
    with u show ?thesis by blast
  qed (use last_flies(1) in auto)
next
  case (finished f)
  from st show ?thesis by (cases rule: transfer_step.cases) (use finished(1) in auto)
qed (use pc in auto)

lemma step_phase:
  assumes "phase holds bs k t" "transfer_step P t u" "no_wrap bs"
  shows "\<exists>k'. phase holds bs k' u \<and> transfer_weight bs u < transfer_weight bs t"
  using step_ready [OF assms] step_await_pos [OF assms] step_ending [OF assms(1,2)]
  by (cases "snd_pc t") auto

section \<open>A step is always possible before the end\<close>

lemma progress:
  assumes ph: "phase holds bs k t" and nw: "no_wrap bs" and pc: "snd_pc t \<noteq> Sent"
  shows "\<exists>u. transfer_step P t u"
  using ph
proof (cases rule: phase.cases)
  case (ready g)
  show ?thesis
  proof (cases "snd_pos t < snd_length t")
    case True
    obtain c f where "if_read chunkSize (snd_file t) = (c, f)" by fastforce
    from transfer_step.send_chunk [OF _ True this] ready(1) show ?thesis by auto
  next
    case False
    from transfer_step.send_end [OF _ False] ready(1) show ?thesis by auto
  qed
next
  case (chunk_flies g packet fs)
  have lenc: "length (chunk_at bs k) \<le> 1024" by (simp add: chunk_at_def)
  obtain file' pos' response where
    "receive_packet P packet (rcv_file t) (rcv_pos t) = Inr (Some (file', pos', response))"
    using receive_chunk [OF chunk_flies(5) lenc, of "rcv_file t" "rcv_pos t"] by (simp split: if_splits)
  from transfer_step.take_packet [OF _ _ this] chunk_flies(1) show ?thesis by auto
next
  case (pos_flies g packet fs old)
  from get_u32_holds [OF pos_flies(4)] obtain p' where "get_u32 P packet = Inr (w32 k, p')" by blast
  from transfer_step.take_pos [of t packet "[]", OF _ _ this] pos_flies(1) show ?thesis by auto
next
  case (end_flies packet fs f)
  from transfer_step.take_end [of t packet "[]"] receive_end [OF end_flies(3)] end_flies(1)
  show ?thesis by auto
next
  case (last_flies f packet)
  from transfer_step.take_last [of t packet "[]"] last_flies(1) show ?thesis by auto
qed (use pc in auto)

lemma start_phase:
  assumes "transfer_start bs t"
  shows "transfer_inv holds bs t"
proof -
  have "phase holds bs 0 \<lparr>snd_pc = Chunk, snd_file = \<lparr>in_rest = drop 0 bs, in_good = True\<rparr>,
      snd_pos = w32 0, snd_length = w32 (length bs), to_client = [], to_server = [],
      rcv_pc = Receiving, rcv_file = \<lparr>out_good = True, out_data = take 0 bs\<rparr>, rcv_pos = w32 0\<rparr>"
    by (rule ready) (simp_all add: at_pos_0)
  with assms show ?thesis
    by (auto simp: transfer_inv_def transfer_start_def transfer_init_def stream_length_def)
qed

end

section \<open>The transfer as a terminating system\<close>

locale transfer_env = packet_laws P holds
  for P :: "'p packet_api" and holds :: "'p \<Rightarrow> field list \<Rightarrow> field list \<Rightarrow> bool" +
  fixes bs :: bytes

sublocale transfer_env \<subseteq>
  transfer: terminating_system "transfer_start bs" "transfer_step P" "transfer_inv holds bs" "transfer_weight bs"
proof
  fix t u
  show "transfer_start bs t \<Longrightarrow> transfer_inv holds bs t" by (rule start_phase)
  assume t: "transfer_inv holds bs t" "transfer_step P t u"
  then show "transfer_inv holds bs u" using step_phase unfolding transfer_inv_def by blast
  from t show "transfer_weight bs u < transfer_weight bs t"
    using step_phase unfolding transfer_inv_def by blast
qed

context transfer_env
begin

lemma stuck_finished:
  assumes "transfer_inv holds bs t" "\<nexists>u. transfer_step P t u"
  shows "snd_pc t = Sent \<and> rcv_pc t = Received \<and> out_data (rcv_file t) = take (sent_length bs) bs \<and>
    to_client t = [] \<and> to_server t = []"
proof -
  from assms(1) obtain k where nw: "no_wrap bs" and ph: "phase holds bs k t"
    by (auto simp: transfer_inv_def)
  with assms(2) progress have "snd_pc t = Sent" by blast
  with ph show ?thesis by (cases rule: phase.cases) simp_all
qed

lemma written_prefix:
  assumes "transfer_inv holds bs t"
  shows "out_data (rcv_file t) = take (length (out_data (rcv_file t))) bs \<and>
    length (to_client t) + length (to_server t) \<le> 1"
proof -
  from assms obtain k where "phase holds bs k t" by (auto simp: transfer_inv_def)
  then show ?thesis by (cases rule: phase.cases) (simp_all add: min_def)
qed

lemma start_weight: "transfer_start bs t \<Longrightarrow> transfer_weight bs t = 3 * chunks (sent_length bs) + 3"
  by (auto simp: transfer_start_def transfer_init_def transfer_weight_def)

end

interpretation wire_transfer: transfer_env wire_api wire_holds bs for bs
  by (rule transfer_env.intro) (rule wire.packet_laws_axioms)

end
