(* ===== verification/File_Transfer_Peers.thy ===== *)
theory File_Transfer_Peers
  imports Transfer_Proof
begin

text \<open>
  The two loops as functions on sockets. A socket whose other end runs the opposite loop is
  itself a model of the socket class: sending a packet to a receiver makes it react at once
  and leaves its answer to be received. Against such a peer \<open>sendFile\<close> and \<open>receiveFile\<close>
  return; against a peer that is gone they never do.
\<close>

section \<open>A socket with a receiver at its other end\<close>

record 'p rpeer =
  rp_file :: ofstream
  rp_pos :: u32
  rp_out :: "'p list"
  rp_done :: bool

definition fresh_rpeer :: "'p rpeer" where
  "fresh_rpeer = \<lparr>rp_file = \<lparr>out_good = True, out_data = []\<rparr>, rp_pos = 0, rp_out = [], rp_done = False\<rparr>"

definition rpeer_take :: "'p packet_api \<Rightarrow> 'p \<Rightarrow> 'p rpeer \<Rightarrow> status \<times> 'p rpeer" where
  "rpeer_take P packet s =
     (if rp_done s then (Disconnected, s)
      else (case receive_packet P (packet_arrived P packet) (rp_file s) (rp_pos s) of
              Inl e \<Rightarrow> (Error, s)
            | Inr None \<Rightarrow> (Done, s\<lparr>rp_done := True, rp_out := rp_out s @ [packet_arrived P (packet_new P)]\<rparr>)
            | Inr (Some (file', pos', response)) \<Rightarrow>
                (Done, s\<lparr>rp_file := file', rp_pos := pos', rp_out := rp_out s @ [packet_arrived P response]\<rparr>)))"

definition rpeer_give :: "'p packet_api \<Rightarrow> 'p rpeer \<Rightarrow> status \<times> 'p \<times> 'p rpeer" where
  "rpeer_give P s =
     (case rp_out s of [] \<Rightarrow> (NotReady, packet_new P, s) | p # ps \<Rightarrow> (Done, p, s\<lparr>rp_out := ps\<rparr>))"

definition rpeer_api :: "'p packet_api \<Rightarrow> IpAddress \<Rightarrow> ('p rpeer, 'p) tcp_api" where
  "rpeer_api P ip =
     \<lparr>tcp_connect = (\<lambda>_ _ _ s. (Done, s)), tcp_send_raw = (\<lambda>_ s. (Error, s)),
      tcp_receive_raw = (\<lambda>_ s. (Error, [], s)), tcp_send = rpeer_take P,
      tcp_receive = rpeer_give P, tcp_remote = (\<lambda>_. ip)\<rparr>"

section \<open>A socket with a sender at its other end\<close>

record speer =
  sp_pc :: sender_pc
  sp_file :: ifstream
  sp_pos :: u32
  sp_length :: u32

definition fresh_speer :: "bytes \<Rightarrow> speer" where
  "fresh_speer bs = \<lparr>sp_pc = Chunk, sp_file = \<lparr>in_rest = bs, in_good = True\<rparr>, sp_pos = 0,
     sp_length = w32 (length bs)\<rparr>"

definition speer_give :: "'p packet_api \<Rightarrow> speer \<Rightarrow> status \<times> 'p \<times> speer" where
  "speer_give P s =
     (if sp_pc s \<noteq> Chunk then (NotReady, packet_new P, s)
      else if sp_pos s < sp_length s
      then (let (contents, file') = if_read chunkSize (sp_file s)
            in (Done, packet_arrived P (chunk_packet P (sp_pos s) contents),
                s\<lparr>sp_pc := AwaitPos, sp_file := file'\<rparr>))
      else (Done, packet_arrived P (end_packet P), s\<lparr>sp_pc := AwaitEnd\<rparr>))"

definition speer_take :: "'p packet_api \<Rightarrow> 'p \<Rightarrow> speer \<Rightarrow> status \<times> speer" where
  "speer_take P packet s =
     (case sp_pc s of
        AwaitPos \<Rightarrow>
          (case get_u32 P (packet_arrived P packet) of
             Inl e \<Rightarrow> (Error, s)
           | Inr (clientPos, _) \<Rightarrow> (Done, s\<lparr>sp_pc := Chunk, sp_pos := clientPos\<rparr>))
      | AwaitEnd \<Rightarrow> (Done, s\<lparr>sp_pc := Sent\<rparr>)
      | _ \<Rightarrow> (Done, s))"

definition speer_api :: "'p packet_api \<Rightarrow> IpAddress \<Rightarrow> (speer, 'p) tcp_api" where
  "speer_api P ip =
     \<lparr>tcp_connect = (\<lambda>_ _ _ s. (Done, s)), tcp_send_raw = (\<lambda>_ s. (Error, s)),
      tcp_receive_raw = (\<lambda>_ s. (Error, [], s)), tcp_send = speer_take P,
      tcp_receive = speer_give P, tcp_remote = (\<lambda>_. ip)\<rparr>"

lemma peer_api_sel [simp]:
  "tcp_send (rpeer_api P ip) = rpeer_take P" "tcp_receive (rpeer_api P ip) = rpeer_give P"
  "tcp_remote (rpeer_api P ip) s = ip"
  "tcp_send (speer_api P ip) = speer_take P" "tcp_receive (speer_api P ip) = speer_give P"
  by (simp_all add: rpeer_api_def speer_api_def)

section \<open>Reading and writing one chunk\<close>

lemma read_chunk:
  assumes "at_pos bs k" "k < asked_length bs" "k < length bs \<Longrightarrow> g"
  shows "\<exists>g'. if_read chunkSize \<lparr>in_rest = drop k bs, in_good = g\<rparr> =
      (chunk_at bs k, \<lparr>in_rest = drop (after_chunk bs k) bs, in_good = g'\<rparr>) \<and>
    (after_chunk bs k < length bs \<longrightarrow> g')"
  using at_pos_next [OF assms(1,2)] assms(3)
  by (auto simp: if_read_def chunk_at_def after_chunk_def chunkSize_def min_def add.commute)

lemma write_chunk:
  assumes "at_pos bs k"
  shows "of_write (chunk_at bs k) \<lparr>out_good = True, out_data = take k bs\<rparr> =
      \<lparr>out_good = True, out_data = take (after_chunk bs k) bs\<rparr>"
    "tellp32 \<lparr>out_good = True, out_data = take (after_chunk bs k) bs\<rparr> = w32 (after_chunk bs k)"
  by (simp_all add: of_write_def take_after_chunk tellp32_of after_chunk_def min_def)

context packet_laws
begin

lemma rpeer_take_chunk:
  assumes "at_pos bs k"
  shows "rpeer_take P (chunk_packet P (w32 k) (chunk_at bs k))
     \<lparr>rp_file = \<lparr>out_good = True, out_data = take k bs\<rparr>, rp_pos = w32 k, rp_out = [], rp_done = False\<rparr> =
     (Done, \<lparr>rp_file = \<lparr>out_good = True, out_data = take (after_chunk bs k) bs\<rparr>,
       rp_pos = w32 (after_chunk bs k), rp_out = [packet_arrived P (pos_packet P (w32 (after_chunk bs k)))],
       rp_done = False\<rparr>)"
proof -
  have len: "length (chunk_at bs k) \<le> 1024" by (simp add: chunk_at_def)
  from receive_chunk [OF holds_chunk [OF len] len] write_chunk [OF assms] show ?thesis
    by (simp add: rpeer_take_def)
qed

lemma rpeer_take_end:
  "rpeer_take P (end_packet P) \<lparr>rp_file = f, rp_pos = p, rp_out = [], rp_done = False\<rparr> =
     (Done, \<lparr>rp_file = f, rp_pos = p, rp_out = [packet_arrived P (packet_new P)], rp_done = True\<rparr>)"
  using receive_end [OF holds_end] by (simp add: rpeer_take_def)

lemma get_pos_arrived: "\<exists>p'. get_u32 P (packet_arrived P (pos_packet P pos)) = Inr (pos, p')"
  using get_u32_holds [OF holds_pos] by blast

lemma send_loop_to_receiver:
  assumes nw: "no_wrap bs" and at: "at_pos bs k" and g: "k < length bs \<Longrightarrow> g"
    and ok: "map_ok (clients srv)"
    and cl: "map_find (clients srv) ip = Some (Some \<lparr>rp_file = \<lparr>out_good = True, out_data = take k bs\<rparr>,
       rp_pos = w32 k, rp_out = [], rp_done = False\<rparr>)"
  shows "\<exists>srv'. send_loop P (rpeer_api P ip) ip (w32 (length bs)) (w32 k) \<lparr>in_rest = drop k bs, in_good = g\<rparr> srv =
       Some (Inr srv') \<and> map_ok (clients srv') \<and>
     map_find (clients srv') ip = Some (Some \<lparr>rp_file = \<lparr>out_good = True, out_data = take (sent_length bs) bs\<rparr>,
       rp_pos = w32 (sent_length bs), rp_out = [], rp_done = False\<rparr>)"
  using at g ok cl
proof (induction "length bs - k" arbitrary: k g srv rule: less_induct)
  case less
  show ?case
  proof (cases "k < asked_length bs")
    case False
    with at_pos_end [OF less.prems(1)] less_length_iff [OF nw less.prems(1)] less.prems show ?thesis
      by (subst send_loop.simps) simp
  next
    case True
    let ?k = "after_chunk bs k"
    let ?s1 = "\<lparr>rp_file = \<lparr>out_good = True, out_data = take ?k bs\<rparr>, rp_pos = w32 ?k,
       rp_out = [packet_arrived P (pos_packet P (w32 ?k))], rp_done = False\<rparr>"
    let ?m1 = "map_assign ip (Some ?s1) (clients srv)"
    let ?m2 = "map_assign ip (Some (?s1\<lparr>rp_out := []\<rparr>)) ?m1"
    note nx = at_pos_next [OF less.prems(1) True]
    obtain g' where rd: "if_read chunkSize \<lparr>in_rest = drop k bs, in_good = g\<rparr> =
        (chunk_at bs k, \<lparr>in_rest = drop ?k bs, in_good = g'\<rparr>)" "?k < length bs \<longrightarrow> g'"
      using read_chunk [OF less.prems(1) True less.prems(2)] by blast
    have s1: "Server_send (rpeer_api P ip) (chunk_packet P (w32 k) (chunk_at bs k)) ip srv =
        Inr (True, srv\<lparr>clients := ?m1\<rparr>)"
      by (simp add: Server_send_def with_client_known [OF less.prems(4)]
          rpeer_take_chunk [OF less.prems(1)])
    have m1: "map_ok ?m1" "map_find ?m1 ip = Some (Some ?s1)"
      using less.prems(3) by (simp_all add: map_ok_assign map_find_assign)
    have s2: "Server_receive (rpeer_api P ip) ip (srv\<lparr>clients := ?m1\<rparr>) =
        Inr (True, packet_arrived P (pos_packet P (w32 ?k)), srv\<lparr>clients := ?m2\<rparr>)"
      using m1(2) by (simp add: Server_receive_def rpeer_give_def
        with_client_known [of "srv\<lparr>clients := ?m1\<rparr>" ip ?s1])
    have m2: "map_ok ?m2" "map_find ?m2 ip = Some (Some (?s1\<lparr>rp_out := []\<rparr>))"
      using m1(1) by (simp_all add: map_ok_assign map_find_assign)
    have "length bs - ?k < length bs - k" using nx by linarith
    from less.hyps [OF this nx(1), of g' "srv\<lparr>clients := ?m2\<rparr>"] rd(2) m2
    show ?thesis
      using less_length_iff [OF nw less.prems(1)] True rd(1) s1 s2 get_pos_arrived [of "w32 ?k"]
      by (subst send_loop.simps) auto
  qed
qed

lemma speer_give_chunk:
  assumes "no_wrap bs" "at_pos bs k" "k < asked_length bs" "k < length bs \<Longrightarrow> g"
  shows "\<exists>g' fs. speer_give P \<lparr>sp_pc = Chunk, sp_file = \<lparr>in_rest = drop k bs, in_good = g\<rparr>,
        sp_pos = w32 k, sp_length = w32 (length bs)\<rparr> =
      (Done, packet_arrived P (chunk_packet P (w32 k) (chunk_at bs k)),
       \<lparr>sp_pc = AwaitPos, sp_file = \<lparr>in_rest = drop (after_chunk bs k) bs, in_good = g'\<rparr>,
        sp_pos = w32 k, sp_length = w32 (length bs)\<rparr>) \<and> (after_chunk bs k < length bs \<longrightarrow> g')"
  using read_chunk [OF assms(2-4)] less_length_iff [OF assms(1,2)] assms(3)
  by (auto simp: speer_give_def)

lemma speer_take_pos:
  "speer_take P (pos_packet P pos) \<lparr>sp_pc = AwaitPos, sp_file = f, sp_pos = old, sp_length = l\<rparr> =
     (Done, \<lparr>sp_pc = Chunk, sp_file = f, sp_pos = pos, sp_length = l\<rparr>)"
  using get_pos_arrived [of pos] by (auto simp: speer_take_def)

end

section \<open>Connections to a sender\<close>

text \<open>
  The interface of a socket whose other end runs the sending loop: the socket's state has
  a part, reached by \<open>view\<close> and \<open>put\<close>, on which the calls act like that sender.
\<close>

locale sender_socket = packet_laws P holds
  for P :: "'p packet_api" and holds :: "'p \<Rightarrow> field list \<Rightarrow> field list \<Rightarrow> bool" +
  fixes T :: "('s, 'p) tcp_api"
    and view :: "'s \<Rightarrow> speer"
    and put :: "speer \<Rightarrow> 's \<Rightarrow> 's"
  assumes sock_receive: "tcp_receive T s = (case speer_give P (view s) of (st, p, v) \<Rightarrow> (st, p, put v s))"
    and sock_send: "tcp_send T p s = (case speer_take P p (view s) of (st, v) \<Rightarrow> (st, put v s))"
    and view_put: "view (put v s) = v"
    and put_put: "put v (put w s) = put v s"
begin

lemma receive_loop_from_sender:
  assumes nw: "no_wrap bs" and at: "at_pos bs k" and g: "k < length bs \<Longrightarrow> g"
    and cl: "view (cl_socket c) = \<lparr>sp_pc = Chunk, sp_file = \<lparr>in_rest = drop k bs, in_good = g\<rparr>,
       sp_pos = w32 k, sp_length = w32 (length bs)\<rparr>"
  shows "\<exists>v. receive_loop P T \<lparr>out_good = True, out_data = take k bs\<rparr> (w32 k) c =
       Some (Inr (\<lparr>out_good = True, out_data = take (sent_length bs) bs\<rparr>, c\<lparr>cl_socket := put v (cl_socket c)\<rparr>)) \<and>
     sp_pc v = AwaitEnd"
  using at g cl
proof (induction "length bs - k" arbitrary: k g c rule: less_induct)
  case less
  show ?case
  proof (cases "k < asked_length bs")
    case False
    then have "speer_give P (view (cl_socket c)) =
        (Done, packet_arrived P (end_packet P), (view (cl_socket c))\<lparr>sp_pc := AwaitEnd\<rparr>)"
      using less.prems less_length_iff [OF nw less.prems(1)] by (simp add: speer_give_def)
    with at_pos_end [OF less.prems(1) False] receive_end [OF holds_end] show ?thesis
      by (intro exI [of _ "(view (cl_socket c))\<lparr>sp_pc := AwaitEnd\<rparr>"], subst receive_loop.simps)
        (simp add: Client_receive_def sock_receive)
  next
    case True
    let ?k = "after_chunk bs k"
    let ?s = "\<lambda>pc g pos. \<lparr>sp_pc = pc, sp_file = \<lparr>in_rest = drop ?k bs, in_good = g\<rparr>,
        sp_pos = pos, sp_length = w32 (length bs)\<rparr>"
    let ?c = "\<lambda>v. c\<lparr>cl_socket := put v (cl_socket c)\<rparr>"
    note nx = at_pos_next [OF less.prems(1) True]
    obtain g' where gv: "speer_give P (view (cl_socket c)) =
        (Done, packet_arrived P (chunk_packet P (w32 k) (chunk_at bs k)), ?s AwaitPos g' (w32 k))"
      "?k < length bs \<longrightarrow> g'"
      using speer_give_chunk [OF nw less.prems(1) True less.prems(2)] less.prems(3) by auto
    have rv: "Client_receive T c = (Done,
        packet_arrived P (chunk_packet P (w32 k) (chunk_at bs k)), ?c (?s AwaitPos g' (w32 k)))"
      using gv(1) by (simp add: Client_receive_def sock_receive)
    have len: "length (chunk_at bs k) \<le> 1024" by (simp add: chunk_at_def)
    note rc = receive_chunk [OF holds_chunk [OF len] len, of "w32 k"
        "\<lparr>out_good = True, out_data = take k bs\<rparr>" "w32 k",
        unfolded write_chunk [OF less.prems(1)], simplified]
    have sd: "snd (Client_send T (pos_packet P (w32 ?k)) (?c (?s AwaitPos g' (w32 k)))) = ?c (?s Chunk g' (w32 ?k))"
      by (simp add: Client_send_def sock_send view_put put_put speer_take_pos)
    have "length bs - ?k < length bs - k" using nx by linarith
    from less.hyps [OF this nx(1), of g' "?c (?s Chunk g' (w32 ?k))"] gv(2)
    show ?thesis by (subst receive_loop.simps) (simp add: rv rc sd view_put put_put)
  qed
qed

lemma receiveFile_from_sender:
  assumes "length bs < 2 ^ 32" "view (cl_socket c) = fresh_speer bs"
  shows "\<exists>v. receiveFile P T \<lparr>out_good = True, out_data = []\<rparr> c =
      Some (Inr (\<lparr>out_good = True, out_data = bs\<rparr>, c\<lparr>cl_socket := put v (cl_socket c)\<rparr>)) \<and> sp_pc v = Sent"
proof -
  from small_sent_length [OF assms(1)] have len: "sent_length bs = length bs" and nw: "no_wrap bs" by auto
  have "\<exists>v. receive_loop P T \<lparr>out_good = True, out_data = take 0 bs\<rparr> (w32 0) c =
       Some (Inr (\<lparr>out_good = True, out_data = take (sent_length bs) bs\<rparr>, c\<lparr>cl_socket := put v (cl_socket c)\<rparr>)) \<and>
     sp_pc v = AwaitEnd"
    by (rule receive_loop_from_sender [OF nw at_pos_0]) (simp_all add: assms(2) fresh_speer_def)
  then obtain v where v: "receive_loop P T \<lparr>out_good = True, out_data = []\<rparr> 0 c =
       Some (Inr (\<lparr>out_good = True, out_data = bs\<rparr>, c\<lparr>cl_socket := put v (cl_socket c)\<rparr>))" "sp_pc v = AwaitEnd"
    using len by auto
  then show ?thesis
    by (intro exI [of _ "v\<lparr>sp_pc := Sent\<rparr>"])
      (simp add: receiveFile_def Client_send_def sock_send view_put put_put speer_take_def)
qed

end

interpretation wire_sender: sender_socket wire_api wire_holds "speer_api wire_api ip" "\<lambda>s. s" "\<lambda>v s. v" for ip
  by unfold_locales (simp_all split: prod.split)

lemma sender_socket_speer: "packet_laws P holds \<Longrightarrow> sender_socket P holds (speer_api P ip) (\<lambda>s. s) (\<lambda>v s. v)"
  by (rule sender_socket.intro) (auto simp: sender_socket_axioms_def split: prod.split)

section \<open>The sender against a receiver\<close>

lemma sendFile_to_rpeer:
  assumes "packet_laws P holds" "length bs < 2 ^ 32" "map_ok (clients srv)"
    and "listener_accept L (listener srv) = (Done, fresh_rpeer, l')"
  shows "\<exists>srv' s. sendFile P (rpeer_api P ip) L \<lparr>in_rest = bs, in_good = True\<rparr> srv = Some (Inr srv') \<and>
    map_find (clients srv') ip = Some (Some s) \<and> rp_done s \<and> out_data (rp_file s) = bs"
proof -
  let ?srv0 = "srv\<lparr>listener := l', clients := map_assign ip (Some fresh_rpeer) (clients srv)\<rparr>"
  have acc: "Server_accept (rpeer_api P ip) L srv = (ip, ?srv0)"
    using assms(4) by (simp add: Server_accept_def)
  from small_sent_length [OF assms(2)] have len: "sent_length bs = length bs" and nw: "no_wrap bs" by auto
  have "\<exists>srv1. send_loop P (rpeer_api P ip) ip (w32 (length bs)) (w32 0)
      \<lparr>in_rest = drop 0 bs, in_good = True\<rparr> ?srv0 = Some (Inr srv1) \<and> map_ok (clients srv1) \<and>
    map_find (clients srv1) ip = Some (Some \<lparr>rp_file = \<lparr>out_good = True, out_data = take (sent_length bs) bs\<rparr>,
       rp_pos = w32 (sent_length bs), rp_out = [], rp_done = False\<rparr>)"
    by (rule packet_laws.send_loop_to_receiver [OF assms(1) nw at_pos_0])
      (simp_all add: assms(3) map_ok_assign map_find_assign fresh_rpeer_def)
  then obtain srv1 where 1: "send_loop P (rpeer_api P ip) ip (w32 (length bs)) 0
      \<lparr>in_rest = bs, in_good = True\<rparr> ?srv0 = Some (Inr srv1)" "map_ok (clients srv1)"
    "map_find (clients srv1) ip = Some (Some \<lparr>rp_file = \<lparr>out_good = True, out_data = bs\<rparr>,
       rp_pos = w32 (length bs), rp_out = [], rp_done = False\<rparr>)"
    using len by auto
  show ?thesis
    by (simp add: sendFile_def acc stream_length_def 1(1) Server_send_def with_client_known [OF 1(3)]
        packet_laws.rpeer_take_end [OF assms(1)] Server_receive_def
        with_client_known map_find_assign 1(2) map_ok_assign rpeer_give_def)
qed

section \<open>A peer that is gone\<close>

text \<open>\<open>gone\<close> is a set of sockets, closed under the calls, that never receive anything.\<close>

definition peer_gone :: "('s, 'p) tcp_api \<Rightarrow> ('s \<Rightarrow> bool) \<Rightarrow> bool" where
  "peer_gone T gone \<longleftrightarrow>
     (\<forall>s. gone s \<longrightarrow> fst (tcp_receive T s) \<noteq> Done \<and> gone (snd (snd (tcp_receive T s)))) \<and>
     (\<forall>s p. gone s \<longrightarrow> gone (snd (tcp_send T p s)))"

lemma gone_send:
  assumes "peer_gone T gone" "map_ok (clients srv)" "map_find (clients srv) ip = Some (Some s)" "gone s"
  shows "\<exists>b srv' s'. Server_send T p ip srv = Inr (b, srv') \<and> map_ok (clients srv') \<and>
    map_find (clients srv') ip = Some (Some s') \<and> gone s'"
  using assms by (simp add: Server_send_def with_client_known [OF assms(3)] peer_gone_def
      map_ok_assign map_find_assign)

lemma gone_receive:
  assumes "peer_gone T gone" "map_ok (clients srv)" "map_find (clients srv) ip = Some (Some s)" "gone s"
  shows "\<exists>p srv' s'. Server_receive T ip srv = Inr (False, p, srv') \<and> map_ok (clients srv') \<and>
    map_find (clients srv') ip = Some (Some s') \<and> gone s'"
  using assms by (simp add: Server_receive_def with_client_known [OF assms(3)] peer_gone_def
      map_ok_assign map_find_assign split: prod.split) (metis fst_conv snd_conv)

text \<open>The claims as predicates on the arguments and the result, for the induction on the loops.\<close>

definition send_gone :: "('s \<Rightarrow> bool) \<Rightarrow>
    ((((('p packet_api \<times> ('s, 'p) tcp_api) \<times> IpAddress) \<times> u32) \<times> u32) \<times> ifstream) \<times> ('l, 's, 'p) Server \<Rightarrow>
    ('l, 's, 'p) Server result \<Rightarrow> bool" where
  "send_gone gone = (\<lambda>((((((P, T), ip), len), pos), f), srv) r. \<forall>s. peer_gone T gone \<longrightarrow> pos < len \<longrightarrow>
     map_ok (clients srv) \<longrightarrow> map_find (clients srv) ip = Some (Some s) \<longrightarrow> \<not> gone s)"

definition receive_gone :: "('s \<Rightarrow> bool) \<Rightarrow>
    ((('p packet_api \<times> ('s, 'p) tcp_api) \<times> ofstream) \<times> u32) \<times> ('s, 'p) Client \<Rightarrow>
    (ofstream \<times> ('s, 'p) Client) result \<Rightarrow> bool" where
  "receive_gone gone = (\<lambda>((((P, T), f), pos), c) r. peer_gone T gone \<longrightarrow> \<not> gone (cl_socket c))"

lemma send_loop_gone:
  fixes P :: "'p packet_api" and T :: "('s, 'p) tcp_api" and srv :: "('l, 's, 'p) Server"
  assumes "peer_gone T gone" "pos < len" "map_ok (clients srv)"
    and "map_find (clients srv) ip = Some (Some s)" "gone s"
  shows "send_loop P T ip len pos f srv = None"
proof (rule ccontr)
  assume "send_loop P T ip len pos f srv \<noteq> None"
  then obtain r where "send_loop P T ip len pos f srv = Some r" by auto
  then have "send_gone gone ((((((P, T), ip), len), pos), f), srv) r"
  proof (rule send_loop.raw_induct [rotated])
    fix loop and P :: "'p packet_api" and T :: "('s, 'p) tcp_api" and ip len pos f
      and srv :: "('l, 's, 'p) Server" and r
    assume IH: "\<And>P T ip len pos f srv r. loop P T ip len pos f srv = Some r \<Longrightarrow>
        send_gone gone ((((((P, T), ip), len), pos), f), srv) r"
      and body: "(if pos < len
         then let (contents, file') = if_read chunkSize f
              in case Server_send T (chunk_packet P pos contents) ip srv of Inl e \<Rightarrow> Some (Inl e)
                 | Inr (_, srv1) \<Rightarrow> (case Server_receive T ip srv1 of Inl e \<Rightarrow> Some (Inl e)
                    | Inr (ok, response, srv2) \<Rightarrow>
                        if ok then case get_u32 P response of Inl e \<Rightarrow> Some (Inl e)
                                   | Inr (clientPos, _) \<Rightarrow> loop P T ip len clientPos file' srv2
                        else loop P T ip len pos file' srv2)
         else Some (Inr srv)) = Some r"
    show "send_gone gone ((((((P, T), ip), len), pos), f), srv) r"
      unfolding send_gone_def prod.case
    proof (intro allI impI notI)
      fix s
      assume gone: "peer_gone T gone" "pos < len" "map_ok (clients srv)"
        "map_find (clients srv) ip = Some (Some s)" "gone s"
      obtain c f' where rd: "if_read chunkSize f = (c, f')" by fastforce
      obtain b srv1 s1 where s1: "Server_send T (chunk_packet P pos c) ip srv = Inr (b, srv1)"
        "map_ok (clients srv1)" "map_find (clients srv1) ip = Some (Some s1)" "gone s1"
        using gone_send [OF gone(1,3-5)] by blast
      obtain p srv2 s2 where s2: "Server_receive T ip srv1 = Inr (False, p, srv2)"
        "map_ok (clients srv2)" "map_find (clients srv2) ip = Some (Some s2)" "gone s2"
        using gone_receive [OF gone(1) s1(2-4)] by blast
      have "loop P T ip len pos f' srv2 = Some r"
        using body gone(2) rd s1(1) s2(1) by simp
      from IH [OF this] gone s2 show False by (simp add: send_gone_def)
    qed
  qed
  with assms show False by (simp add: send_gone_def)
qed

lemma receive_loop_gone:
  fixes P :: "'p packet_api" and T :: "('s, 'p) tcp_api" and c :: "('s, 'p) Client"
  assumes "peer_gone T gone" "gone (cl_socket c)"
  shows "receive_loop P T f pos c = None"
proof (rule ccontr)
  assume "receive_loop P T f pos c \<noteq> None"
  then obtain r where "receive_loop P T f pos c = Some r" by auto
  then have "receive_gone gone ((((P, T), f), pos), c) r"
  proof (rule receive_loop.raw_induct [rotated])
    fix loop and P :: "'p packet_api" and T :: "('s, 'p) tcp_api" and f pos and c :: "('s, 'p) Client" and r
    assume IH: "\<And>P T f pos c r. loop P T f pos c = Some r \<Longrightarrow> receive_gone gone ((((P, T), f), pos), c) r"
      and body: "(let (status, packet, c1) = Client_receive T c
        in if status = Done
           then case receive_packet P packet f pos of Inl e \<Rightarrow> Some (Inl e)
                | Inr None \<Rightarrow> Some (Inr (f, c1))
                | Inr (Some (file', pos', response)) \<Rightarrow> loop P T file' pos' (snd (Client_send T response c1))
           else loop P T f pos c1) = Some r"
    obtain st p s where rv: "tcp_receive T (cl_socket c) = (st, p, s)"
      by (cases "tcp_receive T (cl_socket c)")
    show "receive_gone gone ((((P, T), f), pos), c) r"
      unfolding receive_gone_def prod.case
    proof (intro impI notI)
      assume gone: "peer_gone T gone" "gone (cl_socket c)"
      with rv have st: "st \<noteq> Done" "gone s" unfolding peer_gone_def by (metis fst_conv snd_conv)+
      with body rv have "loop P T f pos (c\<lparr>cl_socket := s\<rparr>) = Some r"
        by (simp add: Client_receive_def)
      from IH [OF this] gone(1) st(2) show False by (simp add: receive_gone_def)
    qed
  qed
  with assms show False by (simp add: receive_gone_def)
qed

end
