(* ===== verification/File_Transfer_Claims.thy ===== *)
theory File_Transfer_Claims
  imports File_Transfer_Peers
begin

text \<open>
  What a file transfer delivers, when it ends, and the situations in which it does not:
  the properties of \<open>Node::sendFile\<close> and \<open>Node::receiveFile\<close>.
\<close>

section \<open>Both files open\<close>

definition transfer_of :: "bytes \<Rightarrow> 'p transfer" where
  "transfer_of bs = transfer_init \<lparr>in_rest = bs, in_good = True\<rparr> \<lparr>out_good = True, out_data = []\<rparr>"

lemma transfer_start_of: "no_wrap bs \<Longrightarrow> transfer_start bs (transfer_of bs)"
  by (simp add: transfer_start_def transfer_of_def)

lemma transfer_env_of: "packet_laws P holds \<Longrightarrow> transfer_env P holds"
  by (rule transfer_env.intro)

context transfer_env
begin

lemma reached_inv: "no_wrap bs \<Longrightarrow> (transfer_step P)\<^sup>*\<^sup>* (transfer_of bs) t \<Longrightarrow> transfer_inv holds bs t"
  using transfer.inv_reached transfer_start_of by blast

lemma run_bounded:
  assumes "no_wrap bs" "(transfer_step P ^^ n) (transfer_of bs) t"
  shows "n \<le> 3 * chunks (sent_length bs) + 3"
proof -
  have st: "transfer_start bs (transfer_of bs :: 'p transfer)" by (rule transfer_start_of) (rule assms(1))
  from transfer.steps_bounded [OF assms(2) transfer.inv_start [OF st]] start_weight [OF st]
  show ?thesis by simp
qed

lemma run_ends:
  assumes "no_wrap bs" "(transfer_step P)\<^sup>*\<^sup>* (transfer_of bs) t"
  shows "\<exists>u. (transfer_step P)\<^sup>*\<^sup>* t u \<and> (\<nexists>v. transfer_step P u v) \<and>
    snd_pc u = Sent \<and> rcv_pc u = Received \<and> out_data (rcv_file u) = take (sent_length bs) bs"
proof -
  from transfer.reaches_end [OF reached_inv [OF assms]] obtain u
    where u: "(transfer_step P)\<^sup>*\<^sup>* t u" "\<nexists>v. transfer_step P u v" by blast
  with assms have "transfer_inv holds bs u" by (meson reached_inv rtranclp_trans)
  with u stuck_finished show ?thesis by blast
qed

end

text \<open>C5 Partial correctness of a transfer: when a file shorter than 4 GiB is sent and neither
  side can take another step, both functions have left their loops, no packet is left over, and
  the receiver has written exactly the content of the file.\<close>

theorem transfer_delivers_file:
  assumes "packet_laws P holds" "length bs < 2 ^ 32"
    and "(transfer_step P)\<^sup>*\<^sup>* (transfer_of bs) t" "\<nexists>u. transfer_step P t u"
  shows "snd_pc t = Sent \<and> rcv_pc t = Received \<and> out_data (rcv_file t) = bs \<and>
    to_client t = [] \<and> to_server t = []"
  using transfer_env.stuck_finished [OF transfer_env_of [OF assms(1)] _ assms(4)]
    transfer_env.reached_inv [OF transfer_env_of [OF assms(1)] _ assms(3)]
    small_sent_length [OF assms(2)]
  by auto

theorem transfer_delivers_file_witness:
  "\<exists>t. (transfer_step wire_api)\<^sup>*\<^sup>* (transfer_of [1, 2, 3]) t \<and> out_data (rcv_file t) = [1, 2, 3]"
proof -
  have len: "length [1::u8, 2, 3] < 2 ^ 32" by simp
  obtain t where t: "(transfer_step wire_api)\<^sup>*\<^sup>* (transfer_of [1, 2, 3]) t" "\<nexists>u. transfer_step wire_api t u"
    using wire_transfer.run_ends [of "[1, 2, 3]" "transfer_of [1, 2, 3]"] small_sent_length [OF len] by blast
  from transfer_delivers_file [OF wire.packet_laws_axioms len t] t(1) show ?thesis by blast
qed

text \<open>C6 Termination of a transfer: three steps for every chunk of 1024 bytes and three for the
  end are the most a transfer takes, in whatever order the two sides run, and from every
  state on the way the state is reached in which the whole file has been received.\<close>

theorem transfer_terminates:
  assumes "packet_laws P holds" "length bs < 2 ^ 32" "(transfer_step P ^^ n) (transfer_of bs) t"
  shows "n \<le> 3 * chunks (length bs) + 3 \<and>
    (\<exists>u. (transfer_step P)\<^sup>*\<^sup>* t u \<and> snd_pc u = Sent \<and> rcv_pc u = Received \<and> out_data (rcv_file u) = bs)"
  using transfer_env.run_bounded [OF transfer_env_of [OF assms(1)] _ assms(3)]
    transfer_env.run_ends [OF transfer_env_of [OF assms(1)] _ relpowp_imp_rtranclp [OF assms(3)]]
    small_sent_length [OF assms(2)]
  by auto

theorem transfer_terminates_witness:
  "\<exists>u. (transfer_step wire_api)\<^sup>*\<^sup>* (transfer_of [7]) u \<and> snd_pc u = Sent \<and> out_data (rcv_file u) = [7]"
  using transfer_terminates [OF wire.packet_laws_axioms, of "[7]" 0 "transfer_of [7]"] by auto

text \<open>C17 Safety of a transfer at any moment: what the receiver has written so far is a prefix of
  the file, so no chunk is lost, doubled or out of place, and at most one packet is under way.\<close>

theorem transfer_writes_prefix:
  assumes "packet_laws P holds" "length bs < 2 ^ 32" "(transfer_step P)\<^sup>*\<^sup>* (transfer_of bs) t"
  shows "(\<exists>rest. bs = out_data (rcv_file t) @ rest) \<and> length (to_client t) + length (to_server t) \<le> 1"
proof -
  have "transfer_inv holds bs t"
    using transfer_env.reached_inv [OF transfer_env_of [OF assms(1)] _ assms(3)]
      small_sent_length [OF assms(2)] by blast
  from transfer_env.written_prefix [OF transfer_env_of [OF assms(1)] this] show ?thesis
    by (metis append_take_drop_id)
qed

theorem transfer_writes_prefix_witness:
  "\<exists>t rest. transfer_step wire_api (transfer_of [7]) t \<and> [7] = out_data (rcv_file t) @ rest"
proof -
  from wire.progress [OF phase.ready [OF at_pos_0], of "[7]" True]
  obtain t where t: "transfer_step wire_api (transfer_of [7]) t"
    using small_sent_length [of "[7::u8]"]
    by (auto simp: transfer_of_def transfer_init_def stream_length_def)
  from transfer_writes_prefix [OF wire.packet_laws_axioms, of "[7]" t] t show ?thesis by auto
qed

text \<open>C34 The length is kept in 32 bits. Of a file of 4 GiB or more whose length, modulo 2^32, is not
  among the 1023 largest values (for those the position itself wraps around, which is another
  behaviour), only the first \<open>length mod 2 ^ 32\<close> bytes, rounded up to whole chunks, are delivered:
  the transfer takes at most three steps for each of these chunks and three for the end, from
  every state on the way an end is reached, and at every end both sides have finished as if the
  transfer were complete, with less than the file written.\<close>

theorem transfer_truncates_large_file:
  assumes "packet_laws P holds" "2 ^ 32 \<le> length bs" "length bs mod 2 ^ 32 + 1023 < 2 ^ 32"
    and steps: "(transfer_step P ^^ n) (transfer_of bs) t"
  shows "n \<le> 3 * chunks (length bs mod 2 ^ 32) + 3 \<and>
    (\<exists>u. (transfer_step P)\<^sup>*\<^sup>* t u \<and> (\<nexists>v. transfer_step P u v)) \<and>
    (\<forall>u. (transfer_step P)\<^sup>*\<^sup>* t u \<longrightarrow> (\<nexists>v. transfer_step P u v) \<longrightarrow>
      snd_pc u = Sent \<and> rcv_pc u = Received \<and>
      out_data (rcv_file u) = take (1024 * chunks (length bs mod 2 ^ 32)) bs \<and> out_data (rcv_file u) \<noteq> bs)"
proof -
  let ?m = "1024 * chunks (length bs mod 2 ^ 32)"
  have m: "?m < 2 ^ 32" using assms(3) unfolding chunks_def by linarith
  with assms(2) have s: "sent_length bs = ?m"
    by (simp add: sent_length_def asked_length_def chunks_def)
  with m have nw: "no_wrap bs" by (simp add: no_wrap_def)
  note env = transfer_env_of [OF assms(1)]
  have t: "(transfer_step P)\<^sup>*\<^sup>* (transfer_of bs) t" using steps by (rule relpowp_imp_rtranclp)
  have "chunks ?m = chunks (length bs mod 2 ^ 32)" by (simp add: chunks_def)
  with transfer_env.run_bounded [OF env nw steps] s have "n \<le> 3 * chunks (length bs mod 2 ^ 32) + 3" by simp
  moreover have "length (take ?m bs) \<noteq> length bs" using m assms(2) by simp
  then have "take ?m bs \<noteq> bs" by metis
  then have "snd_pc u = Sent \<and> rcv_pc u = Received \<and> out_data (rcv_file u) = take ?m bs \<and> out_data (rcv_file u) \<noteq> bs"
    if "(transfer_step P)\<^sup>*\<^sup>* t u" "\<nexists>v. transfer_step P u v" for u
    using transfer_env.stuck_finished [OF env transfer_env.reached_inv [OF env nw rtranclp_trans [OF t that(1)]] that(2)] s
    by simp
  ultimately show ?thesis using transfer_env.run_ends [OF env nw t] by blast
qed

theorem transfer_truncates_large_file_witness:
  "\<exists>bs t. (transfer_step wire_api)\<^sup>*\<^sup>* (transfer_of bs) t \<and> snd_pc t = Sent \<and>
     length bs = 2 ^ 32 + 5 \<and> length (out_data (rcv_file t)) = 1024"
proof -
  define bs :: bytes where "bs = replicate (2 ^ 32 + 5) 0"
  have len: "length bs = 2 ^ 32 + 5" by (simp add: bs_def)
  have "(transfer_step wire_api ^^ 0) (transfer_of bs) (transfer_of bs)" by simp
  from transfer_truncates_large_file [OF wire.packet_laws_axioms _ _ this] obtain t where
    t: "(transfer_step wire_api)\<^sup>*\<^sup>* (transfer_of bs) t" "out_data (rcv_file t) = take 1024 bs" "snd_pc t = Sent"
    by (auto simp: len chunks_def)
  with len show ?thesis by (intro exI [of _ bs] exI [of _ t]) simp
qed

section \<open>The functions against a live peer\<close>

definition sample_listener :: "'s \<Rightarrow> (unit, 's) listener_api" where
  "sample_listener s = \<lparr>listener_listen = (\<lambda>_ l. (Done, l)), listener_accept = (\<lambda>l. (Done, s, l))\<rparr>"

definition sample_server :: "(unit, 's, 'p) Server" where
  "sample_server = \<lparr>clients = [], srv_todo = [], listener = ()\<rparr>"

text \<open>C7 Total correctness of \<open>sendFile\<close>: when the accepted connection leads to a peer that runs
  the receiving loop, the call returns, without failure, and the peer has left its loop with the
  content of the file.\<close>

theorem sendFile_delivers:
  assumes "packet_laws P holds" "length bs < 2 ^ 32" "map_ok (clients srv)"
    and "listener_accept L (listener srv) = (Done, fresh_rpeer, l')"
  shows "\<exists>srv' s. sendFile P (rpeer_api P ip) L \<lparr>in_rest = bs, in_good = True\<rparr> srv = Some (Inr srv') \<and>
    map_find (clients srv') ip = Some (Some s) \<and> rp_done s \<and> out_data (rp_file s) = bs"
  by (rule sendFile_to_rpeer [OF assms])

theorem sendFile_delivers_witness:
  "\<exists>srv' s. sendFile wire_api (rpeer_api wire_api IpAddress_None) (sample_listener fresh_rpeer)
      \<lparr>in_rest = [5, 0, 9], in_good = True\<rparr> sample_server = Some (Inr srv') \<and>
    map_find (clients srv') IpAddress_None = Some (Some s) \<and> out_data (rp_file s) = [5, 0, 9]"
  using sendFile_delivers [OF wire.packet_laws_axioms, of "[5, 0, 9]" sample_server
      "sample_listener fresh_rpeer" "()" IpAddress_None]
  by (auto simp: sample_server_def sample_listener_def)

text \<open>C8 Total correctness of \<open>receiveFile\<close>: on a connection whose other end runs the sending
  loop, the call returns with the whole file written, and the sender has been told.\<close>

theorem receiveFile_delivers:
  assumes "packet_laws P holds" "length bs < 2 ^ 32" "cl_socket c = fresh_speer bs"
  shows "\<exists>c'. receiveFile P (speer_api P ip) \<lparr>out_good = True, out_data = []\<rparr> c =
      Some (Inr (\<lparr>out_good = True, out_data = bs\<rparr>, c')) \<and> sp_pc (cl_socket c') = Sent"
  using sender_socket.receiveFile_from_sender [OF sender_socket_speer [OF assms(1)] assms(2), of c ip] assms(3)
  by auto

theorem receiveFile_delivers_witness:
  "\<exists>c'. receiveFile wire_api (speer_api wire_api IpAddress_None) \<lparr>out_good = True, out_data = []\<rparr>
      \<lparr>cl_socket = fresh_speer [5, 0, 9], cl_todo = []\<rparr> =
    Some (Inr (\<lparr>out_good = True, out_data = [5, 0, 9]\<rparr>, c'))"
  using receiveFile_delivers [OF wire.packet_laws_axioms, of "[5, 0, 9]"
      "\<lparr>cl_socket = fresh_speer [5, 0, 9], cl_todo = []\<rparr>" IpAddress_None]
  by auto

section \<open>The functions without a live peer\<close>

definition dead_api :: "'p packet_api \<Rightarrow> IpAddress \<Rightarrow> ('s, 'p) tcp_api" where
  "dead_api P ip =
     \<lparr>tcp_connect = (\<lambda>_ _ _ s. (Disconnected, s)), tcp_send_raw = (\<lambda>_ s. (Disconnected, s)),
      tcp_receive_raw = (\<lambda>_ s. (Disconnected, [], s)), tcp_send = (\<lambda>_ s. (Disconnected, s)),
      tcp_receive = (\<lambda>s. (Disconnected, packet_new P, s)), tcp_remote = (\<lambda>_. ip)\<rparr>"

text \<open>Once the client of a transfer is gone before its answer to the last chunk arrived, the
  sending loop never ends: a failed receive leaves \<open>pos\<close> below \<open>length\<close>, and nothing else leaves
  the loop.\<close>

theorem sendFile_never_returns:
  assumes "peer_gone T gone" "gone s" "map_ok (clients srv)"
    and "listener_accept L (listener srv) = (Done, s, l')" "stream_length f \<noteq> 0"
  shows "sendFile P T L f srv = None"
proof -
  let ?ip = "tcp_remote T s"
  let ?srv0 = "srv\<lparr>listener := l', clients := map_assign ?ip (Some s) (clients srv)\<rparr>"
  have acc: "Server_accept T L srv = (?ip, ?srv0)"
    using assms(4) by (simp add: Server_accept_def)
  have "send_loop P T ?ip (stream_length f) 0 f ?srv0 = None"
    by (rule send_loop_gone [OF assms(1), where s = s])
      (simp_all add: assms map_ok_assign map_find_assign word_gt_0)
  with acc show ?thesis by (simp add: sendFile_def)
qed

theorem sendFile_never_returns_witness:
  "sendFile wire_api (dead_api wire_api IpAddress_None) (sample_listener ()) \<lparr>in_rest = [1], in_good = True\<rparr>
     sample_server = None"
  by (rule sendFile_never_returns [where gone = "\<lambda>_. True" and s = "()" and l' = "()"])
    (simp_all add: peer_gone_def dead_api_def sample_server_def sample_listener_def stream_length_def)

text \<open>A receiver whose server is gone before the end packet arrived never ends either: a
  \<open>Disconnected\<close> status is only reported on the console and the receive tried again.\<close>

theorem receiveFile_never_returns:
  assumes "peer_gone T gone" "gone (cl_socket c)"
  shows "receiveFile P T f c = None"
  by (simp add: receiveFile_def receive_loop_gone [OF assms])

theorem receiveFile_never_returns_witness:
  "receiveFile wire_api (dead_api wire_api IpAddress_None) \<lparr>out_good = True, out_data = []\<rparr>
     \<lparr>cl_socket = (), cl_todo = []\<rparr> = None"
  by (rule receiveFile_never_returns [where gone = "\<lambda>_. True"])
    (simp_all add: peer_gone_def dead_api_def)

text \<open>When no connection can be accepted, \<open>sendFile\<close> goes on with \<open>IpAddress::None\<close>, for
  which the server has no socket, and calls through a null pointer.\<close>

theorem sendFile_failed_accept:
  assumes "listener_accept L (listener srv) = (status, s, l')" "status \<noteq> Done"
    and "map_find (clients srv) IpAddress_None = None"
  shows "sendFile P T L f srv = Some (Inl Null_dereference)"
proof -
  have acc: "Server_accept T L srv = (IpAddress_None, srv\<lparr>listener := l'\<rparr>)"
    using assms(1,2) by (simp add: Server_accept_def)
  have snd: "Server_send T p IpAddress_None (srv\<lparr>listener := l'\<rparr>) = Inl Null_dereference" for p
    using assms(3) by (simp add: Server_send_def with_client_unknown)
  show ?thesis
  proof (cases "0 < stream_length f")
    case True
    have "send_loop P T IpAddress_None (stream_length f) 0 f (srv\<lparr>listener := l'\<rparr>) =
        Some (Inl Null_dereference)"
      by (subst send_loop.simps) (simp add: True snd split: prod.split)
    then show ?thesis by (simp add: sendFile_def acc)
  next
    case False
    then have "send_loop P T IpAddress_None (stream_length f) 0 f (srv\<lparr>listener := l'\<rparr>) =
        Some (Inr (srv\<lparr>listener := l'\<rparr>))"
      by (subst send_loop.simps) simp
    then show ?thesis by (simp add: sendFile_def acc snd)
  qed
qed

theorem sendFile_failed_accept_witness:
  "sendFile wire_api (dead_api wire_api IpAddress_None)
     \<lparr>listener_listen = (\<lambda>_ l. (Done, l)), listener_accept = (\<lambda>l. (Error, (), l))\<rparr>
     \<lparr>in_rest = [1], in_good = True\<rparr> sample_server = Some (Inl Null_dereference)"
  by (rule sendFile_failed_accept [where status = Error and s = "()" and l' = "()"])
    (simp_all add: sample_server_def)

section \<open>Files that could not be opened\<close>

definition unopened_source :: "'p transfer" where
  "unopened_source = transfer_init \<lparr>in_rest = [], in_good = False\<rparr> \<lparr>out_good = True, out_data = []\<rparr>"

inductive stalled :: "('p \<Rightarrow> field list \<Rightarrow> field list \<Rightarrow> bool) \<Rightarrow> 'p transfer \<Rightarrow> bool" for holds where
  "stalled holds unopened_source"
| "holds packet fs [Uint8 100, Uint32 0, Uint32 (w32 (length ([] :: bytes))), Str []] \<Longrightarrow>
   stalled holds (unopened_source\<lparr>snd_pc := AwaitPos, to_client := [packet]\<rparr>)"
| "holds packet fs [Uint32 0] \<Longrightarrow>
   stalled holds (unopened_source\<lparr>snd_pc := AwaitPos, to_server := [packet]\<rparr>)"

lemma unopened_source_unfold:
  "unopened_source = \<lparr>snd_pc = Chunk, snd_file = \<lparr>in_rest = [], in_good = False\<rparr>, snd_pos = 0,
     snd_length = - 1, to_client = [], to_server = [], rcv_pc = Receiving,
     rcv_file = \<lparr>out_good = True, out_data = []\<rparr>, rcv_pos = 0\<rparr>"
  by (simp add: unopened_source_def transfer_init_def stream_length_def)

context packet_laws
begin

lemma receive_empty_chunk:
  assumes "holds packet fs [Uint8 100, Uint32 0, Uint32 (w32 (length ([] :: bytes))), Str []]"
  shows "receive_packet P packet \<lparr>out_good = True, out_data = []\<rparr> 0 =
    Inr (Some (\<lparr>out_good = True, out_data = []\<rparr>, 0, pos_packet P 0))"
  using receive_chunk [OF assms] by (simp add: of_write_def tellp32_of)

lemma stalled_step:
  assumes "stalled holds t" "transfer_step P t u"
  shows "stalled holds u"
  using assms(1)
proof (cases rule: stalled.cases)
  case 1
  from assms(2) show ?thesis
    by (cases rule: transfer_step.cases)
      (use 1 stalled.intros(2) [where holds = holds, OF holds_chunk [where sp = 0 and c = "[]"]] in
        \<open>auto simp: unopened_source_unfold if_read_def word_gt_0\<close>)
next
  case (2 packet fs)
  from assms(2) show ?thesis
    by (cases rule: transfer_step.cases)
      (use 2 receive_empty_chunk [OF 2(2)] stalled.intros(3) [where holds = holds, OF holds_pos] in
        \<open>auto simp: unopened_source_unfold\<close>)
next
  case (3 packet fs)
  from assms(2) show ?thesis
    by (cases rule: transfer_step.cases)
      (use 3 get_u32_holds [OF 3(2)] stalled.intros(1) [where holds = holds] in
        \<open>auto simp: unopened_source_unfold\<close>)
qed

lemma stalled_goes_on:
  assumes "stalled holds t"
  shows "\<exists>u. transfer_step P t u"
  using assms
proof (cases rule: stalled.cases)
  case 1
  from transfer_step.send_chunk [where P = P, of t "[]" "snd_file t"] 1 show ?thesis
    by (auto simp: unopened_source_unfold if_read_def word_gt_0)
next
  case (2 packet fs)
  from transfer_step.take_packet [where P = P, of t packet "[]"] receive_empty_chunk [OF 2(2)] 2(1) show ?thesis
    by (fastforce simp: unopened_source_unfold)
next
  case (3 packet fs)
  from get_u32_holds [OF 3(2)] obtain p' where "get_u32 P packet = Inr (0, p')" by blast
  from transfer_step.take_pos [OF _ _ this, of t "[]"] 3(1) show ?thesis
    by (auto simp: unopened_source_unfold)
qed

end

sublocale packet_laws \<subseteq>
  unopened: invariant_system "\<lambda>t. t = unopened_source" "transfer_step P" "stalled holds"
  by unfold_locales (auto intro: stalled.intros stalled_step)

context packet_laws
begin

lemma stalled_reached: "(transfer_step P)\<^sup>*\<^sup>* unopened_source t \<Longrightarrow> stalled holds t"
  using unopened.inv_reached by blast

end

text \<open>C35 A file that exists but cannot be opened for reading is never finished: the length is
  \<open>-1\<close> as an unsigned number, every chunk is empty, the receiver stays at position 0, and both
  sides go on for ever without writing a byte.\<close>

theorem unopened_source_livelock:
  assumes "packet_laws P holds" "(transfer_step P)\<^sup>*\<^sup>* unopened_source t"
  shows "(\<exists>u. transfer_step P t u) \<and> snd_pc t \<noteq> Sent \<and> rcv_pc t = Receiving \<and> out_data (rcv_file t) = []"
proof -
  have st: "stalled holds t"
    using packet_laws.stalled_reached [OF assms] .
  then have "snd_pc t \<noteq> Sent \<and> rcv_pc t = Receiving \<and> out_data (rcv_file t) = []"
    by (cases rule: stalled.cases) (simp_all add: unopened_source_unfold)
  with packet_laws.stalled_goes_on [OF assms(1) st] show ?thesis by blast
qed

theorem unopened_source_livelock_witness:
  "\<exists>t. transfer_step wire_api unopened_source t \<and> (\<exists>u. transfer_step wire_api t u)"
proof -
  from unopened_source_livelock [OF wire.packet_laws_axioms, of unopened_source]
  obtain t where t: "transfer_step wire_api unopened_source t" by auto
  from unopened_source_livelock [OF wire.packet_laws_axioms, of t] t show ?thesis by blast
qed

text \<open>A target that could not be opened is reported as received: \<open>tellp\<close> answers \<open>-1\<close>, which
  the server takes for a position past the end, so after one chunk both sides finish, with nothing
  written.\<close>

theorem unopened_target_finishes:
  assumes "packet_laws P holds" "0 < length bs" "length bs < 2 ^ 32"
  shows "\<exists>t. (transfer_step P)\<^sup>*\<^sup>* (transfer_init \<lparr>in_rest = bs, in_good = True\<rparr> \<lparr>out_good = False, out_data = []\<rparr>) t \<and>
    snd_pc t = Sent \<and> rcv_pc t = Received \<and> out_data (rcv_file t) = []"
proof -
  let ?bad = "\<lparr>out_good = False, out_data = []\<rparr>"
  obtain c f where rd: "if_read chunkSize \<lparr>in_rest = bs, in_good = True\<rparr> = (c, f)" by fastforce
  then have len: "length c \<le> 1024" by (auto simp: if_read_def chunkSize_def)
  let ?st = "\<lambda>pc f p cl sv rpc rp. \<lparr>snd_pc = pc, snd_file = f, snd_pos = p, snd_length = w32 (length bs),
    to_client = cl, to_server = sv, rcv_pc = rpc, rcv_file = ?bad, rcv_pos = rp\<rparr>"
  let ?chunk = "packet_arrived P (chunk_packet P 0 c)" and ?fin = "packet_arrived P (end_packet P)"
    and ?pos = "packet_arrived P (pos_packet P (- 1))" and ?last = "packet_arrived P (packet_new P)"
  have pos: "0 < w32 (length bs)"
    using assms(2,3) by (simp add: word_less_nat_alt unat_of_nat)
  have "transfer_step P (?st Chunk \<lparr>in_rest = bs, in_good = True\<rparr> 0 [] [] Receiving 0)
      (?st AwaitPos f 0 [?chunk] [] Receiving 0)"
    using transfer_step.send_chunk [where P = P and t = "?st Chunk \<lparr>in_rest = bs, in_good = True\<rparr> 0 [] [] Receiving 0"]
      rd pos by simp
  moreover have "receive_packet P ?chunk ?bad 0 = Inr (Some (?bad, - 1, pos_packet P (- 1)))"
    using packet_laws.receive_chunk [OF assms(1) packet_laws.holds_chunk [OF assms(1) len] len, of 0 ?bad 0]
    by (simp add: of_write_def tellp32_def of_tellp_def)
  then have "transfer_step P (?st AwaitPos f 0 [?chunk] [] Receiving 0) (?st AwaitPos f 0 [] [?pos] Receiving (- 1))"
    using transfer_step.take_packet [where P = P and t = "?st AwaitPos f 0 [?chunk] [] Receiving 0"] by simp
  moreover obtain p' where "get_u32 P ?pos = Inr (- 1, p')"
    using packet_laws.get_u32_holds [OF assms(1) packet_laws.holds_pos [OF assms(1)]] by blast
  then have "transfer_step P (?st AwaitPos f 0 [] [?pos] Receiving (- 1)) (?st Chunk f (- 1) [] [] Receiving (- 1))"
    using transfer_step.take_pos [where P = P and t = "?st AwaitPos f 0 [] [?pos] Receiving (- 1)"] by simp
  moreover have "transfer_step P (?st Chunk f (- 1) [] [] Receiving (- 1)) (?st AwaitEnd f (- 1) [?fin] [] Receiving (- 1))"
    using transfer_step.send_end [where P = P and t = "?st Chunk f (- 1) [] [] Receiving (- 1)"] by simp
  moreover have "transfer_step P (?st AwaitEnd f (- 1) [?fin] [] Receiving (- 1))
      (?st AwaitEnd f (- 1) [] [?last] Received (- 1))"
    using transfer_step.take_end [where P = P and t = "?st AwaitEnd f (- 1) [?fin] [] Receiving (- 1)"]
      packet_laws.receive_end [OF assms(1) packet_laws.holds_end [OF assms(1)]] by simp
  moreover have "transfer_step P (?st AwaitEnd f (- 1) [] [?last] Received (- 1)) (?st Sent f (- 1) [] [] Received (- 1))"
    using transfer_step.take_last [where P = P and t = "?st AwaitEnd f (- 1) [] [?last] Received (- 1)"] by simp
  ultimately have "(transfer_step P)\<^sup>*\<^sup>* (?st Chunk \<lparr>in_rest = bs, in_good = True\<rparr> 0 [] [] Receiving 0)
      (?st Sent f (- 1) [] [] Received (- 1))"
    by (blast intro: converse_rtranclp_into_rtranclp)
  then show ?thesis
    by (intro exI [of _ "?st Sent f (- 1) [] [] Received (- 1)"])
      (simp add: transfer_init_def stream_length_def)
qed

theorem unopened_target_finishes_witness:
  "\<exists>t. (transfer_step wire_api)\<^sup>*\<^sup>* (transfer_init \<lparr>in_rest = [4], in_good = True\<rparr> \<lparr>out_good = False, out_data = []\<rparr>) t \<and>
    rcv_pc t = Received \<and> out_data (rcv_file t) = []"
  using unopened_target_finishes [OF wire.packet_laws_axioms, of "[4]"] by auto

end
