(* ===== verification/Networking_Claims.thy ===== *)
theory Networking_Claims
  imports Networking
begin

text \<open>
  Properties of the classes of the \<open>Networking Library\<close>: the server's table of clients
  under every sequence of its operations, and what is read of a file.
\<close>

section \<open>The operations of a server as steps\<close>

inductive server_step :: "'p packet_api \<Rightarrow> ('s, 'p) tcp_api \<Rightarrow> ('l, 's) listener_api \<Rightarrow> (bytes \<Rightarrow> IpAddress) \<Rightarrow>
    ('l, 's, 'p) Server \<Rightarrow> ('l, 's, 'p) Server \<Rightarrow> bool" for P T L conv where
  "server_step P T L conv srv (snd (Server_listen L port srv))"
| "server_step P T L conv srv (snd (Server_accept T L srv))"
| "Server_sendString T data dest srv = Inr (b, srv') \<Longrightarrow> server_step P T L conv srv srv'"
| "Server_send T packet dest srv = Inr (b, srv') \<Longrightarrow> server_step P T L conv srv srv'"
| "Server_receiveString T source n srv = Inr (r, srv') \<Longrightarrow> server_step P T L conv srv srv'"
| "Server_receive T source srv = Inr (b, p, srv') \<Longrightarrow> server_step P T L conv srv srv'"
| "Server_handle conv P T srv = Inr (b, srv') \<Longrightarrow> server_step P T L conv srv srv'"

definition server_new :: "('l, 's, 'p) Server \<Rightarrow> bool" where
  "server_new srv \<longleftrightarrow> clients srv = []"

lemma server_ok_send: "server_ok srv \<Longrightarrow> Server_send T packet dest srv = Inr (b, srv') \<Longrightarrow> server_ok srv'"
  by (auto simp: Server_send_def split: sum.splits prod.splits dest: server_ok_with_client)

lemma server_ok_todo: "server_ok (srv\<lparr>srv_todo := q\<rparr>) = server_ok srv"
  by (simp add: server_ok_def)

lemma server_ok_handle: "server_ok srv \<Longrightarrow> Server_handle conv P T srv = Inr (b, srv') \<Longrightarrow> server_ok srv'"
  by (auto simp: Server_handle_def Let_def server_ok_todo split: list.splits sum.splits prod.splits if_splits
      dest: server_ok_send [rotated])

lemma server_ok_step:
  assumes "server_ok srv" "server_step P T L conv srv srv'"
  shows "server_ok srv'"
  using assms(2)
proof (cases rule: server_step.cases)
  case (1 port)
  then show ?thesis using assms(1) by (simp add: Server_listen_def server_ok_def split: prod.split)
next
  case 2
  then show ?thesis using assms(1) server_ok_accept by simp
next
  case (3 data dest b)
  with assms(1) show ?thesis
    by (auto simp: Server_sendString_def split: sum.splits prod.splits dest: server_ok_with_client)
next
  case (4 packet dest b)
  with assms(1) show ?thesis by (blast intro: server_ok_send)
next
  case (5 source n r)
  with assms(1) show ?thesis
    by (auto simp: Server_receiveString_def split: sum.splits prod.splits dest: server_ok_with_client)
next
  case (6 source b p)
  with assms(1) show ?thesis
    by (auto simp: Server_receive_def split: sum.splits prod.splits dest: server_ok_with_client)
next
  case (7 b)
  with assms(1) show ?thesis by (blast intro: server_ok_handle)
qed

interpretation server_system: invariant_system server_new "server_step P T L conv" server_ok for P T L conv
  by unfold_locales (simp add: server_new_def server_ok_def, rule server_ok_step)

lemma send_works_iff:
  assumes "server_ok srv"
  shows "is_ok (Server_send T packet ip srv) \<longleftrightarrow> ip \<in> set (Server_getClientIps srv)"
proof (cases "map_find (clients srv) ip")
  case None
  then show ?thesis
    by (auto simp: Server_send_def with_client_unknown Server_getClientIps_def map_find_None_iff)
next
  case (Some s)
  with assms obtain s' where s': "map_find (clients srv) ip = Some (Some s')"
    by (cases s) (auto simp: server_ok_def)
  then have "ip \<in> fst ` set (clients srv)" by (metis map_find_None_iff option.distinct(1))
  with s' show ?thesis by (simp add: Server_send_def with_client_known Server_getClientIps_def)
qed

section \<open>Properties\<close>

text \<open>C28 After any sequence of operations on a server, \<open>getClientIps\<close> lists addresses in strictly
  rising order, and these are exactly the addresses a packet can be sent to: for any other one
  the call goes through a null pointer.\<close>

theorem server_clients_usable:
  assumes "server_new srv0" "(server_step P T L conv)\<^sup>*\<^sup>* srv0 srv"
  shows "sorted_wrt (<) (Server_getClientIps srv) \<and>
    (is_ok (Server_send T packet ip srv) \<longleftrightarrow> ip \<in> set (Server_getClientIps srv))"
proof -
  have ok: "server_ok srv" using assms by (rule server_system.inv_reached)
  then have "sorted_wrt (<) (Server_getClientIps srv)"
    by (simp add: server_ok_def map_ok_def Server_getClientIps_def)
  with send_works_iff [OF ok] show ?thesis by blast
qed

definition echo_api :: "IpAddress \<Rightarrow> (bytes list, bytes) tcp_api" where
  "echo_api ip =
     \<lparr>tcp_connect = (\<lambda>_ _ _ s. (Done, s)), tcp_send_raw = (\<lambda>_ s. (Done, s)),
      tcp_receive_raw = (\<lambda>_ s. (Done, [], s)), tcp_send = (\<lambda>p s. (Done, s @ [p])),
      tcp_receive = (\<lambda>s. case s of [] \<Rightarrow> (NotReady, [], []) | p # ps \<Rightarrow> (Done, p, ps)), tcp_remote = (\<lambda>_. ip)\<rparr>"

definition echo_listener :: "(unit, bytes list) listener_api" where
  "echo_listener = \<lparr>listener_listen = (\<lambda>_ l. (Done, l)), listener_accept = (\<lambda>l. (Done, [], l))\<rparr>"

definition echo_server :: "(unit, bytes list, bytes) Server" where
  "echo_server = \<lparr>clients = [], srv_todo = [], listener = ()\<rparr>"

theorem server_clients_usable_witness:
  "is_ok (Server_send (echo_api IpAddress_None) [7] IpAddress_None
     (snd (Server_accept (echo_api IpAddress_None) echo_listener echo_server)))"
proof -
  let ?srv = "snd (Server_accept (echo_api IpAddress_None) echo_listener echo_server)"
  have "server_step P (echo_api IpAddress_None) echo_listener conv echo_server ?srv" for P conv
    by (rule server_step.intros(2))
  from server_clients_usable [OF _ r_into_rtranclp [of "server_step _ _ _ _", OF this], of "[7]" IpAddress_None]
  show ?thesis
    by (simp add: server_new_def echo_server_def Server_accept_def echo_listener_def echo_api_def
        Server_getClientIps_def)
qed

text \<open>A send to the address \<open>accept\<close> returned is a send on the socket it accepted: its status is
  the result, its new state is stored, and no other client is touched.\<close>

theorem server_send_after_accept:
  assumes "map_ok (clients srv)" "listener_accept L (listener srv) = (Done, s, l')"
    and "Server_accept T L srv = (ip, srv1)" "tcp_send T packet s = (status, s')"
  shows "ip = tcp_remote T s \<and>
    (\<exists>srv2. Server_send T packet ip srv1 = Inr (status = Done, srv2) \<and>
      map_find (clients srv2) = (map_find (clients srv))(ip \<mapsto> Some s'))"
proof -
  have ip: "ip = tcp_remote T s"
    and srv1: "srv1 = srv\<lparr>listener := l', clients := map_assign ip (Some s) (clients srv)\<rparr>"
    using assms(2,3) by (auto simp: Server_accept_def)
  have known: "map_find (clients srv1) ip = Some (Some s)"
    using assms(1) by (simp add: srv1 map_find_assign)
  show ?thesis
    using assms(1,4) by (intro conjI ip, simp add: Server_send_def with_client_known [OF known])
      (simp add: srv1 map_find_assign map_ok_assign)
qed

theorem server_send_after_accept_witness:
  "\<exists>srv2. Server_send (echo_api IpAddress_None) [7] IpAddress_None
     (snd (Server_accept (echo_api IpAddress_None) echo_listener echo_server)) = Inr (True, srv2) \<and>
     map_find (clients srv2) IpAddress_None = Some (Some [[7]])"
proof -
  let ?r = "Server_accept (echo_api IpAddress_None) echo_listener echo_server"
  have r: "?r = (IpAddress_None, snd ?r)"
    by (simp add: Server_accept_def echo_listener_def echo_api_def echo_server_def)
  from server_send_after_accept [OF _ _ r, where s = "[]" and l' = "()" and packet = "[7]"
      and status = Done and s' = "[[7]]"]
  show ?thesis by (auto simp: echo_server_def echo_listener_def echo_api_def)
qed

text \<open>\<open>getNBytes\<close> returns the bytes of the file from the start position on, at most \<open>n\<close> of
  them, fewer only at the end of the file.\<close>

theorem getNBytes_exact: "Server_getNBytes file startPosition n = take n (drop startPosition file)"
  by (simp add: Server_getNBytes_def get_bytes_take)

end
