(* ===== verification/File_Helper.thy ===== *)
theory File_Helper
  imports File_System
begin

text \<open>
  \<open>FileHelper.cpp\<close>: the helpers for paths, directory listings and file hashes.
  \<open>usr\<close> is what \<open>GetUserName\<close> reports (\<open>None\<close> when the call fails), \<open>fs\<close> the
  file system. Console output is left out.
\<close>

section \<open>Directories and paths\<close>

definition createDirectory :: "fsnode \<Rightarrow> wstring \<Rightarrow> (bool \<times> fsnode) result" where
  "createDirectory fs path = fs_create_directory fs (make_preferred path)"

text \<open>The recursive listing of a directory node whose absolute path is \<open>absPath\<close>.\<close>

fun filepaths_in :: "wstring \<Rightarrow> fsnode \<Rightarrow> wstring list" where
  "filepaths_in absPath (File _) = []"
| "filepaths_in absPath (Dir es) =
     concat (map (\<lambda>e.
       let p = make_preferred (path_append absPath (fst e))
       in case snd e of Dir _ \<Rightarrow> filepaths_in p (snd e) | File _ \<Rightarrow> [p]) es)"

definition getFilepaths :: "fsnode \<Rightarrow> wstring \<Rightarrow> wstring list result" where
  "getFilepaths fs absPath =
     (case node_at fs (resolve absPath) of
        Some (Dir es) \<Rightarrow> Inr (filepaths_in absPath (Dir es))
      | _ \<Rightarrow> Inl Filesystem_error)"

text \<open>\<open>std::size_t\<close> takes the low 32 bits of the stream position.\<close>

definition filesize :: "fsnode \<Rightarrow> wstring \<Rightarrow> u32" where
  "filesize fs absPath =
     (case open_read fs absPath of None \<Rightarrow> 0 | Some bs \<Rightarrow> word_of_nat (length bs))"

definition deleteFile :: "fsnode \<Rightarrow> wstring \<Rightarrow> (bool \<times> fsnode) result" where
  "deleteFile fs absPath = fs_remove fs absPath"

definition getUsername :: "wstring option \<Rightarrow> wstring" where
  "getUsername usr = (case usr of Some name \<Rightarrow> takeWhile (\<lambda>c. c \<noteq> 0) name | None \<Rightarrow> [])"

definition getDocumentsPath :: "wstring option \<Rightarrow> wstring" where
  "getDocumentsPath usr =
     (wide ''C:'' @ [backslash] @ wide ''Users'' @ [backslash]) @ getUsername usr
       @ backslash # wide ''Documents''"

text \<open>Erasing the first \<open>n\<close> characters of a string that has fewer is undefined behaviour.\<close>

definition erase_prefix :: "nat \<Rightarrow> wstring \<Rightarrow> wstring result" where
  "erase_prefix n s = (if n \<le> length s then Inr (drop n s) else Inl Range_error)"

definition getRelativeToDocuments :: "wstring option \<Rightarrow> wstring \<Rightarrow> wstring result" where
  "getRelativeToDocuments usr absPath = erase_prefix (length (getDocumentsPath usr)) absPath"

definition getRelativeTo :: "wstring \<Rightarrow> wstring \<Rightarrow> wstring result" where
  "getRelativeTo absPath relDir = erase_prefix (length relDir) absPath"

text \<open>\<open>acquireDirectories\<close> creates the directories of \<open>p.parent_path()\<close>.\<close>

definition acquireDirectories :: "fsnode \<Rightarrow> wstring \<Rightarrow> (bool \<times> fsnode) result" where
  "acquireDirectories fs absPath = create_dirs fs [] (butlast (resolve (make_preferred absPath))) False"

section \<open>The file hash\<close>

definition multiplands :: "u64 list" where
  "multiplands = [2, 7, 17, 29, 41, 53, 67, 79, 97]"

definition modBase :: u64 where
  "modBase = (- 1) - 1000"

text \<open>A \<open>wchar_t\<close> assigned to a signed \<open>char\<close> keeps its low byte, which is then sign
  extended in the addition.\<close>

definition hash_path_char :: "u64 \<Rightarrow> wchar \<Rightarrow> u64" where
  "hash_path_char hash c = (hash + scast (ucast c :: u8)) mod modBase"

text \<open>One round of the loop over the content: \<open>(int)c * i\<close> is a 32-bit product.\<close>

definition hash_byte :: "nat \<Rightarrow> u64 \<Rightarrow> u8 \<Rightarrow> u64" where
  "hash_byte i hash c = (hash + scast ((scast c :: u32) * word_of_nat i)) mod modBase"

definition next_i :: "nat \<Rightarrow> nat" where
  "next_i i = (if i = length multiplands then 0 else i + 1)"

fun hash_contents :: "bytes \<Rightarrow> nat \<Rightarrow> u64 \<Rightarrow> u64" where
  "hash_contents [] i hash = hash"
| "hash_contents (c # cs) i hash = hash_contents cs (next_i i) (hash_byte i hash c)"

definition getFileHash :: "wstring option \<Rightarrow> fsnode \<Rightarrow> wstring \<Rightarrow> u64 result" where
  "getFileHash usr fs absPath =
     (case getRelativeToDocuments usr absPath of
        Inl e \<Rightarrow> Inl e
      | Inr rel \<Rightarrow>
          let hash = foldl hash_path_char (ucast (filesize fs absPath)) rel
          in Inr (case open_read fs absPath of
                    None \<Rightarrow> hash
                  | Some bs \<Rightarrow> hash_contents (text_mode bs) 0 hash))"

definition filesDiffer :: "wstring option \<Rightarrow> fsnode \<Rightarrow> wstring \<Rightarrow> wstring \<Rightarrow> bool result" where
  "filesDiffer usr fs absPath1 absPath2 =
     (case getFileHash usr fs absPath1 of Inl e \<Rightarrow> Inl e | Inr h1 \<Rightarrow>
      (case getFileHash usr fs absPath2 of Inl e \<Rightarrow> Inl e | Inr h2 \<Rightarrow> Inr (h1 \<noteq> h2)))"

end
