(* ===== verification/File_Hash.thy ===== *)
theory File_Hash
  imports File_Helper
begin

text \<open>
  What \<open>getFileHash\<close> computes. Both loops add a signed amount to the running hash; for
  a text file (characters and bytes below 128) no amount is negative and the total stays
  below the modulus, so the hash is a plain weighted sum, and its blind spots can be read
  off the weights.
\<close>

section \<open>One step\<close>

definition add_mod :: "u64 \<Rightarrow> int \<Rightarrow> u64" where
  "add_mod h d = (h + word_of_int d) mod modBase"

lemma uint_modBase: "uint modBase = 2 ^ 64 - 1001"
  by (simp add: modBase_def)

lemma uint_add_mod:
  assumes "0 \<le> uint h + d" "uint h + d < 2 ^ 64 - 1001"
  shows "uint (add_mod h d) = uint h + d"
proof -
  have "uint (h + word_of_int d) = (uint h + d) mod 2 ^ 64"
    by (simp add: uint_word_ariths uint_word_of_int mod_simps)
  also have "\<dots> = uint h + d" using assms by simp
  finally show ?thesis using assms by (simp add: add_mod_def uint_mod uint_modBase)
qed

lemma hash_path_char_add: "hash_path_char h c = add_mod h (sint (ucast c :: u8))"
  unfolding hash_path_char_def add_mod_def scast_eq ..

lemma sint_u8_bounds: "- 128 \<le> sint (c :: u8)" "sint c < 128"
  using sint_greater_eq [of c] sint_less [of c] by simp_all

lemma sint_small: "- (2 ^ 31) \<le> k \<Longrightarrow> k < 2 ^ 31 \<Longrightarrow> sint (word_of_int k :: u32) = k"
  by (simp add: sint_sbintrunc' signed_take_bit_int_eq_self)

lemma hash_byte_add:
  assumes i: "i \<le> 9"
  shows "hash_byte i h c = add_mod h (sint c * int i)"
proof -
  have p: "(scast c :: u32) * word_of_nat i = word_of_int (sint c * int i)"
    unfolding scast_eq by simp
  have "\<bar>sint c * int i\<bar> \<le> 128 * 9"
    unfolding abs_mult using sint_u8_bounds [of c] i by (intro mult_mono) auto
  then have "sint (word_of_int (sint c * int i) :: u32) = sint c * int i"
    by (intro sint_small) auto
  then have "(scast (word_of_int (sint c * int i) :: u32) :: u64) = word_of_int (sint c * int i)"
    by (simp only: scast_eq)
  then show ?thesis by (simp only: hash_byte_def add_mod_def p)
qed

lemma next_i_le: "i \<le> 9 \<Longrightarrow> next_i i \<le> 9"
  by (simp add: next_i_def multiplands_def)

lemma next_i_mod: "next_i (j mod 10) = Suc j mod 10"
  by (auto simp: next_i_def multiplands_def mod_Suc)

section \<open>The loops as sums\<close>

fun content_deltas :: "nat \<Rightarrow> bytes \<Rightarrow> int list" where
  "content_deltas i [] = []"
| "content_deltas i (c # cs) = (sint c * int i) # content_deltas (next_i i) cs"

lemma foldl_path: "foldl hash_path_char h rel = foldl add_mod h (map (\<lambda>c. sint (ucast c :: u8)) rel)"
  by (induction rel arbitrary: h) (simp_all add: hash_path_char_add)

lemma hash_contents_foldl:
  "i \<le> 9 \<Longrightarrow> hash_contents bs i h = foldl add_mod h (content_deltas i bs)"
  by (induction bs arbitrary: i h) (simp_all add: hash_byte_add next_i_le)

lemma foldl_add_mod_sum:
  "(\<forall>d \<in> set ds. 0 \<le> d) \<Longrightarrow> uint h + sum_list ds < 2 ^ 64 - 1001 \<Longrightarrow>
     uint (foldl add_mod h ds) = uint h + sum_list ds"
proof (induction ds arbitrary: h)
  case (Cons d ds)
  from Cons.prems(1) have nn: "0 \<le> d" "0 \<le> sum_list ds" by (auto intro: sum_list_nonneg)
  with Cons.prems(2) have "uint (add_mod h d) = uint h + d"
    by (intro uint_add_mod) auto
  with Cons show ?case by simp
qed simp

definition ascii_path :: "wstring \<Rightarrow> bool" where
  "ascii_path s \<longleftrightarrow> (\<forall>c \<in> set s. unat c < 128)"

definition ascii_text :: "bytes \<Rightarrow> bool" where
  "ascii_text bs \<longleftrightarrow> (\<forall>b \<in> set bs. unat b < 128)"

text \<open>The sum a text file is hashed to: byte \<open>j\<close> has weight \<open>j mod 10\<close>.\<close>

definition weighted :: "bytes \<Rightarrow> nat" where
  "weighted bs = (\<Sum>j < length bs. (j mod 10) * unat (bs ! j))"

fun weighted_from :: "nat \<Rightarrow> bytes \<Rightarrow> nat" where
  "weighted_from i [] = 0"
| "weighted_from i (b # bs) = i * unat b + weighted_from (next_i i) bs"

lemma weighted_from_mod:
  "weighted_from (k mod 10) bs = (\<Sum>j < length bs. ((k + j) mod 10) * unat (bs ! j))"
proof (induction bs arbitrary: k)
  case (Cons b bs)
  have "weighted_from (k mod 10) (b # bs) = (k mod 10) * unat b + weighted_from (Suc k mod 10) bs"
    by (simp add: next_i_mod)
  also have "\<dots> = (\<Sum>j < length (b # bs). ((k + j) mod 10) * unat ((b # bs) ! j))"
    by (simp only: Cons.IH length_Cons sum.lessThan_Suc_shift) simp
  finally show ?case .
qed simp

lemma weighted_eq: "weighted bs = weighted_from 0 bs"
  using weighted_from_mod [of 0 bs] by (simp add: weighted_def)

lemma sint_eq_unat:
  assumes "unat (b :: u8) < 128"
  shows "sint b = int (unat b)"
proof -
  from assms have "int (unat b) < 128" by linarith
  then have "uint b < 128" by simp
  then have "signed_take_bit 7 (uint b) = uint b"
    by (intro signed_take_bit_int_eq_self) (auto intro: order_trans [OF _ unsigned_greater_eq])
  then show ?thesis by (simp add: sint_uint)
qed

lemma sum_content_deltas:
  "ascii_text bs \<Longrightarrow> sum_list (content_deltas i bs) = int (weighted_from i bs)"
proof (induction bs arbitrary: i)
  case (Cons b bs)
  then have "sint b = int (unat b)" by (intro sint_eq_unat) (simp add: ascii_text_def)
  with Cons show ?case by (simp add: ascii_text_def)
qed simp

lemma content_deltas_nonneg: "ascii_text bs \<Longrightarrow> d \<in> set (content_deltas i bs) \<Longrightarrow> 0 \<le> d"
proof (induction bs arbitrary: i)
  case (Cons b bs)
  then have "0 \<le> sint b * int i" by (simp add: ascii_text_def sint_eq_unat)
  with Cons show ?case by (auto simp: ascii_text_def)
qed simp

lemma weighted_from_bound: "ascii_text bs \<Longrightarrow> i \<le> 9 \<Longrightarrow> weighted_from i bs \<le> 1143 * length bs"
proof (induction bs arbitrary: i)
  case (Cons b bs)
  from Cons.prems have "i * unat b \<le> 9 * 127"
    by (intro mult_mono) (auto simp: ascii_text_def)
  moreover have "weighted_from (next_i i) bs \<le> 1143 * length bs"
    using Cons.prems by (intro Cons.IH) (auto simp: ascii_text_def next_i_le)
  ultimately show ?case by simp
qed simp

lemma sint_ucast_path: "unat c < 128 \<Longrightarrow> sint (ucast c :: u8) = int (unat c)"
  for c :: wchar
  by (subst sint_eq_unat) (simp_all add: unsigned_ucast_eq take_bit_eq_mod)

definition path_sum :: "wstring \<Rightarrow> nat" where
  "path_sum rel = sum_list (map unat rel)"

lemma path_sum_bound: "ascii_path rel \<Longrightarrow> path_sum rel \<le> 127 * length rel"
  unfolding path_sum_def by (induction rel) (auto simp: ascii_path_def)

lemma path_deltas: "ascii_path rel \<Longrightarrow> map (\<lambda>c. sint (ucast c :: u8)) rel = map uint rel"
  by (simp add: ascii_path_def sint_ucast_path)

lemma sum_path_deltas: "sum_list (map uint rel) = int (path_sum rel)"
  by (induction rel) (simp_all add: path_sum_def)

lemma ascii_text_mode: "ascii_text bs \<Longrightarrow> ascii_text (text_mode bs)"
  using set_text_mode by (auto simp: ascii_text_def)

lemma length_text_mode: "length (text_mode bs) \<le> length bs"
  by (induction bs) auto

definition text_hash :: "wstring \<Rightarrow> bytes \<Rightarrow> nat" where
  "text_hash rel bs = length bs + path_sum rel + weighted (text_mode bs)"

lemma text_hash_bound:
  assumes "ascii_path rel" "ascii_text bs" "length bs < 2 ^ 32" "length rel < 2 ^ 32"
  shows "text_hash rel bs < 2 ^ 63"
proof -
  have "weighted (text_mode bs) \<le> 1143 * length (text_mode bs)"
    using assms(2) by (simp add: weighted_eq weighted_from_bound ascii_text_mode)
  with path_sum_bound [OF assms(1)] length_text_mode [of bs] assms(3,4) show ?thesis
    by (simp add: text_hash_def)
qed

lemma getFileHash_text_eq:
  assumes rel: "getRelativeToDocuments usr p = Inr rel" and bs: "open_read fs p = Some bs"
    and asc: "ascii_path rel" "ascii_text bs" and len: "length bs < 2 ^ 32" "length rel < 2 ^ 32"
  shows "getFileHash usr fs p = Inr (word_of_nat (text_hash rel bs))"
proof -
  let ?t = "text_mode bs" and ?h0 = "ucast (filesize fs p) :: u64"
  let ?ds = "map uint rel @ content_deltas 0 ?t"
  have sum: "sum_list ?ds = int (path_sum rel + weighted ?t)"
    using asc by (simp add: sum_content_deltas ascii_text_mode weighted_eq sum_path_deltas)
  have "unat (filesize fs p) = length bs"
    using len by (simp add: filesize_def bs unat_of_nat)
  then have "int (unat (filesize fs p)) = int (length bs)" by (rule arg_cong)
  moreover have "uint ?h0 = uint (filesize fs p)"
    by (rule uint_up_ucast) (simp add: is_up)
  ultimately have h0: "uint ?h0 = int (length bs)" by simp
  have nonneg: "\<forall>d \<in> set ?ds. 0 \<le> d"
    using content_deltas_nonneg [OF ascii_text_mode [OF asc(2)]] by auto
  have hash: "getFileHash usr fs p = Inr (foldl add_mod ?h0 ?ds)"
    using asc by (simp add: getFileHash_def rel bs foldl_path hash_contents_foldl path_deltas)
  have total: "uint ?h0 + sum_list ?ds = int (text_hash rel bs)"
    unfolding sum h0 by (simp add: text_hash_def)
  moreover have "int (text_hash rel bs) < 2 ^ 63"
    using text_hash_bound [OF asc len] by simp
  ultimately have "uint (foldl add_mod ?h0 ?ds) = int (text_hash rel bs)"
    using foldl_add_mod_sum [OF nonneg, of ?h0] by simp
  then have "word_of_int (uint (foldl add_mod ?h0 ?ds)) = (word_of_int (int (text_hash rel bs)) :: u64)"
    by (rule arg_cong)
  then have "foldl add_mod ?h0 ?ds = word_of_nat (text_hash rel bs)"
    by (simp only: word_of_int_uint of_int_of_nat_eq)
  with hash show ?thesis by (simp only:)
qed

section \<open>What the hash does and does not depend on\<close>

lemma getRelativeToDocuments_under [simp]:
  "getRelativeToDocuments usr (getDocumentsPath usr @ rel) = Inr rel"
  by (simp add: getRelativeToDocuments_def erase_prefix_def)

lemma getFileHash_cong:
  assumes "getRelativeToDocuments usr p = getRelativeToDocuments usr' p'"
    and "open_read fs p = open_read fs' p'"
  shows "getFileHash usr fs p = getFileHash usr' fs' p'"
  unfolding getFileHash_def filesize_def assms ..

text \<open>Only the size and the text-mode view of the content enter the hash.\<close>

lemma getFileHash_content_cong:
  assumes "open_read fs p = Some bs" "open_read fs' p = Some bs'"
    and "length bs = length bs'"
    and "\<And>h. hash_contents (text_mode bs) 0 h = hash_contents (text_mode bs') 0 h"
  shows "getFileHash usr fs p = getFileHash usr fs' p"
  using assms by (simp add: getFileHash_def filesize_def split: sum.split)

lemma hash_contents_append:
  "hash_contents (bs @ cs) (k mod 10) h =
     hash_contents cs ((k + length bs) mod 10) (hash_contents bs (k mod 10) h)"
  by (induction bs arbitrary: k h) (simp_all add: next_i_mod)

text \<open>A byte at a position divisible by ten is multiplied by zero.\<close>

lemma hash_contents_tenth:
  assumes "length pre mod 10 = 0"
  shows "hash_contents (pre @ b # post) 0 h = hash_contents (pre @ b' # post) 0 h"
  using hash_contents_append [of pre _ 0 h] assms by (simp add: hash_byte_def)

lemma weighted_split:
  "weighted (pre @ b # post) + (length pre mod 10) * unat b' =
     weighted (pre @ b' # post) + (length pre mod 10) * unat b"
proof -
  have app: "weighted_from (k mod 10) (pre @ c # post) = weighted_from (k mod 10) pre +
      ((k + length pre) mod 10) * unat c + weighted_from (next_i ((k + length pre) mod 10)) post" for k c
    by (induction pre arbitrary: k) (simp_all add: next_i_mod)
  from app [of 0] show ?thesis by (simp add: weighted_eq)
qed

lemma path_sum_append: "path_sum (s @ t) = path_sum s + path_sum t"
  by (simp add: path_sum_def)

lemma word_of_nat_u64_inj:
  "m < 2 ^ 63 \<Longrightarrow> n < 2 ^ 63 \<Longrightarrow> (word_of_nat m :: u64) = word_of_nat n \<longleftrightarrow> m = n"
  by (simp add: word_of_nat_eq_iff take_bit_eq_mod)

definition no_controls :: "bytes \<Rightarrow> bool" where
  "no_controls bs \<longleftrightarrow> 0x1A \<notin> set bs \<and> 0x0D \<notin> set bs"

lemma text_mode_no_controls: "no_controls bs \<Longrightarrow> text_mode bs = bs"
  by (simp add: no_controls_def text_mode_clean)

section \<open>A sample tree\<close>

text \<open>One user \<open>u\<close> whose documents hold a folder \<open>S\<close> with one file \<open>a\<close>.\<close>

definition sample_usr :: "wstring option" where
  "sample_usr = Some (wide ''u'')"

definition sample_fs_for :: "wstring \<Rightarrow> bytes \<Rightarrow> fsnode" where
  "sample_fs_for u bs = Dir [(wide ''C:'', Dir [(wide ''Users'', Dir [(u,
     Dir [(wide ''Documents'', Dir [(wide ''S'', Dir [(wide ''a'', File bs)])])])])])]"

definition sample_fs :: "bytes \<Rightarrow> fsnode" where
  "sample_fs bs = sample_fs_for (wide ''u'') bs"

definition sample_rel :: wstring where
  "sample_rel = backslash # wide ''S'' @ backslash # wide ''a''"

definition sample_path :: wstring where
  "sample_path = getDocumentsPath sample_usr @ sample_rel"

lemma sample_resolve:
  "resolve sample_path = [wide ''C:'', wide ''Users'', wide ''u'', wide ''Documents'', wide ''S'', wide ''a'']"
  by code_simp

lemma sample_open: "open_read (sample_fs bs) sample_path = Some bs"
  by (simp add: open_read_def sample_resolve sample_fs_def sample_fs_for_def wide_def)

lemma sample_relative: "getRelativeToDocuments sample_usr sample_path = Inr sample_rel"
  by (simp add: sample_path_def)

lemma sample_ascii: "ascii_path sample_rel"
  by code_simp

lemma sample_rel_length: "length sample_rel < 2 ^ 32"
  by (simp add: sample_rel_def wide_def)

section \<open>Properties\<close>

text \<open>C24 For a text file (path and content below 128, sizes below 2^32) the hash is the
  file's size, plus the characters of its path relative to the documents folder, plus the
  bytes of its content weighted by their position modulo ten; no step wraps around.\<close>

theorem getFileHash_text:
  assumes "getRelativeToDocuments usr p = Inr rel" "open_read fs p = Some bs"
    and "ascii_path rel" "ascii_text bs" "length bs < 2 ^ 32" "length rel < 2 ^ 32"
  shows "getFileHash usr fs p = Inr (word_of_nat
    (length bs + sum_list (map unat rel) + (\<Sum>j < length (text_mode bs). (j mod 10) * unat (text_mode bs ! j))))"
  using getFileHash_text_eq [OF assms] by (simp add: text_hash_def path_sum_def weighted_def)

theorem getFileHash_text_witness:
  "getFileHash sample_usr (sample_fs [72, 105]) sample_path = Inr (word_of_nat
    (length [72 :: u8, 105] + sum_list (map unat sample_rel) +
     (\<Sum>j < length (text_mode [72, 105]). (j mod 10) * unat (text_mode [72, 105] ! j))))"
  by (rule getFileHash_text [OF sample_relative sample_open sample_ascii _ _ sample_rel_length])
     (simp_all add: ascii_text_def)

text \<open>C39 Changing one byte of a text file, at a position that is not a multiple of ten,
  always changes its hash: the edit is noticed.\<close>

theorem getFileHash_detects_edit:
  assumes "getRelativeToDocuments usr p = Inr rel" "ascii_path rel" "length rel < 2 ^ 32"
    and "open_read fs p = Some (pre @ b # post)" "open_read fs' p = Some (pre @ b' # post)"
    and "ascii_text (pre @ b # post)" "ascii_text (pre @ b' # post)"
    and "no_controls (pre @ b # post)" "no_controls (pre @ b' # post)"
    and "length (pre @ b # post) < 2 ^ 32" "b \<noteq> b'" "length pre mod 10 \<noteq> 0"
  shows "getFileHash usr fs p \<noteq> getFileHash usr fs' p"
proof -
  have len': "length (pre @ b' # post) < 2 ^ 32" using assms(10) by simp
  let ?n = "text_hash rel (pre @ b # post)" and ?n' = "text_hash rel (pre @ b' # post)"
  have "?n + (length pre mod 10) * unat b' = ?n' + (length pre mod 10) * unat b"
    using weighted_split [of pre b post b'] assms(8,9)
    by (simp add: text_hash_def text_mode_no_controls)
  moreover have "unat b \<noteq> unat b'" using assms(11) by (simp add: word_unat_eq_iff)
  ultimately have "?n \<noteq> ?n'" using assms(12) by auto
  then have "(word_of_nat ?n :: u64) \<noteq> word_of_nat ?n'"
    using word_of_nat_u64_inj text_hash_bound [OF assms(2,6,10,3)] text_hash_bound [OF assms(2,7) len' assms(3)]
    by blast
  then show ?thesis
    using getFileHash_text_eq [OF assms(1,4,2,6,10,3)] getFileHash_text_eq [OF assms(1,5,2,7) len' assms(3)]
    by simp
qed

theorem getFileHash_detects_edit_witness:
  "getFileHash sample_usr (sample_fs ([72] @ 105 # [33])) sample_path \<noteq>
   getFileHash sample_usr (sample_fs ([72] @ 111 # [33])) sample_path"
  by (rule getFileHash_detects_edit [OF sample_relative sample_ascii sample_rel_length sample_open sample_open])
     (simp_all add: ascii_text_def no_controls_def)

text \<open>C25 In a file without carriage returns and control-Z bytes, before and after, changing a byte
  whose position is a multiple of ten, the first byte of the file among them, does not change
  the hash. (Text mode, in which the file is read, joins a carriage return with the line feed
  after it and ends at a control-Z.)\<close>

theorem getFileHash_misses_tenth_byte:
  assumes "open_read fs p = Some (pre @ b # post)" "open_read fs' p = Some (pre @ b' # post)"
    and "no_controls (pre @ b # post)" "no_controls (pre @ b' # post)" "length pre mod 10 = 0"
  shows "getFileHash usr fs p = getFileHash usr fs' p"
  using assms(3,4) hash_contents_tenth [OF assms(5)]
  by (intro getFileHash_content_cong [OF assms(1,2)]) (simp_all add: text_mode_no_controls)

theorem getFileHash_misses_tenth_byte_witness:
  "getFileHash sample_usr (sample_fs ([] @ 72 # [105, 33])) sample_path =
   getFileHash sample_usr (sample_fs ([] @ 200 # [105, 33])) sample_path"
  by (rule getFileHash_misses_tenth_byte [OF sample_open sample_open]) (simp_all add: no_controls_def)

text \<open>What follows a control-Z byte is not hashed: two files that agree up to it and have the
  same size have the same hash.\<close>

theorem getFileHash_stops_at_ctrl_z:
  assumes "open_read fs p = Some (pre @ 0x1A # post)" "open_read fs' p = Some (pre @ 0x1A # post')"
    and "0x1A \<notin> set pre" "length post = length post'"
  shows "getFileHash usr fs p = getFileHash usr fs' p"
  using assms(4) text_mode_ctrl_z [OF assms(3), of post] text_mode_ctrl_z [OF assms(3), of post']
  by (intro getFileHash_content_cong [OF assms(1,2)]) simp_all

theorem getFileHash_stops_at_ctrl_z_witness:
  "getFileHash sample_usr (sample_fs ([72] @ 0x1A # [1, 2])) sample_path =
   getFileHash sample_usr (sample_fs ([72] @ 0x1A # [3, 4])) sample_path"
  by (rule getFileHash_stops_at_ctrl_z [OF sample_open sample_open]) simp_all

text \<open>The hash is the same on every node: it depends on the path below the user's documents
  folder and on the content, not on the user's name or on the rest of the disk.\<close>

theorem getFileHash_node_independent:
  assumes "open_read fs (getDocumentsPath usr @ rel) = open_read fs' (getDocumentsPath usr' @ rel)"
  shows "getFileHash usr fs (getDocumentsPath usr @ rel) = getFileHash usr' fs' (getDocumentsPath usr' @ rel)"
  by (rule getFileHash_cong) (simp_all add: assms)

theorem getFileHash_node_independent_witness:
  "getFileHash sample_usr (sample_fs [7, 8]) (getDocumentsPath sample_usr @ sample_rel) =
   getFileHash (Some (wide ''w'')) (sample_fs_for (wide ''w'') [7, 8])
     (getDocumentsPath (Some (wide ''w'')) @ sample_rel)"
proof (rule getFileHash_node_independent)
  have "open_read (sample_fs_for (wide ''w'') [7, 8]) (getDocumentsPath (Some (wide ''w'')) @ sample_rel) =
      Some [7, 8]"
    by code_simp
  then show "open_read (sample_fs [7, 8]) (getDocumentsPath sample_usr @ sample_rel) =
      open_read (sample_fs_for (wide ''w'') [7, 8]) (getDocumentsPath (Some (wide ''w'')) @ sample_rel)"
    using sample_open by (simp add: sample_path_def)
qed

end
