(* ===== verification/Directory_Listing.thy ===== *)
theory Directory_Listing
  imports File_Hash
begin

text \<open>
  \<open>getFilepaths\<close> against the tree: the recursive listing names exactly the files below a
  directory, each once, and every name it returns can be opened.
\<close>

section \<open>Well-formed trees\<close>

fun tree_ok :: "fsnode \<Rightarrow> bool" where
  "tree_ok (File _) = True"
| "tree_ok (Dir es) = (distinct (map fst es) \<and> (\<forall>e \<in> set es. name_ok (fst e) \<and> tree_ok (snd e)))"

text \<open>The files below a node, as lists of names.\<close>

fun file_paths :: "fsnode \<Rightarrow> wstring list list" where
  "file_paths (File _) = [[]]"
| "file_paths (Dir es) = concat (map (\<lambda>e. map ((#) (fst e)) (file_paths (snd e))) es)"

definition join :: "wstring list \<Rightarrow> wstring" where
  "join cs = concat (map (\<lambda>c. backslash # c) cs)"

definition names_ok :: "wstring list \<Rightarrow> bool" where
  "names_ok cs \<longleftrightarrow> (\<forall>c \<in> set cs. name_ok c)"

text \<open>An absolute path as the program builds them: no forward slash, no separator at the end.\<close>

definition dir_path :: "wstring \<Rightarrow> bool" where
  "dir_path d \<longleftrightarrow> d \<noteq> [] \<and> slash \<notin> set d \<and> \<not> is_sep (last d)"

lemma join_simps [simp]: "join [] = []" "join (c # cs) = backslash # c @ join cs"
  by (simp_all add: join_def)

lemma join_append: "join (cs @ ds) = join cs @ join ds"
  by (simp add: join_def)

lemma make_preferred_id: "slash \<notin> set p \<Longrightarrow> make_preferred p = p"
  by (auto simp: make_preferred_def intro!: map_idI)

lemma name_ok_no_slash: "name_ok n \<Longrightarrow> slash \<notin> set n"
  by (auto simp: name_ok_def is_sep_def)

lemma backslash_neq_slash [simp]: "backslash \<noteq> slash" "slash \<noteq> backslash"
  by (simp_all add: backslash_def slash_def)

lemma path_append_dir: "dir_path d \<Longrightarrow> name_ok n \<Longrightarrow>
    make_preferred (path_append d n) = d @ backslash # n \<and> dir_path (d @ backslash # n)"
  using name_ok_no_slash [of n]
  by (auto simp: path_append_def dir_path_def make_preferred_id name_ok_def)

lemma filepaths_in_eq:
  "tree_ok (Dir es) \<Longrightarrow> dir_path d \<Longrightarrow>
     filepaths_in d (Dir es) = map (\<lambda>cs. d @ join cs) (file_paths (Dir es))"
proof (induction d "Dir es" arbitrary: es rule: filepaths_in.induct)
  case (2 d es)
  have "(let p = make_preferred (path_append d (fst e))
         in case snd e of Dir _ \<Rightarrow> filepaths_in p (snd e) | File _ \<Rightarrow> [p]) =
      map (\<lambda>cs. d @ join cs) (map ((#) (fst e)) (file_paths (snd e)))" if e: "e \<in> set es" for e
  proof -
    from "2.prems" e have "name_ok (fst e)" "tree_ok (snd e)" by auto
    with "2.prems"(2) have p: "make_preferred (path_append d (fst e)) = d @ backslash # fst e"
      "dir_path (d @ backslash # fst e)" using path_append_dir by blast+
    show ?thesis
    proof (cases "snd e")
      case (File bs)
      with p show ?thesis by simp
    next
      case (Dir fs)
      with "2.hyps" [OF e refl Dir] p \<open>tree_ok (snd e)\<close> show ?thesis by (simp add: comp_def)
    qed
  qed
  then show ?case by (simp add: map_concat comp_def cong: map_cong)
qed

lemma set_file_paths:
  "tree_ok n \<Longrightarrow> cs \<in> set (file_paths n) \<longleftrightarrow> (\<exists>bs. node_at n cs = Some (File bs))"
proof (induction n arbitrary: cs)
  case (File bs)
  then show ?case by (cases cs) auto
next
  case (Dir es)
  show ?case
  proof (cases cs)
    case Nil
    then show ?thesis by auto
  next
    case (Cons c ds)
    have d: "distinct (map fst es)" using Dir.prems by simp
    have "cs \<in> set (file_paths (Dir es)) \<longleftrightarrow> (\<exists>m. (c, m) \<in> set es \<and> ds \<in> set (file_paths m))"
      by (force simp: Cons)
    also have "\<dots> \<longleftrightarrow> (\<exists>m. (c, m) \<in> set es \<and> (\<exists>bs. node_at m ds = Some (File bs)))"
      using Dir.IH Dir.prems by fastforce
    also have "\<dots> \<longleftrightarrow> (\<exists>m. map_of es c = Some m \<and> (\<exists>bs. node_at m ds = Some (File bs)))"
      using d by (simp add: map_of_eq_Some_iff)
    also have "\<dots> \<longleftrightarrow> (\<exists>bs. node_at (Dir es) cs = Some (File bs))"
      by (auto simp: Cons split: option.splits)
    finally show ?thesis .
  qed
qed

lemma distinct_file_paths: "tree_ok n \<Longrightarrow> distinct (file_paths n)"
proof (induction n)
  case (Dir es)
  then have "\<forall>e \<in> set es. distinct (file_paths (snd e))" by (auto intro: prod.exhaust_sel)
  moreover have "distinct (map fst es)" using Dir.prems by simp
  ultimately show ?case
    by (induction es) (auto simp: distinct_map inj_on_def)
qed simp

lemma names_ok_file_paths: "tree_ok n \<Longrightarrow> cs \<in> set (file_paths n) \<Longrightarrow> names_ok cs"
proof (induction n arbitrary: cs)
  case (Dir es)
  then obtain n m ds where e: "(n, m) \<in> set es" "cs = n # ds" "ds \<in> set (file_paths m)"
    by fastforce
  with Dir.prems have "name_ok n" "tree_ok m" by auto
  with e Dir.IH [of "(n, m)" m ds] show ?case by (simp add: names_ok_def)
qed (simp add: names_ok_def)

lemma components_join: "names_ok cs \<Longrightarrow> components (d @ join cs) = components d @ cs"
proof (induction cs arbitrary: d)
  case (Cons c cs)
  then have c: "name_ok c" "names_ok cs" by (simp_all add: names_ok_def)
  have "components (d @ join (c # cs)) = components ((d @ backslash # c) @ join cs)" by simp
  also have "\<dots> = components (d @ backslash # c) @ cs" by (rule Cons.IH [OF c(2)])
  also have "\<dots> = components d @ c # cs" using c(1) by (simp add: components_append_sep components_name)
  finally show ?case .
qed simp

lemma resolve_join: "names_ok cs \<Longrightarrow> resolve (d @ join cs) = resolve d @ cs"
  by (simp add: resolve_def components_join normalise_append normalise_names names_ok_def)

text \<open>Different lists of names are different strings.\<close>

lemma inj_join: "names_ok cs \<Longrightarrow> names_ok ds \<Longrightarrow> join cs = join ds \<Longrightarrow> cs = ds"
  using components_join [of cs "[]"] components_join [of ds "[]"] by simp

lemma node_at_tree_ok: "tree_ok n \<Longrightarrow> node_at n cs = Some m \<Longrightarrow> tree_ok m"
  by (induction n cs rule: node_at.induct) (auto split: option.splits dest!: map_of_SomeD)

section \<open>Properties\<close>

text \<open>The listing of a directory contains exactly the paths of the files below it, at any
  depth, each once; opening a listed path gives the content of that file.\<close>

theorem getFilepaths_exact:
  assumes "tree_ok fs" "dir_path d" "node_at fs (resolve d) = Some (Dir es)"
  shows "\<exists>ps. getFilepaths fs d = Inr ps \<and> distinct ps \<and>
    set ps = {d @ join cs | cs bs. node_at (Dir es) cs = Some (File bs)} \<and>
    (\<forall>cs bs. node_at (Dir es) cs = Some (File bs) \<longrightarrow> open_read fs (d @ join cs) = Some bs)"
proof -
  from assms(1,3) have ok: "tree_ok (Dir es)" by (rule node_at_tree_ok)
  let ?ps = "map (\<lambda>cs. d @ join cs) (file_paths (Dir es))"
  have "getFilepaths fs d = Inr ?ps"
    using filepaths_in_eq [OF ok assms(2)] assms(3) by (simp add: getFilepaths_def)
  moreover have "distinct ?ps"
    using distinct_file_paths [OF ok] names_ok_file_paths [OF ok] inj_join
    by (auto simp: distinct_map inj_on_def)
  moreover have "set ?ps = {d @ join cs | cs bs. node_at (Dir es) cs = Some (File bs)}"
    using set_file_paths [OF ok] by (simp del: file_paths.simps) blast
  moreover have "open_read fs (d @ join cs) = Some bs" if "node_at (Dir es) cs = Some (File bs)" for cs bs
  proof -
    from that ok have "names_ok cs" using set_file_paths names_ok_file_paths by blast
    then show ?thesis using that assms(3) by (simp add: open_read_def resolve_join node_at_append)
  qed
  ultimately show ?thesis by blast
qed

end
