(* ===== verification/Hash_Table_Packet.thy ===== *)
theory Hash_Table_Packet
  imports Std_Map Wire_Packet
begin

text \<open>
  The packet operators for hash tables at the end of \<open>Node.cpp\<close>. The number of entries
  travels as a \<open>Uint16\<close>, so a table of \<open>65536\<close> files or more is cut off: the
  theorems say exactly what arrives.
\<close>

type_synonym hash_table = "(wstring, u64) std_map"

definition put_hashTable :: "'p packet_api \<Rightarrow> 'p \<Rightarrow> hash_table \<Rightarrow> 'p" where
  "put_hashTable P p table =
     foldl (\<lambda>q (path, hash). packet_insert P (packet_insert P q (Wstr path)) (Uint64 hash))
       (packet_insert P p (Uint16 (word_of_nat (length table)))) table"

text \<open>One iteration of the extraction loop stores one entry.\<close>

fun get_table_entries :: "'p packet_api \<Rightarrow> nat \<Rightarrow> 'p \<Rightarrow> hash_table \<Rightarrow> (hash_table \<times> 'p) result" where
  "get_table_entries P 0 p table = Inr (table, p)"
| "get_table_entries P (Suc n) p table =
     (case get_wstr P p of Inl e \<Rightarrow> Inl e | Inr (path, p1) \<Rightarrow>
      (case get_u64 P p1 of Inl e \<Rightarrow> Inl e | Inr (hash, p2) \<Rightarrow>
        get_table_entries P n p2 (map_assign path hash table)))"

definition get_hashTable :: "'p packet_api \<Rightarrow> 'p \<Rightarrow> hash_table \<Rightarrow> (hash_table \<times> 'p) result" where
  "get_hashTable P p table =
     (case get_u16 P p of Inl e \<Rightarrow> Inl e
      | Inr (n, p1) \<Rightarrow> get_table_entries P (unat n) p1 table)"

section \<open>The fields they write and read\<close>

definition entry_fields :: "wstring \<times> u64 \<Rightarrow> field list" where
  "entry_fields e = [Wstr (fst e), Uint64 (snd e)]"

lemma entry_fields_Pair [simp]: "entry_fields (p, h) = [Wstr p, Uint64 h]"
  by (simp add: entry_fields_def)

definition table_fields :: "hash_table \<Rightarrow> field list" where
  "table_fields t = Uint16 (word_of_nat (length t)) # concat (map entry_fields t)"

definition paths_ok :: "hash_table \<Rightarrow> bool" where
  "paths_ok t \<longleftrightarrow> (\<forall>e \<in> set t. length (fst e) < 2 ^ 32)"

lemma put_hashTable_fields: "put_hashTable P p t = put_all P (table_fields t) p"
proof -
  have "foldl (\<lambda>q (path, hash). packet_insert P (packet_insert P q (Wstr path)) (Uint64 hash)) q t =
      put_all P (concat (map entry_fields t)) q" for q
    by (induction t arbitrary: q) (auto simp: put_all_def entry_fields_def)
  then show ?thesis by (simp add: put_hashTable_def table_fields_def put_all_def)
qed

lemma table_fields_ok: "paths_ok t \<Longrightarrow> list_all field_ok (table_fields t)"
proof -
  have "paths_ok s \<Longrightarrow> list_all field_ok (concat (map entry_fields s))" for s
    by (induction s) (auto simp: paths_ok_def entry_fields_def)
  then show "paths_ok t \<Longrightarrow> ?thesis" by (simp add: table_fields_def)
qed

lemma concat_entry_fields_split:
  "n \<le> length t \<Longrightarrow> concat (map entry_fields t) =
     concat (map entry_fields (take n t)) @ concat (map entry_fields (drop n t))"
  by (metis append_take_drop_id concat_append map_append)

context packet_laws
begin

lemma get_table_entries_holds:
  "holds p fs (concat (map entry_fields t) @ us) \<Longrightarrow>
     \<exists>p'. get_table_entries P (length t) p s =
        Inr (fold (\<lambda>(k, v). map_assign k v) t s, p') \<and> holds p' fs us"
proof (induction t arbitrary: p s)
  case (Cons e t)
  obtain path hash where e: "e = (path, hash)" by force
  from Cons.prems have "holds p fs (Wstr path # Uint64 hash # concat (map entry_fields t) @ us)"
    by (simp add: e)
  from get_wstr_holds [OF this] obtain p1 where 1: "get_wstr P p = Inr (path, p1)"
    "holds p1 fs (Uint64 hash # concat (map entry_fields t) @ us)" by blast
  from get_u64_holds [OF 1(2)] obtain p2 where 2: "get_u64 P p1 = Inr (hash, p2)"
    "holds p2 fs (concat (map entry_fields t) @ us)" by blast
  from Cons.IH [OF 2(2), of "map_assign path hash s"] 1 2(1) e show ?case by simp
qed auto

lemma get_hashTable_holds:
  assumes "holds p fs (table_fields t)"
  shows "\<exists>p'. get_hashTable P p s =
      Inr (fold (\<lambda>(k, v). map_assign k v) (take (length t mod 65536) t) s, p') \<and>
      holds p' fs (concat (map entry_fields (drop (length t mod 65536) t)))"
proof -
  let ?n = "length t mod 65536"
  from assms obtain p1 where 1: "get_u16 P p = Inr (word_of_nat (length t), p1)"
    "holds p1 fs (concat (map entry_fields t))"
    using get_u16_holds by (fastforce simp: table_fields_def)
  have len: "length (take ?n t) = ?n" by simp
  from 1(2) have "holds p1 fs (concat (map entry_fields (take ?n t)) @ concat (map entry_fields (drop ?n t)))"
    by (simp flip: concat_append map_append)
  from get_table_entries_holds [OF this, of s] 1(1) show ?thesis
    by (simp add: get_hashTable_def unat_of_nat len del: length_take)
qed

end

lemma hashTable_arrives:
  assumes "packet_laws P holds" "paths_ok t" "map_ok t"
  shows "\<exists>p'. get_hashTable P (packet_arrived P (put_hashTable P (packet_new P) t)) [] =
      Inr (fold (\<lambda>(k, v). map_assign k v) (take (length t mod 65536) t) [], p')"
  using packet_laws.get_hashTable_holds [OF assms(1), of _ "table_fields t" t "[]"]
    packet_laws.holds_arrived [OF assms(1)]
    packet_laws.holds_built [OF assms(1) table_fields_ok [OF assms(2)]]
  by (fastforce simp: put_hashTable_fields)

lemma map_ok_take: "map_ok t \<Longrightarrow> map_ok (take n t)"
  unfolding map_ok_def by (metis sorted_wrt_take take_map)

section \<open>Properties\<close>

text \<open>C19 A hash table with fewer than 65536 entries arrives unchanged; in general what arrives
  are the first \<open>n mod 65536\<close> of its \<open>n\<close> entries in key order.\<close>

theorem hashTable_roundtrip:
  assumes "packet_laws P holds" "paths_ok t" "map_ok t"
  shows "\<exists>p'. get_hashTable P (packet_arrived P (put_hashTable P (packet_new P) t)) [] =
      Inr (if length t < 65536 then t else take (length t mod 65536) t, p')"
  using hashTable_arrives [OF assms] map_rebuild [OF map_ok_take [OF assms(3)]]
    map_rebuild [OF assms(3)]
  by (cases "length t < 65536") simp_all

theorem hashTable_roundtrip_witness:
  "\<exists>p'. get_hashTable wire_api (packet_arrived wire_api (put_hashTable wire_api (packet_new wire_api)
      [([92, 97], 5), ([92, 98], 6)])) [] =
      Inr (if length [([92, 97] :: wstring, 5 :: u64), ([92, 98], 6)] < 65536
           then [([92, 97], 5), ([92, 98], 6)]
           else take (length [([92, 97] :: wstring, 5 :: u64), ([92, 98], 6)] mod 65536)
              [([92, 97], 5), ([92, 98], 6)], p')"
  by (rule hashTable_roundtrip [OF wire.packet_laws_axioms]) (simp_all add: paths_ok_def map_ok_def)

end
