(* ===== verification/File_Change_Packet.thy ===== *)
theory File_Change_Packet
  imports Wire_Packet
begin

text \<open>
  \<open>fileChangePacket.h\<close> and \<open>fileChangePacket.cpp\<close>: the record of one change of the
  shared directory and the packet operators for one record and for a vector of them.
  On the 32-bit build \<open>vector::size()\<close> is inserted as a \<open>Uint32\<close>, the type the
  extraction reads.
\<close>

section \<open>Data\<close>

datatype fileChangeType = Addition | Deletion | Edit

record fileChangeData =
  filePath :: wstring
  fileHash :: u64
  change :: fileChangeType

definition fileChangeData_equal :: "fileChangeData \<Rightarrow> fileChangeData \<Rightarrow> bool" where
  "fileChangeData_equal this other \<longleftrightarrow>
     filePath this = filePath other \<and> fileHash this = fileHash other \<and> change this = change other"

text \<open>The value of an enumerator, \<open>(sf::Uint8)fileChange.change\<close>.\<close>

fun change_code :: "fileChangeType \<Rightarrow> u8" where
  "change_code Addition = 0"
| "change_code Deletion = 1"
| "change_code Edit = 2"

instantiation fileChangeType :: linorder
begin

definition less_eq_fileChangeType :: "fileChangeType \<Rightarrow> fileChangeType \<Rightarrow> bool" where
  "less_eq_fileChangeType a b \<longleftrightarrow> change_code a \<le> change_code b"

definition less_fileChangeType :: "fileChangeType \<Rightarrow> fileChangeType \<Rightarrow> bool" where
  "less_fileChangeType a b \<longleftrightarrow> change_code a < change_code b"

instance
proof
  fix a b :: fileChangeType
  show "a \<le> b \<Longrightarrow> b \<le> a \<Longrightarrow> a = b"
    by (cases a; cases b) (simp_all add: less_eq_fileChangeType_def word_le_nat_alt)
qed (auto simp: less_eq_fileChangeType_def less_fileChangeType_def)

end

section \<open>Operators\<close>

definition get_fileChangeType :: "'p packet_api \<Rightarrow> 'p \<Rightarrow> (fileChangeType \<times> 'p) result" where
  "get_fileChangeType P p =
     (case get_u8 P p of
        Inl e \<Rightarrow> Inl e
      | Inr (changeEnum, p') \<Rightarrow>
          Inr (if changeEnum = 0 then Addition
               else if changeEnum = 1 then Deletion
               else if changeEnum = 2 then Edit
               else Edit, p'))"

definition put_fileChangeData :: "'p packet_api \<Rightarrow> 'p \<Rightarrow> fileChangeData \<Rightarrow> 'p" where
  "put_fileChangeData P p fc =
     (let p1 = packet_insert P p (Wstr (filePath fc));
          p2 = packet_insert P p1 (Uint64 (fileHash fc))
      in packet_insert P p2 (Uint8 (change_code (change fc))))"

definition get_fileChangeData :: "'p packet_api \<Rightarrow> 'p \<Rightarrow> (fileChangeData \<times> 'p) result" where
  "get_fileChangeData P p =
     (case get_wstr P p of Inl e \<Rightarrow> Inl e | Inr (path, p1) \<Rightarrow>
      (case get_u64 P p1 of Inl e \<Rightarrow> Inl e | Inr (hash, p2) \<Rightarrow>
       (case get_fileChangeType P p2 of Inl e \<Rightarrow> Inl e | Inr (ty, p3) \<Rightarrow>
          Inr (\<lparr>filePath = path, fileHash = hash, change = ty\<rparr>, p3))))"

definition put_fileChanges :: "'p packet_api \<Rightarrow> 'p \<Rightarrow> fileChangeData list \<Rightarrow> 'p" where
  "put_fileChanges P p filesChanged =
     (let p1 = packet_insert P p (Uint8 6);
          p2 = packet_insert P p1 (Uint32 (word_of_nat (length filesChanged)))
      in foldl (put_fileChangeData P) p2 filesChanged)"

text \<open>The extraction loop runs \<open>size\<close> times and pushes each record to the vector.\<close>

fun get_entries :: "'p packet_api \<Rightarrow> nat \<Rightarrow> 'p \<Rightarrow> fileChangeData list \<Rightarrow>
    (fileChangeData list \<times> 'p) result" where
  "get_entries P 0 p v = Inr (v, p)"
| "get_entries P (Suc n) p v =
     (case get_fileChangeData P p of Inl e \<Rightarrow> Inl e
      | Inr (fc, p') \<Rightarrow> get_entries P n p' (v @ [fc]))"

definition get_fileChanges :: "'p packet_api \<Rightarrow> 'p \<Rightarrow> fileChangeData list \<Rightarrow>
    (fileChangeData list \<times> 'p) result" where
  "get_fileChanges P p v =
     (case get_u8 P p of Inl e \<Rightarrow> Inl e | Inr (pid, p1) \<Rightarrow>
      (case get_u32 P p1 of Inl e \<Rightarrow> Inl e | Inr (n, p2) \<Rightarrow>
        get_entries P (unat n) p2 v))"

section \<open>The fields they write and read\<close>

definition change_fields :: "fileChangeData \<Rightarrow> field list" where
  "change_fields fc = [Wstr (filePath fc), Uint64 (fileHash fc), Uint8 (change_code (change fc))]"

definition changes_fields :: "fileChangeData list \<Rightarrow> field list" where
  "changes_fields fcs =
     Uint8 6 # Uint32 (word_of_nat (length fcs)) # concat (map change_fields fcs)"

text \<open>What a packet can carry: paths and vectors whose length fits in 32 bits.\<close>

definition change_ok :: "fileChangeData \<Rightarrow> bool" where
  "change_ok fc \<longleftrightarrow> length (filePath fc) < 2 ^ 32"

definition changes_ok :: "fileChangeData list \<Rightarrow> bool" where
  "changes_ok fcs \<longleftrightarrow> length fcs < 2 ^ 32 \<and> list_all change_ok fcs"

lemma put_fileChangeData_fields: "put_fileChangeData P p fc = put_all P (change_fields fc) p"
  by (simp add: put_fileChangeData_def put_all_def change_fields_def Let_def)

lemma put_fileChanges_fields: "put_fileChanges P p fcs = put_all P (changes_fields fcs) p"
proof -
  have "foldl (put_fileChangeData P) q fcs = put_all P (concat (map change_fields fcs)) q" for q
    by (induction fcs arbitrary: q) (simp_all add: put_all_def put_fileChangeData_fields)
  then show ?thesis by (simp add: put_fileChanges_def changes_fields_def put_all_def Let_def)
qed

lemma change_fields_ok: "change_ok fc \<Longrightarrow> list_all field_ok (change_fields fc)"
  by (simp add: change_ok_def change_fields_def)

lemma changes_fields_ok: "changes_ok fcs \<Longrightarrow> list_all field_ok (changes_fields fcs)"
proof -
  have "list_all change_ok fs \<Longrightarrow> list_all field_ok (concat (map change_fields fs))" for fs
    by (induction fs) (auto simp: change_fields_ok)
  then show "changes_ok fcs \<Longrightarrow> ?thesis" by (simp add: changes_ok_def changes_fields_def)
qed

lemma unat_word_of_nat_u32: "n < 2 ^ 32 \<Longrightarrow> unat (word_of_nat n :: u32) = n"
  by (simp add: unat_of_nat)

context packet_laws
begin

lemma get_fileChangeType_holds:
  assumes "holds p fs (Uint8 (change_code ty) # us)"
  shows "\<exists>p'. get_fileChangeType P p = Inr (ty, p') \<and> holds p' fs us"
proof -
  from get_u8_holds [OF assms] obtain p' where
    "get_u8 P p = Inr (change_code ty, p')" "holds p' fs us" by blast
  then show ?thesis by (cases ty) (auto simp: get_fileChangeType_def)
qed

lemma get_fileChangeData_holds:
  assumes "holds p fs (change_fields fc @ us)"
  shows "\<exists>p'. get_fileChangeData P p = Inr (fc, p') \<and> holds p' fs us"
proof -
  from assms obtain p1 where 1: "get_wstr P p = Inr (filePath fc, p1)"
    "holds p1 fs (Uint64 (fileHash fc) # Uint8 (change_code (change fc)) # us)"
    using get_wstr_holds by (fastforce simp: change_fields_def)
  from get_u64_holds [OF 1(2)] obtain p2 where 2: "get_u64 P p1 = Inr (fileHash fc, p2)"
    "holds p2 fs (Uint8 (change_code (change fc)) # us)" by blast
  from get_fileChangeType_holds [OF 2(2)] obtain p3 where
    "get_fileChangeType P p2 = Inr (change fc, p3)" "holds p3 fs us" by blast
  with 1 2 show ?thesis by (simp add: get_fileChangeData_def)
qed

lemma get_entries_holds:
  "holds p fs (concat (map change_fields fcs) @ us) \<Longrightarrow>
     \<exists>p'. get_entries P (length fcs) p v = Inr (v @ fcs, p') \<and> holds p' fs us"
proof (induction fcs arbitrary: p v)
  case (Cons fc fcs)
  then obtain p1 where "get_fileChangeData P p = Inr (fc, p1)"
    "holds p1 fs (concat (map change_fields fcs) @ us)"
    using get_fileChangeData_holds by fastforce
  with Cons.IH [of p1 "v @ [fc]"] show ?case by auto
qed auto

lemma get_fileChanges_holds:
  assumes "length fcs < 2 ^ 32" "holds p fs (changes_fields fcs @ us)"
  shows "\<exists>p'. get_fileChanges P p v = Inr (v @ fcs, p') \<and> holds p' fs us"
proof -
  from assms(2) obtain p1 where 1: "get_u8 P p = Inr (6, p1)"
    "holds p1 fs (Uint32 (word_of_nat (length fcs)) # concat (map change_fields fcs) @ us)"
    using get_u8_holds by (fastforce simp: changes_fields_def)
  from get_u32_holds [OF 1(2)] obtain p2 where
    2: "get_u32 P p1 = Inr (word_of_nat (length fcs), p2)"
      "holds p2 fs (concat (map change_fields fcs) @ us)" by blast
  from get_entries_holds [OF 2(2)] 1 2(1) assms(1) show ?thesis
    by (simp add: get_fileChanges_def unat_word_of_nat_u32)
qed

text \<open>A vector shorter than its announced size: the loop runs into the end of the packet.\<close>

lemma get_fileChangeData_exhausted: "holds p fs [] \<Longrightarrow> get_fileChangeData P p = Inl Bad_extraction"
  by (simp add: get_fileChangeData_def get_exhausted)

lemma get_entries_short:
  "holds p fs (concat (map change_fields fcs)) \<Longrightarrow> length fcs < n \<Longrightarrow>
     get_entries P n p v = Inl Bad_extraction"
proof (induction fcs arbitrary: p v n)
  case Nil
  then show ?case by (cases n) (auto simp: get_fileChangeData_exhausted)
next
  case (Cons fc fcs)
  then obtain p1 where 1: "get_fileChangeData P p = Inr (fc, p1)"
    "holds p1 fs (concat (map change_fields fcs))"
    using get_fileChangeData_holds by fastforce
  from Cons.prems obtain m where "n = Suc m" "length fcs < m" by (cases n) auto
  with 1 Cons.IH [OF 1(2)] show ?case by simp
qed

end

lemma get_fileChanges_sent:
  assumes "packet_laws P holds" "changes_ok fcs"
  shows "\<exists>p'. get_fileChanges P (packet_arrived P (put_fileChanges P (packet_new P) fcs)) [] =
      Inr (fcs, p') \<and> holds p' (changes_fields fcs) []"
  using packet_laws.get_fileChanges_holds [OF assms(1), of fcs _ "changes_fields fcs" "[]" "[]"]
    packet_laws.holds_arrived [OF assms(1)]
    packet_laws.holds_built [OF assms(1) changes_fields_ok [OF assms(2)]] assms(2)
  by (fastforce simp: put_fileChanges_fields changes_ok_def)

section \<open>Properties\<close>

text \<open>C18 A vector of changes that is written into a packet and sent arrives as the same
  vector, in the same order, with nothing left unread.\<close>

theorem fileChanges_roundtrip:
  assumes "packet_laws P holds" "changes_ok fcs"
  shows "\<exists>p'. get_fileChanges P (packet_arrived P (put_fileChanges P (packet_new P) fcs)) [] =
      Inr (fcs, p') \<and> holds p' (changes_fields fcs) []"
  by (rule get_fileChanges_sent [OF assms])

theorem fileChanges_roundtrip_witness:
  "\<exists>p'. get_fileChanges wire_api (packet_arrived wire_api (put_fileChanges wire_api (packet_new wire_api)
      [\<lparr>filePath = [92, 97], fileHash = 7, change = Edit\<rparr>])) [] =
      Inr ([\<lparr>filePath = [92, 97], fileHash = 7, change = Edit\<rparr>], p') \<and>
      wire_holds p' (changes_fields [\<lparr>filePath = [92, 97], fileHash = 7, change = Edit\<rparr>]) []"
  by (rule fileChanges_roundtrip [OF wire.packet_laws_axioms]) (simp add: changes_ok_def change_ok_def)

end
