(* ===== verification/Directory_Monitor.thy ===== *)
theory Directory_Monitor
  imports Directory_Listing Hash_Table_Packet File_Change_Packet
begin

text \<open>
  \<open>DirectoryMonitor.cpp\<close>: the table of file hashes of a directory, the two comparisons of
  tables and one round of the watching loop. The notification itself is the operating
  system's: a round is given the file system it finds.
\<close>

section \<open>The table of a directory\<close>

fun insert_hashes :: "wstring option \<Rightarrow> fsnode \<Rightarrow> wstring \<Rightarrow> wstring list \<Rightarrow> hash_table \<Rightarrow> hash_table result" where
  "insert_hashes usr fs dirPath [] pathToHash = Inr pathToHash"
| "insert_hashes usr fs dirPath (path # paths) pathToHash =
     (case getRelativeTo path dirPath of Inl e \<Rightarrow> Inl e | Inr rel \<Rightarrow>
      (case getFileHash usr fs path of Inl e \<Rightarrow> Inl e | Inr hash \<Rightarrow>
        insert_hashes usr fs dirPath paths (map_insert rel hash pathToHash)))"

definition CreateFileHashes :: "wstring option \<Rightarrow> fsnode \<Rightarrow> wstring \<Rightarrow> hash_table result" where
  "CreateFileHashes usr fs dirPath =
     (case getFilepaths fs dirPath of Inl e \<Rightarrow> Inl e
      | Inr filepaths \<Rightarrow> insert_hashes usr fs dirPath filepaths [])"

section \<open>Comparing tables\<close>

text \<open>The body of the loop over the newer table. Every \<open>operator[]\<close> is on a key that is
  present, so it inserts nothing (\<open>map_index_present\<close>).\<close>

definition compare_entry :: "hash_table \<Rightarrow> hash_table \<Rightarrow> wstring \<Rightarrow> fileChangeData list" where
  "compare_entry prevDir newDir path =
     (if map_count prevDir path
      then (if fst (map_index 0 path prevDir) \<noteq> fst (map_index 0 path newDir)
            then [\<lparr>filePath = path, fileHash = fst (map_index 0 path newDir), change = Edit\<rparr>]
            else [])
      else [\<lparr>filePath = path, fileHash = fst (map_index 0 path newDir), change = Addition\<rparr>])"

definition deleted_entry :: "hash_table \<Rightarrow> wstring \<Rightarrow> fileChangeData list" where
  "deleted_entry newDir path =
     (if \<not> map_count newDir path then [\<lparr>filePath = path, fileHash = 0, change = Deletion\<rparr>] else [])"

text \<open>\<open>getDirectoryChanges(hostDir, foreignDir)\<close>: no deletions are looked for.\<close>

definition getDirectoryChanges_tables :: "hash_table \<Rightarrow> hash_table \<Rightarrow> fileChangeData list" where
  "getDirectoryChanges_tables hostDir foreignDir =
     concat (map (\<lambda>e. compare_entry hostDir foreignDir (fst e)) foreignDir)"

text \<open>\<open>getDirectoryChanges(lpDir, prevDir)\<close>: also returns the new value of \<open>prevDir\<close>.\<close>

definition getDirectoryChanges :: "wstring option \<Rightarrow> fsnode \<Rightarrow> wstring \<Rightarrow> hash_table \<Rightarrow>
    (fileChangeData list \<times> hash_table) result" where
  "getDirectoryChanges usr fs lpDir prevDir =
     (case CreateFileHashes usr fs lpDir of Inl e \<Rightarrow> Inl e
      | Inr newDir \<Rightarrow>
          Inr (concat (map (\<lambda>e. compare_entry prevDir newDir (fst e)) newDir) @
               concat (map (\<lambda>e. deleted_entry newDir (fst e)) prevDir), newDir))"

section \<open>The watching loop\<close>

text \<open>The thread's own table and the shared buffer, which it extends under \<open>dirLock\<close>.\<close>

record watch_state =
  watchHashes :: hash_table
  fileChangeBuf :: "fileChangeData list"

definition watch_start :: "wstring option \<Rightarrow> fsnode \<Rightarrow> wstring \<Rightarrow> fileChangeData list \<Rightarrow> watch_state result" where
  "watch_start usr fs lpDir buf =
     (case CreateFileHashes usr fs lpDir of Inl e \<Rightarrow> Inl e
      | Inr table \<Rightarrow> Inr \<lparr>watchHashes = table, fileChangeBuf = buf\<rparr>)"

definition watch_round :: "wstring option \<Rightarrow> fsnode \<Rightarrow> wstring \<Rightarrow> watch_state \<Rightarrow> watch_state result" where
  "watch_round usr fs lpDir w =
     (case getDirectoryChanges usr fs lpDir (watchHashes w) of Inl e \<Rightarrow> Inl e
      | Inr (dirChanges, table) \<Rightarrow>
          Inr \<lparr>watchHashes = table, fileChangeBuf = fileChangeBuf w @ dirChanges\<rparr>)"

text \<open>\<open>WatchDirectory\<close> over the file systems its notifications find.\<close>

fun watch_rounds :: "wstring option \<Rightarrow> wstring \<Rightarrow> fsnode list \<Rightarrow> watch_state \<Rightarrow> watch_state result" where
  "watch_rounds usr lpDir [] w = Inr w"
| "watch_rounds usr lpDir (fs # fss) w =
     (case watch_round usr fs lpDir w of Inl e \<Rightarrow> Inl e | Inr w' \<Rightarrow> watch_rounds usr lpDir fss w')"

definition WatchDirectory :: "wstring option \<Rightarrow> wstring \<Rightarrow> fsnode \<Rightarrow> fsnode list \<Rightarrow> watch_state result" where
  "WatchDirectory usr lpDir fs fss =
     (case watch_start usr fs lpDir [] of Inl e \<Rightarrow> Inl e | Inr w \<Rightarrow> watch_rounds usr lpDir fss w)"

text \<open>The lines \<open>printChanges\<close> writes.\<close>

definition change_label :: "fileChangeType \<Rightarrow> wstring" where
  "change_label ty = (case ty of Addition \<Rightarrow> wide '' File Added''
     | Deletion \<Rightarrow> wide '' File Deleted'' | Edit \<Rightarrow> wide '' File Edit'')"

definition printChanges :: "fileChangeData list \<Rightarrow> wstring list" where
  "printChanges fileChanges = map (\<lambda>fc. filePath fc @ change_label (change fc)) fileChanges"

section \<open>What the tables hold\<close>

lemma getRelativeTo_under: "getRelativeTo (d @ s) d = Inr s"
  by (simp add: getRelativeTo_def erase_prefix_def)

text \<open>Paths below the documents folder never make \<open>getFileHash\<close> erase too much.\<close>

definition under_documents :: "wstring option \<Rightarrow> wstring \<Rightarrow> bool" where
  "under_documents usr d \<longleftrightarrow> length (getDocumentsPath usr) \<le> length d"

definition hash_at :: "wstring option \<Rightarrow> fsnode \<Rightarrow> wstring \<Rightarrow> u64" where
  "hash_at usr fs p = (case getFileHash usr fs p of Inl _ \<Rightarrow> 0 | Inr h \<Rightarrow> h)"

lemma getFileHash_under: "under_documents usr d \<Longrightarrow> getFileHash usr fs (d @ s) = Inr (hash_at usr fs (d @ s))"
  by (simp add: under_documents_def hash_at_def getFileHash_def getRelativeToDocuments_def erase_prefix_def Let_def)

lemma insert_hashes_under:
  assumes "under_documents usr d"
  shows "insert_hashes usr fs d (map (\<lambda>cs. d @ join cs) css) m =
     Inr (fold (\<lambda>cs. map_insert (join cs) (hash_at usr fs (d @ join cs))) css m)"
  by (induction css arbitrary: m) (simp_all add: getRelativeTo_under getFileHash_under [OF assms])

lemma map_ok_fold_insert: "map_ok m \<Longrightarrow> map_ok (fold (\<lambda>x. map_insert (f x) (g x)) xs m)"
  by (induction xs arbitrary: m) (auto simp: map_ok_insert)

lemma find_fold_insert:
  "map_ok m \<Longrightarrow> (\<And>x y. x \<in> set xs \<Longrightarrow> y \<in> set xs \<Longrightarrow> f x = f y \<Longrightarrow> g x = g y) \<Longrightarrow>
     map_find (fold (\<lambda>x. map_insert (f x) (g x)) xs m) k = Some v \<longleftrightarrow>
       map_find m k = Some v \<or> (map_find m k = None \<and> (\<exists>x \<in> set xs. f x = k \<and> g x = v))"
proof (induction xs arbitrary: m)
  case (Cons x xs)
  have IH: "map_find (fold (\<lambda>x. map_insert (f x) (g x)) xs m') k = Some v \<longleftrightarrow>
       map_find m' k = Some v \<or> (map_find m' k = None \<and> (\<exists>x \<in> set xs. f x = k \<and> g x = v))"
    if "map_ok m'" for m'
    using Cons.IH [OF that] Cons.prems(2) by auto
  have same: "f y = f x \<Longrightarrow> g y = g x" if "y \<in> set xs" for y
    using Cons.prems(2) [of y x] that by simp
  show ?case
    using IH [OF map_ok_insert [OF Cons.prems(1)], of "f x" "g x"] same
    by (auto simp: map_find_insert [OF Cons.prems(1)] split: if_splits)
qed simp

lemma map_ok_CreateFileHashes: "CreateFileHashes usr fs d = Inr t \<Longrightarrow> map_ok t"
proof -
  have "insert_hashes usr fs d ps m = Inr t \<Longrightarrow> map_ok m \<Longrightarrow> map_ok t" for ps m
    by (induction ps arbitrary: m) (auto simp: map_ok_insert split: sum.splits)
  then show "CreateFileHashes usr fs d = Inr t \<Longrightarrow> ?thesis"
    by (auto simp: CreateFileHashes_def split: sum.splits)
qed

section \<open>What the comparison reports\<close>

definition reports :: "hash_table \<Rightarrow> hash_table \<Rightarrow> fileChangeData \<Rightarrow> bool" where
  "reports prev new fc \<longleftrightarrow>
     (case change fc of
        Addition \<Rightarrow> map_find prev (filePath fc) = None \<and> map_find new (filePath fc) = Some (fileHash fc)
      | Edit \<Rightarrow> (\<exists>h. map_find prev (filePath fc) = Some h \<and> h \<noteq> fileHash fc) \<and>
          map_find new (filePath fc) = Some (fileHash fc)
      | Deletion \<Rightarrow> map_find prev (filePath fc) \<noteq> None \<and> map_find new (filePath fc) = None \<and> fileHash fc = 0)"

lemma compare_entry_eq:
  "map_find new k = Some v \<Longrightarrow> compare_entry prev new k =
     (case map_find prev k of
        None \<Rightarrow> [\<lparr>filePath = k, fileHash = v, change = Addition\<rparr>]
      | Some w \<Rightarrow> if w \<noteq> v then [\<lparr>filePath = k, fileHash = v, change = Edit\<rparr>] else [])"
  by (simp add: compare_entry_def map_index_def map_count_def split: option.split)

lemma compare_entries:
  assumes "map_ok new"
  shows "fc \<in> set (concat (map (\<lambda>e. compare_entry prev new (fst e)) new)) \<longleftrightarrow>
     change fc \<noteq> Deletion \<and> reports prev new fc"
proof -
  have "fc \<in> set (concat (map (\<lambda>e. compare_entry prev new (fst e)) new)) \<longleftrightarrow>
      (\<exists>k v. map_find new k = Some v \<and> fc \<in> set (compare_entry prev new k))"
    using assms by (force simp: map_find_in_set)
  also have "\<dots> \<longleftrightarrow> change fc \<noteq> Deletion \<and> reports prev new fc"
    by (cases fc) (auto simp: compare_entry_eq reports_def split: option.splits fileChangeType.splits if_splits)
  finally show ?thesis .
qed

lemma deleted_entries:
  "fc \<in> set (concat (map (\<lambda>e. deleted_entry new (fst e)) prev)) \<longleftrightarrow>
     change fc = Deletion \<and> reports prev new fc"
proof -
  have "fc \<in> set (concat (map (\<lambda>e. deleted_entry new (fst e)) prev)) \<longleftrightarrow>
      (\<exists>k. map_find prev k \<noteq> None \<and> fc \<in> set (deleted_entry new k))"
    by (force simp: map_find_None_iff)
  also have "\<dots> \<longleftrightarrow> change fc = Deletion \<and> reports prev new fc"
    by (cases fc) (auto simp: deleted_entry_def map_count_def reports_def split: if_splits)
  finally show ?thesis .
qed

lemma distinct_concat_at_most_one:
  "distinct (map f xs) \<Longrightarrow> (\<And>x. x \<in> set xs \<Longrightarrow> g x = [] \<or> (\<exists>y. g x = [y] \<and> h y = f x)) \<Longrightarrow>
     distinct (map h (concat (map g xs)))"
proof (induction xs)
  case (Cons x xs)
  from Cons.prems(1) have d: "distinct (map f xs)" "f x \<notin> f ` set xs" by simp_all
  have IH: "distinct (map h (concat (map g xs)))"
    using Cons.prems(2) by (intro Cons.IH [OF d(1)]) simp
  have "h ` set (g z) \<subseteq> {f z}" if "z \<in> set xs" for z
    using Cons.prems(2) [of z] that by auto
  then have sub: "h ` set (concat (map g xs)) \<subseteq> f ` set xs"
    by (auto simp: image_subset_iff)
  from Cons.prems(2) [of x] consider "g x = []" | y where "g x = [y]" "h y = f x" by auto
  then show ?case
  proof cases
    case 1
    with IH show ?thesis by simp
  next
    case 2
    with sub d(2) have "h y \<notin> h ` set (concat (map g xs))" by auto
    with 2 IH show ?thesis by (simp del: set_concat)
  qed
qed simp

lemma distinct_compare:
  "map_ok new \<Longrightarrow> distinct (map filePath (concat (map (\<lambda>e. compare_entry prev new (fst e)) new)))"
  by (rule distinct_concat_at_most_one [where f = fst])
     (auto simp: map_ok_distinct compare_entry_def)

lemma distinct_deleted:
  "map_ok prev \<Longrightarrow> distinct (map filePath (concat (map (\<lambda>e. deleted_entry new (fst e)) prev)))"
  by (rule distinct_concat_at_most_one [where f = fst])
     (auto simp: map_ok_distinct deleted_entry_def)

lemma distinct_map_append:
  "distinct (map f xs) \<Longrightarrow> distinct (map f ys) \<Longrightarrow> (\<And>x. x \<in> set xs \<Longrightarrow> q (f x)) \<Longrightarrow>
     (\<And>y. y \<in> set ys \<Longrightarrow> \<not> q (f y)) \<Longrightarrow> distinct (map f (xs @ ys))"
  unfolding map_append distinct_append set_map disjoint_iff by (metis imageE)

lemma distinct_changes:
  assumes "map_ok prev" "map_ok new"
  shows "distinct (map filePath (concat (map (\<lambda>e. compare_entry prev new (fst e)) new) @
    concat (map (\<lambda>e. deleted_entry new (fst e)) prev)))"
proof (rule distinct_map_append [where q = "\<lambda>k. map_find new k \<noteq> None"])
  fix fc
  assume "fc \<in> set (concat (map (\<lambda>e. compare_entry prev new (fst e)) new))"
  then show "map_find new (filePath fc) \<noteq> None"
    unfolding compare_entries [OF assms(2)] by (cases "change fc") (auto simp: reports_def)
next
  fix fc
  assume "fc \<in> set (concat (map (\<lambda>e. deleted_entry new (fst e)) prev))"
  then show "\<not> map_find new (filePath fc) \<noteq> None"
    unfolding deleted_entries by (auto simp: reports_def)
qed (rule distinct_compare [OF assms(2)], rule distinct_deleted [OF assms(1)])

section \<open>The entries of a table\<close>

lemma CreateFileHashes_find:
  assumes "tree_ok fs" "dir_path d" "under_documents usr d" "node_at fs (resolve d) = Some (Dir es)"
  shows "\<exists>t. CreateFileHashes usr fs d = Inr t \<and> map_ok t \<and>
    (\<forall>k h. map_find t k = Some h \<longleftrightarrow>
      (\<exists>cs bs. k = join cs \<and> node_at (Dir es) cs = Some (File bs) \<and> getFileHash usr fs (d @ k) = Inr h))"
proof -
  have ok: "tree_ok (Dir es)" using assms(1,4) by (rule node_at_tree_ok)
  let ?t = "fold (\<lambda>cs. map_insert (join cs) (hash_at usr fs (d @ join cs))) (file_paths (Dir es)) []"
  have t: "CreateFileHashes usr fs d = Inr ?t"
    using assms by (simp add: CreateFileHashes_def getFilepaths_def filepaths_in_eq [OF ok assms(2)]
        insert_hashes_under del: file_paths.simps filepaths_in.simps)
  have "map_find ?t k = Some h \<longleftrightarrow>
      (\<exists>cs bs. k = join cs \<and> node_at (Dir es) cs = Some (File bs) \<and> getFileHash usr fs (d @ k) = Inr h)" for k h
    using find_fold_insert [of "[]" "file_paths (Dir es)" join "\<lambda>cs. hash_at usr fs (d @ join cs)" k h]
      set_file_paths [OF ok] getFileHash_under [OF assms(3), of fs]
    by (auto simp del: file_paths.simps)
  with t map_ok_CreateFileHashes [OF t] show ?thesis by blast
qed

section \<open>Properties\<close>

text \<open>C26 The table of a directory has one entry for every file below it and no other: the key is
  the path relative to the directory, the value the file's hash.\<close>

theorem CreateFileHashes_exact:
  assumes "tree_ok fs" "dir_path d" "under_documents usr d" "node_at fs (resolve d) = Some (Dir es)"
  shows "\<exists>t. CreateFileHashes usr fs d = Inr t \<and> map_ok t \<and>
    (\<forall>k h. map_find t k = Some h \<longleftrightarrow>
      (\<exists>cs bs. k = join cs \<and> node_at (Dir es) cs = Some (File bs) \<and> getFileHash usr fs (d @ k) = Inr h))"
  by (rule CreateFileHashes_find [OF assms])

theorem CreateFileHashes_exact_witness:
  "\<exists>t. CreateFileHashes sample_usr (sample_fs [72]) (getDocumentsPath sample_usr) = Inr t \<and> map_ok t \<and>
    (\<forall>k h. map_find t k = Some h \<longleftrightarrow>
      (\<exists>cs bs. k = join cs \<and> node_at (Dir [(wide ''S'', Dir [(wide ''a'', File [72])])]) cs = Some (File bs) \<and>
        getFileHash sample_usr (sample_fs [72]) (getDocumentsPath sample_usr @ k) = Inr h))"
proof (rule CreateFileHashes_exact)
  show "tree_ok (sample_fs [72])" by code_simp
  show "dir_path (getDocumentsPath sample_usr)" by code_simp
  show "node_at (sample_fs [72]) (resolve (getDocumentsPath sample_usr)) =
      Some (Dir [(wide ''S'', Dir [(wide ''a'', File [72])])])" by code_simp
qed (simp add: under_documents_def)

text \<open>C27 A round of the monitor reports exactly the differences between the old and the new table,
  with the right kind and hash, at most one per path, and remembers the new table.\<close>

theorem getDirectoryChanges_exact:
  assumes "CreateFileHashes usr fs d = Inr new" "map_ok prev"
  shows "\<exists>changes. getDirectoryChanges usr fs d prev = Inr (changes, new) \<and>
    (\<forall>fc. fc \<in> set changes \<longleftrightarrow> reports prev new fc) \<and> distinct (map filePath changes)"
  using map_ok_CreateFileHashes [OF assms(1)] distinct_changes [OF assms(2)]
    compare_entries [of new _ prev] deleted_entries [of _ new prev]
  by (auto simp: getDirectoryChanges_def assms(1) simp del: set_concat)

theorem getDirectoryChanges_exact_witness:
  "\<exists>changes. getDirectoryChanges sample_usr (sample_fs [72]) (getDocumentsPath sample_usr) [] =
      Inr (changes, [(sample_rel, hash_at sample_usr (sample_fs [72]) sample_path)]) \<and>
    (\<forall>fc. fc \<in> set changes \<longleftrightarrow>
      reports [] [(sample_rel, hash_at sample_usr (sample_fs [72]) sample_path)] fc) \<and>
    distinct (map filePath changes)"
proof (rule getDirectoryChanges_exact)
  show "CreateFileHashes sample_usr (sample_fs [72]) (getDocumentsPath sample_usr) =
      Inr [(sample_rel, hash_at sample_usr (sample_fs [72]) sample_path)]" by code_simp
qed simp

text \<open>Comparing a host table with a foreign one reports exactly the files the host lacks or has
  with another hash, each with the foreign hash, and never a deletion.\<close>

theorem getDirectoryChanges_tables_exact:
  assumes "map_ok foreign"
  shows "fc \<in> set (getDirectoryChanges_tables host foreign) \<longleftrightarrow>
    map_find foreign (filePath fc) = Some (fileHash fc) \<and>
    (change fc = Addition \<and> map_find host (filePath fc) = None \<or>
     change fc = Edit \<and> (\<exists>h. map_find host (filePath fc) = Some h \<and> h \<noteq> fileHash fc))"
  unfolding getDirectoryChanges_tables_def compare_entries [OF assms] reports_def
  by (cases "change fc") auto

theorem getDirectoryChanges_tables_exact_witness:
  "\<lparr>filePath = [92, 98], fileHash = 6, change = Edit\<rparr>
      \<in> set (getDirectoryChanges_tables [([92, 98], 5)] [([92, 97], 4), ([92, 98], 6)]) \<longleftrightarrow>
    map_find [([92, 97] :: wstring, 4 :: u64), ([92, 98], 6)] [92, 98] = Some 6 \<and>
    (Edit = Addition \<and> map_find [([92, 98] :: wstring, 5 :: u64)] [92, 98] = None \<or>
     Edit = Edit \<and> (\<exists>h. map_find [([92, 98] :: wstring, 5 :: u64)] [92, 98] = Some h \<and> h \<noteq> 6))"
  using getDirectoryChanges_tables_exact [of "[([92, 97], 4), ([92, 98], 6)]"
      "\<lparr>filePath = [92, 98], fileHash = 6, change = Edit\<rparr>" "[([92, 98], 5)]"]
  by (simp add: map_ok_def)

end
