(* ===== verification/Node_Tables.thy ===== *)
theory Node_Tables
  imports Directory_Monitor
begin

text \<open>
  What \<open>Node.cpp\<close> does to hash tables: the constructor fills \<open>fileHashes\<close>, the handler
  replays the buffered changes on it, and \<open>dealWithHashTable\<close> turns a received table
  into the list of changes it requests.
\<close>

section \<open>The constructor\<close>

fun fill_fileHashes :: "wstring option \<Rightarrow> fsnode \<Rightarrow> wstring \<Rightarrow> wstring list \<Rightarrow> hash_table \<Rightarrow> hash_table result" where
  "fill_fileHashes usr fs directory [] fileHashes = Inr fileHashes"
| "fill_fileHashes usr fs directory (path # paths) fileHashes =
     (case getFileHash usr fs path of Inl e \<Rightarrow> Inl e | Inr hash \<Rightarrow>
      (case getRelativeTo path directory of Inl e \<Rightarrow> Inl e | Inr rel \<Rightarrow>
        fill_fileHashes usr fs directory paths (map_assign rel hash fileHashes)))"

definition Node_fileHashes :: "wstring option \<Rightarrow> fsnode \<Rightarrow> wstring \<Rightarrow> hash_table result" where
  "Node_fileHashes usr fs folderPath =
     (case getFilepaths fs folderPath of Inl e \<Rightarrow> Inl e
      | Inr paths \<Rightarrow> fill_fileHashes usr fs folderPath paths [])"

section \<open>Replaying changes\<close>

text \<open>The loop of \<open>handleUdp\<close> over \<open>fileChangeBuf\<close>.\<close>

definition apply_change :: "fileChangeData \<Rightarrow> hash_table \<Rightarrow> hash_table" where
  "apply_change changeData fileHashes =
     (if change changeData \<noteq> Deletion
      then map_assign (filePath changeData) (fileHash changeData) fileHashes
      else (case map_find fileHashes (filePath changeData) of
              Some _ \<Rightarrow> map_erase (filePath changeData) fileHashes
            | None \<Rightarrow> fileHashes))"

definition apply_changes :: "fileChangeData list \<Rightarrow> hash_table \<Rightarrow> hash_table" where
  "apply_changes changes fileHashes = fold apply_change changes fileHashes"

section \<open>The loop that drops unwanted changes\<close>

definition erase_at :: "nat \<Rightarrow> 'a list \<Rightarrow> 'a list" where
  "erase_at i xs = take i xs @ drop (Suc i) xs"

lemma length_erase_at: "i < length xs \<Longrightarrow> length (erase_at i xs) = length xs - 1"
  by (simp add: erase_at_def)

text \<open>The loop of \<open>dealWithHashTable\<close>: it erases at \<open>i\<close> and still increments \<open>i\<close>.\<close>

function prune_changes :: "bool \<Rightarrow> nat \<Rightarrow> fileChangeData list \<Rightarrow> fileChangeData list" where
  "prune_changes ignoreEdits i dirChanges =
     (if i < length dirChanges
      then (case change (dirChanges ! i) of
              Addition \<Rightarrow> prune_changes ignoreEdits (i + 1) dirChanges
            | Edit \<Rightarrow>
                if ignoreEdits then prune_changes ignoreEdits (i + 1) (erase_at i dirChanges)
                else prune_changes ignoreEdits (i + 1) dirChanges
            | Deletion \<Rightarrow> prune_changes ignoreEdits (i + 1) (erase_at i dirChanges))
      else dirChanges)"
  by pat_completeness auto
termination
  by (relation "measure (\<lambda>(ig, i, xs). length xs - i)") (auto simp: length_erase_at)

declare prune_changes.simps [simp del]

text \<open>The changes \<open>dealWithHashTable\<close> goes on to request.\<close>

definition requested_changes :: "hash_table \<Rightarrow> hash_table \<Rightarrow> bool \<Rightarrow> fileChangeData list" where
  "requested_changes fileHashes table ignoreEdits =
     prune_changes ignoreEdits 0 (getDirectoryChanges_tables fileHashes table)"

section \<open>The constructor and the monitor build the same table\<close>

lemma fold_insert_assign:
  "inj_on f (set xs) \<Longrightarrow> distinct xs \<Longrightarrow> (\<forall>x \<in> set xs. map_find m (f x) = None) \<Longrightarrow> map_ok m \<Longrightarrow>
     fold (\<lambda>x. map_insert (f x) (g x)) xs m = fold (\<lambda>x. map_assign (f x) (g x)) xs m"
proof (induction xs arbitrary: m)
  case (Cons x xs)
  then have "map_insert (f x) (g x) m = map_assign (f x) (g x) m"
    by (simp add: map_insert_def map_count_def)
  moreover have "\<forall>y \<in> set xs. map_find (map_assign (f x) (g x) m) (f y) = None"
    using Cons.prems by (auto simp: map_find_assign inj_on_def)
  ultimately show ?case
    using Cons.IH [of "map_assign (f x) (g x) m"] Cons.prems by (simp add: map_ok_assign)
qed simp

lemma fill_fileHashes_under:
  assumes "under_documents usr d"
  shows "fill_fileHashes usr fs d (map (\<lambda>cs. d @ join cs) css) m =
     Inr (fold (\<lambda>cs. map_assign (join cs) (hash_at usr fs (d @ join cs))) css m)"
  by (induction css arbitrary: m) (simp_all add: getRelativeTo_under getFileHash_under [OF assms])

lemma Node_fileHashes_eq:
  assumes "tree_ok fs" "dir_path d" "under_documents usr d" "node_at fs (resolve d) = Some (Dir es)"
  shows "Node_fileHashes usr fs d = CreateFileHashes usr fs d"
proof -
  have ok: "tree_ok (Dir es)" using assms(1,4) by (rule node_at_tree_ok)
  have "inj_on join (set (file_paths (Dir es)))"
    using names_ok_file_paths [OF ok] inj_join by (auto simp: inj_on_def)
  then have "fold (\<lambda>cs. map_insert (join cs) (hash_at usr fs (d @ join cs))) (file_paths (Dir es)) [] =
      fold (\<lambda>cs. map_assign (join cs) (hash_at usr fs (d @ join cs))) (file_paths (Dir es)) []"
    using distinct_file_paths [OF ok] by (intro fold_insert_assign) simp_all
  then show ?thesis
    using assms by (simp add: CreateFileHashes_def Node_fileHashes_def getFilepaths_def
        filepaths_in_eq [OF ok assms(2)] insert_hashes_under fill_fileHashes_under
        del: file_paths.simps filepaths_in.simps)
qed

section \<open>Replay is a list of table updates\<close>

definition as_update :: "fileChangeData \<Rightarrow> wstring \<times> u64 option" where
  "as_update fc = (filePath fc, if change fc = Deletion then None else Some (fileHash fc))"

lemma map_erase_absent: "map_find m k = None \<Longrightarrow> map_erase k m = m"
  by (induction m) (auto split: if_splits)

lemma apply_change_update: "apply_change fc = std_map_table.update1 (as_update fc)"
  by (rule ext) (auto simp: apply_change_def std_map_table.update1_def as_update_def map_erase_absent
      split: option.split)

lemma apply_changes_replay: "apply_changes fcs m = fold std_map_table.update1 (map as_update fcs) m"
  by (simp add: apply_changes_def fold_map comp_def apply_change_update [abs_def])

lemma map_ok_apply_changes: "map_ok m \<Longrightarrow> map_ok (apply_changes fcs m)"
  by (simp add: apply_changes_replay std_map_table.valid_replay)

lemma apply_changes_append: "apply_changes (xs @ ys) m = apply_changes ys (apply_changes xs m)"
  by (simp add: apply_changes_def)

lemma apply_changes_Nil [simp]: "apply_changes [] m = m"
  by (simp add: apply_changes_def)

lemma find_apply_changes:
  assumes "map_ok m" "distinct (map filePath fcs)"
  shows "map_find (apply_changes fcs m) k =
     (case map_of (map as_update fcs) k of None \<Rightarrow> map_find m k | Some w \<Rightarrow> w)"
proof -
  have "map fst (map as_update fcs) = map filePath fcs" by (simp add: as_update_def)
  with assms show ?thesis by (simp only: apply_changes_replay std_map_table.find_replay_distinct)
qed

lemma map_of_as_update:
  "map_of (map as_update fcs) k = Some w \<Longrightarrow>
     \<exists>fc \<in> set fcs. filePath fc = k \<and> w = (if change fc = Deletion then None else Some (fileHash fc))"
  by (induction fcs) (auto simp: as_update_def split: if_splits)

lemma map_of_as_update_None:
  "map_of (map as_update fcs) k = None \<longleftrightarrow> (\<forall>fc \<in> set fcs. filePath fc \<noteq> k)"
  by (induction fcs) (auto simp: as_update_def)

text \<open>A list that reports the differences of two tables, replayed on any table, sets the paths in
  which the two differ to what the new one has, and no others.\<close>

lemma find_apply_reports:
  assumes "map_ok prev" "map_ok new" "map_ok m" "distinct (map filePath fcs)"
    and rep: "\<And>fc. fc \<in> set fcs \<longleftrightarrow> reports prev new fc"
  shows "map_find (apply_changes fcs m) k = (if map_find prev k = map_find new k then map_find m k else map_find new k)"
proof (cases "map_of (map as_update fcs) k")
  case (Some w)
  then obtain fc where fc: "reports prev new fc" "filePath fc = k"
    "w = (if change fc = Deletion then None else Some (fileHash fc))"
    using map_of_as_update rep by blast
  then have "map_find new k = w" "map_find prev k \<noteq> map_find new k"
    by (cases "change fc"; auto simp: reports_def)+
  with Some show ?thesis using assms(3,4) by (simp add: find_apply_changes)
next
  case None
  then have no: "\<not> reports prev new \<lparr>filePath = k, fileHash = h, change = c\<rparr>" for h c
    using rep by (metis None map_of_as_update_None fileChangeData.select_convs(1))
  have "map_find prev k = map_find new k"
    using no [of _ Addition] no [of _ Edit] no [of 0 Deletion]
    by (cases "map_find prev k"; cases "map_find new k") (auto simp: reports_def)
  with None show ?thesis using assms(3,4) by (simp add: find_apply_changes)
qed

lemma apply_changes_reports:
  assumes "map_ok prev" "map_ok new" "distinct (map filePath fcs)"
    and rep: "\<And>fc. fc \<in> set fcs \<longleftrightarrow> reports prev new fc"
  shows "apply_changes fcs prev = new"
proof (rule map_ok_eqI)
  show "map_find (apply_changes fcs prev) = map_find new"
    using find_apply_reports [OF assms(1,2,1,3) rep] by (simp add: fun_eq_iff)
qed (use assms in \<open>simp_all add: map_ok_apply_changes\<close>)

section \<open>What the pruning loop keeps\<close>

text \<open>The entry after an erased one moves into its place and is not looked at.\<close>

definition unwanted :: "bool \<Rightarrow> fileChangeData \<Rightarrow> bool" where
  "unwanted ignoreEdits fc \<longleftrightarrow> change fc = Deletion \<or> (change fc = Edit \<and> ignoreEdits)"

fun survivors :: "bool \<Rightarrow> fileChangeData list \<Rightarrow> fileChangeData list" where
  "survivors ig [] = []"
| "survivors ig [c] = (if unwanted ig c then [] else [c])"
| "survivors ig (c # d # cs) = (if unwanted ig c then d # survivors ig cs else c # survivors ig (d # cs))"

lemma survivors_Cons:
  "survivors ig (c # cs) = (if unwanted ig c then (case cs of [] \<Rightarrow> [] | d # ds \<Rightarrow> d # survivors ig ds)
     else c # survivors ig cs)"
  by (cases cs) auto

lemma prune_changes_survivors:
  "i \<le> length xs \<Longrightarrow> prune_changes ig i xs = take i xs @ survivors ig (drop i xs)"
proof (induction ig i xs rule: prune_changes.induct)
  case (1 ig i xs)
  show ?case
  proof (cases "i < length xs")
    case False
    with "1.prems" show ?thesis by (simp add: prune_changes.simps)
  next
    case True
    then have dr: "drop i xs = xs ! i # drop (Suc i) xs" by (simp add: Cons_nth_drop_Suc)
    show ?thesis
    proof (cases "unwanted ig (xs ! i)")
      case False
      then have "prune_changes ig i xs = prune_changes ig (i + 1) xs"
        using True by (subst prune_changes.simps) (auto simp: unwanted_def split: fileChangeType.split)
      also have "\<dots> = take (i + 1) xs @ survivors ig (drop (i + 1) xs)"
        using "1.IH" True False by (cases "change (xs ! i)") (auto simp: unwanted_def)
      finally show ?thesis
        using True False by (simp add: dr survivors_Cons take_Suc_conv_app_nth)
    next
      case unw: True
      let ?ys = "erase_at i xs"
      have step: "prune_changes ig i xs = prune_changes ig (i + 1) ?ys"
        using True unw by (subst prune_changes.simps) (auto simp: unwanted_def split: fileChangeType.split)
      show ?thesis
      proof (cases "drop (Suc i) xs")
        case Nil
        then have "length xs = Suc i" using True by simp
        then show ?thesis
          using True unw step Nil by (simp add: dr survivors_Cons prune_changes.simps [of _ "Suc i"] erase_at_def)
      next
        case (Cons d ds)
        then have len: "Suc i < length xs" by (metis drop_all linorder_not_less list.distinct(1))
        have "prune_changes ig (i + 1) ?ys = take (i + 1) ?ys @ survivors ig (drop (i + 1) ?ys)"
          using "1.IH" True unw len
          by (cases "change (xs ! i)") (auto simp: unwanted_def length_erase_at)
        moreover have "take (i + 1) ?ys = take i xs @ [d]" "drop (i + 1) ?ys = ds"
          using Cons len by (auto simp: erase_at_def min_def)
        ultimately show ?thesis using step unw Cons by (simp add: dr)
      qed
    qed
  qed
qed

lemma survivors_keep_all: "\<forall>c \<in> set xs. \<not> unwanted ig c \<Longrightarrow> survivors ig xs = xs"
  by (induction ig xs rule: survivors.induct) auto

lemma survivors_sub: "set (survivors ig xs) \<subseteq> set xs"
  by (induction ig xs rule: survivors.induct) auto

lemma survivors_wanted: "filter (\<lambda>c. \<not> unwanted ig c) xs = filter (\<lambda>c. \<not> unwanted ig c) (survivors ig xs)"
  by (induction ig xs rule: survivors.induct) auto

lemma survivors_append_wanted:
  "\<forall>c \<in> set xs. \<not> unwanted ig c \<Longrightarrow> survivors ig (xs @ ys) = xs @ survivors ig ys"
  by (induction xs) (auto simp: survivors_Cons)

text \<open>The loop looks at the entry after a wanted one, whatever came before.\<close>

lemma survivors_append:
  "pre = [] \<or> \<not> unwanted ig (last pre) \<Longrightarrow> survivors ig (pre @ ys) = survivors ig pre @ survivors ig ys"
proof (induction ig pre rule: survivors.induct)
  case (3 ig c d cs)
  then show ?case by (cases cs) (auto simp: survivors_Cons [of _ c])
qed (auto simp: survivors_Cons)

lemma requested_changes_eq:
  "requested_changes host table ig = survivors ig (getDirectoryChanges_tables host table)"
  using prune_changes_survivors [of 0 _ ig] by (simp add: requested_changes_def)

section \<open>Properties\<close>

text \<open>C15 Replaying the changes one round of the monitor reports turns the old table into the new one:
  no difference is lost and none is made up.\<close>

theorem apply_changes_getDirectoryChanges:
  assumes "map_ok prev" "getDirectoryChanges usr fs d prev = Inr (changes, new)"
  shows "apply_changes changes prev = new \<and> CreateFileHashes usr fs d = Inr new"
proof -
  from assms(2) have new: "CreateFileHashes usr fs d = Inr new"
    by (auto simp: getDirectoryChanges_def split: sum.splits)
  then have ok: "map_ok new" by (rule map_ok_CreateFileHashes)
  have ch: "changes = concat (map (\<lambda>e. compare_entry prev new (fst e)) new) @
      concat (map (\<lambda>e. deleted_entry new (fst e)) prev)"
    using assms(2) new by (simp add: getDirectoryChanges_def)
  have "fc \<in> set changes \<longleftrightarrow> reports prev new fc" for fc
    unfolding ch set_append Un_iff compare_entries [OF ok] deleted_entries by auto
  then show ?thesis
    using apply_changes_reports [OF assms(1) ok] distinct_changes [OF assms(1) ok] new
    by (simp add: ch)
qed

theorem apply_changes_getDirectoryChanges_witness:
  "apply_changes [\<lparr>filePath = sample_rel, fileHash = hash_at sample_usr (sample_fs [72]) sample_path, change = Addition\<rparr>,
      \<lparr>filePath = [92, 120], fileHash = 0, change = Deletion\<rparr>] [([92, 120], 9)] =
    [(sample_rel, hash_at sample_usr (sample_fs [72]) sample_path)] \<and>
   CreateFileHashes sample_usr (sample_fs [72]) (getDocumentsPath sample_usr) =
    Inr [(sample_rel, hash_at sample_usr (sample_fs [72]) sample_path)]"
proof (rule apply_changes_getDirectoryChanges)
  show "getDirectoryChanges sample_usr (sample_fs [72]) (getDocumentsPath sample_usr) [([92, 120], 9)] =
    Inr ([\<lparr>filePath = sample_rel, fileHash = hash_at sample_usr (sample_fs [72]) sample_path, change = Addition\<rparr>,
      \<lparr>filePath = [92, 120], fileHash = 0, change = Deletion\<rparr>],
      [(sample_rel, hash_at sample_usr (sample_fs [72]) sample_path)])" by code_simp
qed (simp add: map_ok_def)

text \<open>The node's constructor and the monitor start from the same table.\<close>

theorem Node_fileHashes_monitor:
  assumes "tree_ok fs" "dir_path d" "under_documents usr d" "node_at fs (resolve d) = Some (Dir es)"
  shows "\<exists>t. Node_fileHashes usr fs d = Inr t \<and> CreateFileHashes usr fs d = Inr t"
proof -
  have ok: "tree_ok (Dir es)" using assms(1,4) by (rule node_at_tree_ok)
  have "\<exists>t. CreateFileHashes usr fs d = Inr t"
    using assms by (simp add: CreateFileHashes_def getFilepaths_def filepaths_in_eq [OF ok assms(2)]
        insert_hashes_under del: file_paths.simps filepaths_in.simps)
  with Node_fileHashes_eq [OF assms] show ?thesis by simp
qed

theorem Node_fileHashes_monitor_witness:
  "\<exists>t. Node_fileHashes sample_usr (sample_fs [72]) (getDocumentsPath sample_usr) = Inr t \<and>
    CreateFileHashes sample_usr (sample_fs [72]) (getDocumentsPath sample_usr) = Inr t"
proof (rule Node_fileHashes_monitor)
  show "tree_ok (sample_fs [72])" by code_simp
  show "dir_path (getDocumentsPath sample_usr)" by code_simp
  show "node_at (sample_fs [72]) (resolve (getDocumentsPath sample_usr)) =
      Some (Dir [(wide ''S'', Dir [(wide ''a'', File [72])])])" by code_simp
qed (simp add: under_documents_def)

text \<open>C20 A node that does not ignore edits (one that processes the answer to its arrival) requests
  exactly the files the sender has and it lacks or has with another hash, each once.\<close>

theorem newcomer_requests_all_differences:
  assumes "map_ok table"
  shows "distinct (map filePath (requested_changes host table False)) \<and>
    (\<forall>k h. (\<exists>fc \<in> set (requested_changes host table False). filePath fc = k \<and> fileHash fc = h) \<longleftrightarrow>
       map_find table k = Some h \<and> map_find host k \<noteq> Some h)"
proof -
  have mem: "fc \<in> set (getDirectoryChanges_tables host table) \<longleftrightarrow> change fc \<noteq> Deletion \<and> reports host table fc" for fc
    unfolding getDirectoryChanges_tables_def by (rule compare_entries [OF assms])
  then have "requested_changes host table False = getDirectoryChanges_tables host table"
    by (simp add: requested_changes_eq survivors_keep_all unwanted_def)
  moreover have "(\<exists>fc. (change fc \<noteq> Deletion \<and> reports host table fc) \<and> filePath fc = k \<and> fileHash fc = h) \<longleftrightarrow>
      map_find table k = Some h \<and> map_find host k \<noteq> Some h" (is "?L \<longleftrightarrow> ?R") for k h
  proof
    assume ?R
    then have "reports host table \<lparr>filePath = k, fileHash = h,
        change = (if map_find host k = None then Addition else Edit)\<rparr>"
      by (auto simp: reports_def)
    then show ?L by (intro exI [of _ "\<lparr>filePath = k, fileHash = h,
        change = (if map_find host k = None then Addition else Edit)\<rparr>"]) simp
  next
    assume ?L
    then obtain fc where "change fc \<noteq> Deletion" "reports host table fc" "filePath fc = k" "fileHash fc = h"
      by blast
    then show ?R by (cases "change fc") (auto simp: reports_def)
  qed
  ultimately show ?thesis
    using distinct_compare [OF assms, of host]
    by (simp only: getDirectoryChanges_tables_def [symmetric] Bex_def mem) simp
qed

theorem newcomer_requests_all_differences_witness:
  "distinct (map filePath (requested_changes [([92, 98], 5)] [([92, 97], 4), ([92, 98], 6)] False)) \<and>
    (\<forall>k h. (\<exists>fc \<in> set (requested_changes [([92, 98], 5)] [([92, 97], 4), ([92, 98], 6)] False).
         filePath fc = k \<and> fileHash fc = h) \<longleftrightarrow>
       map_find [([92, 97], 4), ([92, 98], 6)] k = Some h \<and> map_find [([92, 98], 5)] k \<noteq> Some h)"
  by (rule newcomer_requests_all_differences) (simp add: map_ok_def)

text \<open>A node that ignores edits (one that sees an arrival) still requests every file it lacks, and
  what it requests is what the loop's specification \<open>survivors\<close> keeps: an entry that
  follows a dropped one is kept unexamined.\<close>

theorem existing_node_requests:
  "requested_changes host table True = survivors True (getDirectoryChanges_tables host table) \<and>
   filter (\<lambda>fc. change fc = Addition) (requested_changes host table True) =
     filter (\<lambda>fc. change fc = Addition) (getDirectoryChanges_tables host table)"
proof -
  have "(\<lambda>fc. \<not> unwanted True fc) = (\<lambda>fc. change fc = Addition)"
  proof
    fix fc
    show "(\<not> unwanted True fc) = (change fc = Addition)"
      by (cases "change fc") (simp_all add: unwanted_def)
  qed
  with survivors_wanted [of True "getDirectoryChanges_tables host table"] show ?thesis
    by (simp add: requested_changes_eq)
qed

text \<open>C21 The loop does not ignore all edits: where a run of edits begins, at the front of the list or
  after an addition, the first edit is dropped and the second one is requested, whatever stands
  before and after, so the existing node asks for a file it should have kept.\<close>

theorem second_edit_is_requested:
  assumes "getDirectoryChanges_tables host table = before @ edit # edit' # rest"
    and "before = [] \<or> change (last before) = Addition" "change edit = Edit" "change edit' = Edit"
  shows "edit' \<in> set (requested_changes host table True) \<and>
    requested_changes host table True = survivors True before @ edit' # survivors True rest"
  using assms survivors_append [of before True "edit # edit' # rest"] by (auto simp: requested_changes_eq unwanted_def)

theorem second_edit_is_requested_witness:
  "requested_changes [([92, 97], 1), ([92, 98], 2)] [([92, 97], 3), ([92, 98], 4)] True =
    [\<lparr>filePath = [92, 98], fileHash = 4, change = Edit\<rparr>]"
proof -
  have "getDirectoryChanges_tables [([92, 97], 1), ([92, 98], 2)] [([92, 97], 3), ([92, 98], 4)] =
      [] @ \<lparr>filePath = [92, 97], fileHash = 3, change = Edit\<rparr> # \<lparr>filePath = [92, 98], fileHash = 4, change = Edit\<rparr> # []"
    by code_simp
  from second_edit_is_requested [OF this] show ?thesis by simp
qed

end
