(* ===== verification/Table_Sync.thy ===== *)
theory Table_Sync
  imports Node_Tables
begin

text \<open>
  The monitor thread and the handler thread on the shared change buffer. Both work on it
  only while they hold \<open>dirLock\<close>, so a run is a sequence of whole rounds: a round of the
  monitor on the file system a notification finds, and the first part of \<open>handleUdp\<close>,
  which replays the buffer on the node's table, broadcasts it and clears it.
\<close>

text \<open>The first block of \<open>handleUdp\<close> under the lock: the new table, the new buffer and the
  vector that is broadcast, if any.\<close>

definition flush_fileChangeBuf :: "hash_table \<Rightarrow> fileChangeData list \<Rightarrow>
    hash_table \<times> fileChangeData list \<times> fileChangeData list option" where
  "flush_fileChangeBuf fileHashes buf =
     (if buf \<noteq> [] then (apply_changes buf fileHashes, [], Some buf) else (fileHashes, buf, None))"

record sync_state =
  nodeHashes :: hash_table
  watcher :: watch_state
  sent :: "fileChangeData list list"

definition flush :: "sync_state \<Rightarrow> sync_state" where
  "flush s =
     (let (table, buf, out) = flush_fileChangeBuf (nodeHashes s) (fileChangeBuf (watcher s))
      in s\<lparr>nodeHashes := table, watcher := (watcher s)\<lparr>fileChangeBuf := buf\<rparr>,
           sent := sent s @ (case out of None \<Rightarrow> [] | Some v \<Rightarrow> [v])\<rparr>)"

inductive sync_step :: "wstring option \<Rightarrow> wstring \<Rightarrow> sync_state \<Rightarrow> sync_state \<Rightarrow> bool"
  for usr d where
  notified: "watch_round usr fs d (watcher s) = Inr w \<Longrightarrow> sync_step usr d s (s\<lparr>watcher := w\<rparr>)"
| handled: "sync_step usr d s (flush s)"

inductive_cases sync_stepE: "sync_step usr d s t"

definition sync_start :: "hash_table \<Rightarrow> sync_state \<Rightarrow> bool" where
  "sync_start t0 s \<longleftrightarrow> map_ok t0 \<and>
     s = \<lparr>nodeHashes = t0, watcher = \<lparr>watchHashes = t0, fileChangeBuf = []\<rparr>, sent = []\<rparr>"

definition sync_inv :: "hash_table \<Rightarrow> sync_state \<Rightarrow> bool" where
  "sync_inv t0 s \<longleftrightarrow>
     map_ok (nodeHashes s) \<and> map_ok (watchHashes (watcher s)) \<and>
     apply_changes (fileChangeBuf (watcher s)) (nodeHashes s) = watchHashes (watcher s) \<and>
     apply_changes (concat (sent s)) t0 = nodeHashes s"

text \<open>What a round of the monitor appends to the buffer reports the differences of its two tables.\<close>

lemma watch_round_reports:
  assumes "map_ok (watchHashes w)" "watch_round usr fs d w = Inr w'"
  shows "CreateFileHashes usr fs d = Inr (watchHashes w')"
    "\<exists>ch. fileChangeBuf w' = fileChangeBuf w @ ch \<and> distinct (map filePath ch) \<and>
       (\<forall>fc. fc \<in> set ch \<longleftrightarrow> reports (watchHashes w) (watchHashes w') fc)"
proof -
  from assms(2) obtain ch new where ch: "getDirectoryChanges usr fs d (watchHashes w) = Inr (ch, new)"
    "w' = \<lparr>watchHashes = new, fileChangeBuf = fileChangeBuf w @ ch\<rparr>"
    by (auto simp: watch_round_def split: sum.splits)
  from ch(1) obtain new' where "CreateFileHashes usr fs d = Inr new'" "new = new'"
    by (auto simp: getDirectoryChanges_def split: sum.splits)
  then have cr: "CreateFileHashes usr fs d = Inr new" by simp
  with ch(2) show "CreateFileHashes usr fs d = Inr (watchHashes w')" by simp
  have ok: "map_ok new" using cr by (rule map_ok_CreateFileHashes)
  have eq: "ch = concat (map (\<lambda>e. compare_entry (watchHashes w) new (fst e)) new) @
      concat (map (\<lambda>e. deleted_entry new (fst e)) (watchHashes w))"
    using ch(1) cr by (simp add: getDirectoryChanges_def)
  have "fc \<in> set ch \<longleftrightarrow> reports (watchHashes w) new fc" for fc
    unfolding eq set_append Un_iff compare_entries [OF ok] deleted_entries by auto
  with distinct_changes [OF assms(1) ok] ch(2) show
    "\<exists>ch. fileChangeBuf w' = fileChangeBuf w @ ch \<and> distinct (map filePath ch) \<and>
       (\<forall>fc. fc \<in> set ch \<longleftrightarrow> reports (watchHashes w) (watchHashes w') fc)" by (simp add: eq)
qed

lemma watch_round_inv:
  assumes "map_ok (watchHashes w)" "watch_round usr fs d w = Inr w'"
  shows "map_ok (watchHashes w')" "CreateFileHashes usr fs d = Inr (watchHashes w')"
    "\<exists>ch. fileChangeBuf w' = fileChangeBuf w @ ch \<and> apply_changes ch (watchHashes w) = watchHashes w'"
proof -
  show cr: "CreateFileHashes usr fs d = Inr (watchHashes w')" using watch_round_reports(1) [OF assms] .
  then show ok: "map_ok (watchHashes w')" by (rule map_ok_CreateFileHashes)
  from watch_round_reports(2) [OF assms] obtain ch where "fileChangeBuf w' = fileChangeBuf w @ ch"
    "distinct (map filePath ch)" "\<And>fc. fc \<in> set ch \<longleftrightarrow> reports (watchHashes w) (watchHashes w') fc" by blast
  then show "\<exists>ch. fileChangeBuf w' = fileChangeBuf w @ ch \<and> apply_changes ch (watchHashes w) = watchHashes w'"
    using apply_changes_reports [OF assms(1) ok] by blast
qed

lemma flush_inv: "sync_inv t0 s \<Longrightarrow> sync_inv t0 (flush s) \<and>
    nodeHashes (flush s) = watchHashes (watcher s) \<and> watchHashes (watcher (flush s)) = watchHashes (watcher s)"
  by (auto simp: sync_inv_def flush_def flush_fileChangeBuf_def apply_changes_append map_ok_apply_changes)

interpretation table_sync: invariant_system "sync_start t0" "sync_step usr d" "sync_inv t0" for t0 usr d
proof unfold_locales
  fix s
  assume "sync_start t0 s"
  then show "sync_inv t0 s" by (simp add: sync_start_def sync_inv_def)
next
  fix s t
  assume inv: "sync_inv t0 s" and st: "sync_step usr d s t"
  from st show "sync_inv t0 t"
  proof (cases rule: sync_step.cases)
    case (notified fs w)
    then show ?thesis
      using inv watch_round_inv [of "watcher s" usr fs d w]
      by (auto simp: sync_inv_def apply_changes_append)
  next
    case handled
    with inv flush_inv show ?thesis by blast
  qed
qed

section \<open>Properties\<close>

text \<open>C16 However the rounds of the monitor and of the handler alternate, no change is lost between
  them: replaying the buffer on the node's table always gives the monitor's table, and
  replaying everything that was broadcast on the initial table gives the node's.\<close>

theorem monitor_and_handler_agree:
  assumes "sync_start t0 s0" "(sync_step usr d)\<^sup>*\<^sup>* s0 s"
  shows "apply_changes (fileChangeBuf (watcher s)) (nodeHashes s) = watchHashes (watcher s) \<and>
    apply_changes (concat (sent s)) t0 = nodeHashes s"
  using table_sync.inv_reached [OF assms] by (simp add: sync_inv_def)

definition sample_start :: sync_state where
  "sample_start = \<lparr>nodeHashes = [([92, 120], 9)],
     watcher = \<lparr>watchHashes = [([92, 120], 9)], fileChangeBuf = []\<rparr>, sent = []\<rparr>"

definition sample_noticed :: sync_state where
  "sample_noticed = sample_start\<lparr>watcher :=
     \<lparr>watchHashes = [(sample_rel, hash_at sample_usr (sample_fs [72]) sample_path)],
      fileChangeBuf = [\<lparr>filePath = sample_rel,
          fileHash = hash_at sample_usr (sample_fs [72]) sample_path, change = Addition\<rparr>,
        \<lparr>filePath = [92, 120], fileHash = 0, change = Deletion\<rparr>]\<rparr>\<rparr>"

lemma sample_round:
  "watch_round sample_usr (sample_fs [72]) (getDocumentsPath sample_usr) (watcher sample_start) =
     Inr (watcher sample_noticed)"
  by code_simp

lemma sample_sync_start: "sync_start [([92, 120], 9)] sample_start"
  by (simp add: sync_start_def sample_start_def map_ok_def)

lemma sample_sync_step: "sync_step sample_usr (getDocumentsPath sample_usr) sample_start sample_noticed"
  using sync_step.notified [OF sample_round] by (simp add: sample_noticed_def)

theorem monitor_and_handler_agree_witness:
  "apply_changes (fileChangeBuf (watcher sample_noticed)) (nodeHashes sample_noticed) =
     watchHashes (watcher sample_noticed) \<and>
   apply_changes (concat (sent sample_noticed)) [([92, 120], 9)] = nodeHashes sample_noticed"
  using monitor_and_handler_agree [OF sample_sync_start r_into_rtranclp [of "sync_step _ _", OF sample_sync_step]] .

text \<open>Once the monitor has seen a file system and the handler has run, the node's table is the
  table of that file system.\<close>

theorem node_catches_up:
  assumes "sync_start t0 s0" "(sync_step usr d)\<^sup>*\<^sup>* s0 s" "watch_round usr fs d (watcher s) = Inr w"
  shows "CreateFileHashes usr fs d = Inr (nodeHashes (flush (s\<lparr>watcher := w\<rparr>)))"
proof -
  have inv: "sync_inv t0 s" using assms(1,2) by (rule table_sync.inv_reached)
  then have "sync_inv t0 (s\<lparr>watcher := w\<rparr>)"
    using sync_step.notified [OF assms(3)] table_sync.inv_step by blast
  then have "nodeHashes (flush (s\<lparr>watcher := w\<rparr>)) = watchHashes w"
    using flush_inv by fastforce
  moreover have "CreateFileHashes usr fs d = Inr (watchHashes w)"
    using inv watch_round_inv(2) [OF _ assms(3)] by (simp add: sync_inv_def)
  ultimately show ?thesis by simp
qed

theorem node_catches_up_witness:
  "CreateFileHashes sample_usr (sample_fs [72]) (getDocumentsPath sample_usr) =
     Inr (nodeHashes (flush (sample_start\<lparr>watcher := watcher sample_noticed\<rparr>)))"
  by (rule node_catches_up [OF sample_sync_start rtranclp.rtrancl_refl sample_round])

end
