(* ===== verification/Node.thy ===== *)
theory Node
  imports Table_Sync File_Transfer Hash_Table_Packet
begin

text \<open>
  The class \<open>Node\<close>: its members, and its functions as functions on the state of one
  computer. A function that may wait for ever returns a \<open>run\<close>. The sections follow
  \<open>Node.cpp\<close>; \<open>sendFile\<close> and \<open>receiveFile\<close> are in File\_Transfer, the packet operators in
  Hash\_Table\_Packet, the replay of changes and the pruning loop in Node\_Tables and
  Table\_Sync. Console output is left out.
\<close>

section \<open>State\<close>

record 'p UdpMessage =
  msg_packet :: 'p
  msg_ip :: IpAddress
  msg_port :: u16

record ('u, 's, 'l, 'p) Node =
  tcpServer :: "('l, 's, 'p) Server"
  tcpClient :: "('s, 'p) Client"
  udp :: 'u
  udpPort :: u16
  directory :: wstring
  todoUdp :: "'p UdpMessage list"
  fileHashes :: hash_table
  tableManagerMessage :: "'p UdpMessage option"
  receivedTable :: bool

text \<open>A computer: the node with the global \<open>fileChangeBuf\<close> and \<open>dirLock\<close>, the file system
  and the number of UDP sockets opened so far.\<close>

record ('u, 's, 'l, 'p) machine = "('u, 's, 'l, 'p) Node" +
  disk :: fsnode
  changeBuf :: "fileChangeData list"
  dirLocked :: bool
  opened :: nat

text \<open>The library classes: the packet and socket classes, the state a new UDP socket has, and
  what \<open>sf::IpAddress\<close> and \<open>GetUserName\<close> answer.\<close>

record ('u, 's, 'l, 'p) platform =
  packets :: "'p packet_api"
  tcp :: "('s, 'p) tcp_api"
  listeners :: "('l, 's) listener_api"
  udps :: "('u, 'p) udp_api"
  udp_new :: "nat \<Rightarrow> 'u"
  ip_toString :: "IpAddress \<Rightarrow> bytes"
  localAddress :: IpAddress
  broadcastAddress :: IpAddress
  user :: "wstring option"

section \<open>Set-up\<close>

definition Node_init :: "('u, 's, 'l, 'p) platform \<Rightarrow> wstring \<Rightarrow> ('u, 's, 'l, 'p) machine \<Rightarrow>
    ('u, 's, 'l, 'p) machine result" where
  "Node_init E folderPath n =
     (case Node_fileHashes (user E) (disk n) folderPath of
        Inl e \<Rightarrow> Inl e
      | Inr table \<Rightarrow> Inr (n\<lparr>directory := folderPath, fileHashes := table\<rparr>))"

definition isMyOwn :: "('u, 's, 'l, 'p) platform \<Rightarrow> IpAddress \<Rightarrow> bool" where
  "isMyOwn E sender \<longleftrightarrow> ip_toString E sender = ip_toString E (localAddress E)"

text \<open>\<open>getData\<close> is null for an empty packet.\<close>

definition getPacketID :: "'p packet_api \<Rightarrow> 'p \<Rightarrow> u8 result" where
  "getPacketID P packet = (case packet_data P packet of [] \<Rightarrow> Inl Null_dereference | b # _ \<Rightarrow> Inr b)"

definition listenUdp :: "('u, 's, 'l, 'p) platform \<Rightarrow> u16 \<Rightarrow> ('u, 's, 'l, 'p) machine \<Rightarrow>
    bool \<times> ('u, 's, 'l, 'p) machine" where
  "listenUdp E port n =
     (let (ok, u) = Udp_bind (udps E) port (udp n) in (ok, n\<lparr>udpPort := port, udp := u\<rparr>))"

section \<open>Sending\<close>

definition send_udp :: "('u, 's, 'l, 'p) platform \<Rightarrow> 'p \<Rightarrow> IpAddress \<Rightarrow> u16 \<Rightarrow> ('u, 's, 'l, 'p) machine \<Rightarrow>
    bool \<times> ('u, 's, 'l, 'p) machine" where
  "send_udp E packet recipient port n =
     (let (ok, u) = Udp_send (udps E) packet recipient port (udp n) in (ok, n\<lparr>udp := u\<rparr>))"

definition broadcast_to :: "('u, 's, 'l, 'p) platform \<Rightarrow> 'p \<Rightarrow> u16 \<Rightarrow> ('u, 's, 'l, 'p) machine \<Rightarrow>
    bool \<times> ('u, 's, 'l, 'p) machine" where
  "broadcast_to E packet port n = send_udp E packet (broadcastAddress E) port n"

definition broadcast :: "('u, 's, 'l, 'p) platform \<Rightarrow> 'p \<Rightarrow> ('u, 's, 'l, 'p) machine \<Rightarrow>
    bool \<times> ('u, 's, 'l, 'p) machine" where
  "broadcast E packet n = send_udp E packet (broadcastAddress E) (udpPort n) n"

definition table_packet :: "'p packet_api \<Rightarrow> u8 \<Rightarrow> hash_table \<Rightarrow> 'p" where
  "table_packet P pid table = put_hashTable P (packet_insert P (packet_new P) (Uint8 pid)) table"

definition respondToArrival :: "('u, 's, 'l, 'p) platform \<Rightarrow> IpAddress \<Rightarrow> ('u, 's, 'l, 'p) machine \<Rightarrow>
    bool \<times> ('u, 's, 'l, 'p) machine" where
  "respondToArrival E recipient n =
     send_udp E (table_packet (packets E) 1 (fileHashes n)) recipient (udpPort n) n"

section \<open>TCP\<close>

definition startTcpServer :: "('u, 's, 'l, 'p) platform \<Rightarrow> u16 \<Rightarrow> ('u, 's, 'l, 'p) machine \<Rightarrow>
    ('u, 's, 'l, 'p) machine" where
  "startTcpServer E port n = n\<lparr>tcpServer := snd (Server_listen (listeners E) port (tcpServer n))\<rparr>"

definition startClient :: "('u, 's, 'l, 'p) platform \<Rightarrow> IpAddress \<Rightarrow> u16 \<Rightarrow> ('u, 's, 'l, 'p) machine \<Rightarrow>
    bool \<times> ('u, 's, 'l, 'p) machine" where
  "startClient E ip port n =
     (let (ok, c) = Client_connect (tcp E) (ip_toString E ip) port (tcpClient n)
      in (ok, n\<lparr>tcpClient := c\<rparr>))"

definition Node_sendFile :: "('u, 's, 'l, 'p) platform \<Rightarrow> ifstream \<Rightarrow> ('u, 's, 'l, 'p) machine \<Rightarrow>
    ('u, 's, 'l, 'p) machine run" where
  "Node_sendFile E file n =
     run_bind (sendFile (packets E) (tcp E) (listeners E) file (tcpServer n))
       (\<lambda>srv. Some (Inr (n\<lparr>tcpServer := srv\<rparr>)))"

definition Node_receiveFile :: "('u, 's, 'l, 'p) platform \<Rightarrow> ofstream \<Rightarrow> ('u, 's, 'l, 'p) machine \<Rightarrow>
    (ofstream \<times> ('u, 's, 'l, 'p) machine) run" where
  "Node_receiveFile E file n =
     run_bind (receiveFile (packets E) (tcp E) file (tcpClient n))
       (\<lambda>(file', c). Some (Inr (file', n\<lparr>tcpClient := c\<rparr>)))"

text \<open>The path of a shared file: \<open>directory + L'\\' + fileChange.filePath\<close>.\<close>

definition local_path :: "('u, 's, 'l, 'p, 'm) Node_scheme \<Rightarrow> wstring \<Rightarrow> wstring" where
  "local_path n path = directory n @ backslash # path"

text \<open>The answer to a request: \<open>abandon\<close>, the change and the TCP port.\<close>

definition put_details :: "'p packet_api \<Rightarrow> bool \<Rightarrow> fileChangeData \<Rightarrow> u16 \<Rightarrow> 'p" where
  "put_details P abandon fileChange tcpPort =
     packet_insert P (put_fileChangeData P (packet_insert P (packet_new P) (Bool abandon)) fileChange) (Uint16 tcpPort)"

definition get_details :: "'p packet_api \<Rightarrow> 'p \<Rightarrow> (bool \<times> fileChangeData \<times> u16) result" where
  "get_details P packet =
     (case get_bool P packet of Inl e \<Rightarrow> Inl e | Inr (abandon, p1) \<Rightarrow>
      (case get_fileChangeData P p1 of Inl e \<Rightarrow> Inl e | Inr (fileChange, p2) \<Rightarrow>
       (case get_u16 P p2 of Inl e \<Rightarrow> Inl e | Inr (tcpPort, p3) \<Rightarrow> Inr (abandon, fileChange, tcpPort))))"

text \<open>A request: the id 5, the change and the port the answer is expected on.\<close>

definition put_request :: "'p packet_api \<Rightarrow> fileChangeData \<Rightarrow> u16 \<Rightarrow> 'p" where
  "put_request P fileChange tcpNegotiationPort =
     packet_insert P (put_fileChangeData P (packet_insert P (packet_new P) (Uint8 5)) fileChange)
       (Uint16 tcpNegotiationPort)"

definition get_request :: "'p packet_api \<Rightarrow> 'p \<Rightarrow> (fileChangeData \<times> u16) result" where
  "get_request P packet =
     (case get_u8 P packet of Inl e \<Rightarrow> Inl e | Inr (packetPID, p1) \<Rightarrow>
      (case get_fileChangeData P p1 of Inl e \<Rightarrow> Inl e | Inr (fileChange, p2) \<Rightarrow>
       (case get_u16 P p2 of Inl e \<Rightarrow> Inl e | Inr (tcpNegotiationPort, p3) \<Rightarrow>
          Inr (fileChange, tcpNegotiationPort))))"

definition lift_result :: "'a result \<Rightarrow> 'a run" where
  "lift_result r = Some r"

definition negotiateTCPTransfer :: "('u, 's, 'l, 'p) platform \<Rightarrow> u16 \<Rightarrow> fileChangeData \<Rightarrow> 'p \<Rightarrow> IpAddress \<Rightarrow>
    ('u, 's, 'l, 'p) machine \<Rightarrow> (bool \<times> ('u, 's, 'l, 'p) machine) run" where
  "negotiateTCPTransfer E tcpNegotiationPort fileChange packetP server n =
     (let con0 = udp_new E (opened n);
          (_, con1) = Udp_bind (udps E) tcpNegotiationPort con0;
          (_, n1) = send_udp E packetP server (udpPort n) (n\<lparr>opened := opened n + 1\<rparr>);
          (received, (packet, sender, senderPort), con2) = Udp_receive (udps E) con1
      in if received
         then run_bind (lift_result (get_details (packets E) packet)) (\<lambda>(abandon, fileChange, tcpPort).
           if abandon then Some (Inr (False, n1))
           else (let path = local_path n1 (filePath fileChange)
             in run_bind (lift_result (acquireDirectories (disk n1) path)) (\<lambda>(_, fs1).
               let (file, fs2) = open_write fs1 path;
                   (_, n2) = startClient E sender tcpPort (n1\<lparr>disk := fs2\<rparr>)
               in run_bind (Node_receiveFile E file n2) (\<lambda>(file', n3).
                 Some (Inr (True, n3\<lparr>disk := close_write (disk n3) path file'\<rparr>))))))
         else Some (Inr (True, n1)))"

section \<open>Requests\<close>

text \<open>A thread that locks \<open>dirLock\<close> while it holds it never goes on.\<close>

definition lock_dirLock :: "('u, 's, 'l, 'p) machine \<Rightarrow> ('u, 's, 'l, 'p) machine run" where
  "lock_dirLock n = (if dirLocked n then None else Some (Inr (n\<lparr>dirLocked := True\<rparr>)))"

definition unlock_dirLock :: "('u, 's, 'l, 'p) machine \<Rightarrow> ('u, 's, 'l, 'p) machine" where
  "unlock_dirLock n = n\<lparr>dirLocked := False\<rparr>"

text \<open>The test for a file the node has already: \<open>&&\<close> reads the hash only if the file exists.\<close>

definition already_have :: "('u, 's, 'l, 'p) platform \<Rightarrow> ('u, 's, 'l, 'p) machine \<Rightarrow> fileChangeData \<Rightarrow> bool result" where
  "already_have E n fileChange =
     (if fs_exists (disk n) (local_path n (filePath fileChange))
      then (case getFileHash (user E) (disk n) (local_path n (filePath fileChange)) of
              Inl e \<Rightarrow> Inl e | Inr h \<Rightarrow> Inr (fileHash fileChange = h))
      else Inr False)"

text \<open>One iteration of \<open>requestFiles\<close>; an edit falls through to an addition.\<close>

definition request_file :: "('u, 's, 'l, 'p) platform \<Rightarrow> IpAddress \<Rightarrow> fileChangeData \<Rightarrow>
    ('u, 's, 'l, 'p) machine \<Rightarrow> ('u, 's, 'l, 'p) machine run" where
  "request_file E server fileChange n =
     run_bind (lock_dirLock n) (\<lambda>n1.
       case change fileChange of
         Deletion \<Rightarrow>
           run_bind (lift_result (deleteFile (disk n1) (local_path n1 (filePath fileChange)))) (\<lambda>(_, fs).
             Some (Inr (unlock_dirLock (n1\<lparr>disk := fs\<rparr>))))
       | _ \<Rightarrow>
           run_bind (lift_result (already_have E n1 fileChange)) (\<lambda>have_it.
             if have_it then Some (Inr (unlock_dirLock n1))
             else run_bind (negotiateTCPTransfer E 25565 fileChange
                      (put_request (packets E) fileChange 25565) server n1)
                    (\<lambda>(_, n2). Some (Inr (unlock_dirLock n2)))))"

fun requestFiles :: "('u, 's, 'l, 'p) platform \<Rightarrow> fileChangeData list \<Rightarrow> IpAddress \<Rightarrow>
    ('u, 's, 'l, 'p) machine \<Rightarrow> ('u, 's, 'l, 'p) machine run" where
  "requestFiles E [] server n = Some (Inr n)"
| "requestFiles E (fileChange # fileChanges) server n =
     run_bind (request_file E server fileChange n) (requestFiles E fileChanges server)"

definition dealWithHashTable :: "('u, 's, 'l, 'p) platform \<Rightarrow> hash_table \<Rightarrow> IpAddress \<Rightarrow> bool \<Rightarrow>
    ('u, 's, 'l, 'p) machine \<Rightarrow> ('u, 's, 'l, 'p) machine run" where
  "dealWithHashTable E table sender ignoreEdits n =
     requestFiles E (requested_changes (fileHashes n) table ignoreEdits) sender n"

section \<open>Handling packets\<close>

text \<open>Case 5 of \<open>handleUdp\<close>: a request for a file.\<close>

definition serve_request :: "('u, 's, 'l, 'p) platform \<Rightarrow> 'p UdpMessage \<Rightarrow> ('u, 's, 'l, 'p) machine \<Rightarrow>
    ('u, 's, 'l, 'p) machine run" where
  "serve_request E message n =
     run_bind (lift_result (get_request (packets E) (msg_packet message))) (\<lambda>(fileChange, tcpNegotiationPort).
       let path = local_path n (filePath fileChange);
           abandon = (\<not> fs_exists (disk n) path);
           tcpDetails = put_details (packets E) abandon fileChange 45016;
           (_, n1) = send_udp E tcpDetails (msg_ip message) tcpNegotiationPort n
       in if abandon then Some (Inr n1)
          else Node_sendFile E (open_ifstream (disk n1) path) (startTcpServer E 45016 n1))"

definition unknownPacket :: "('u, 's, 'l, 'p) platform \<Rightarrow> 'p UdpMessage \<Rightarrow> u8 result" where
  "unknownPacket E message =
     (case get_u8 (packets E) (msg_packet message) of Inl e \<Rightarrow> Inl e | Inr (pid, _) \<Rightarrow> Inr pid)"

text \<open>It only reads the id, which it drops.\<close>

definition readResponseToArrival :: "('u, 's, 'l, 'p) platform \<Rightarrow> 'p UdpMessage \<Rightarrow> unit result" where
  "readResponseToArrival E message =
     (case getPacketID (packets E) (msg_packet message) of Inl e \<Rightarrow> Inl e | Inr pid \<Rightarrow> Inr ())"

definition handle_message :: "('u, 's, 'l, 'p) platform \<Rightarrow> 'p UdpMessage \<Rightarrow> ('u, 's, 'l, 'p) machine \<Rightarrow>
    ('u, 's, 'l, 'p) machine run" where
  "handle_message E message n =
     run_bind (lift_result (getPacketID (packets E) (msg_packet message))) (\<lambda>pid.
       if pid = 1 then
         run_bind (lift_result (readResponseToArrival E message)) (\<lambda>_.
           Some (Inr (n\<lparr>receivedTable := True, tableManagerMessage := Some message\<rparr>)))
       else if pid = 2 then Some (Inr n)
       else if pid = 5 then serve_request E message n
       else if pid = 6 then
         run_bind (lift_result (get_fileChanges (packets E) (msg_packet message) [])) (\<lambda>(fileChanges, _).
           requestFiles E fileChanges (msg_ip message) n)
       else run_bind (lift_result (unknownPacket E message)) (\<lambda>_. Some (Inr n)))"

text \<open>The first block of \<open>handleUdp\<close>: \<open>try_lock\<close> fails while another thread holds the lock.\<close>

definition flush_changes :: "('u, 's, 'l, 'p) platform \<Rightarrow> ('u, 's, 'l, 'p) machine \<Rightarrow> ('u, 's, 'l, 'p) machine" where
  "flush_changes E n =
     (if dirLocked n then n
      else (let (table, buf, out) = flush_fileChangeBuf (fileHashes n) (changeBuf n);
                n1 = n\<lparr>fileHashes := table, changeBuf := buf\<rparr>
            in (case out of None \<Rightarrow> n1
                | Some v \<Rightarrow> snd (broadcast E (put_fileChanges (packets E) (packet_new (packets E)) v) n1))))"

definition handleUdp :: "('u, 's, 'l, 'p) platform \<Rightarrow> ('u, 's, 'l, 'p) machine \<Rightarrow>
    (bool \<times> ('u, 's, 'l, 'p) machine) run" where
  "handleUdp E n =
     (let n1 = flush_changes E n
      in (case todoUdp n1 of
            [] \<Rightarrow> Some (Inr (False, n1))
          | message # rest \<Rightarrow>
              run_bind (handle_message E message (n1\<lparr>todoUdp := rest\<rparr>)) (\<lambda>n2. Some (Inr (True, n2)))))"

text \<open>One round of \<open>collectUdpTraffic\<close>, after the selector reported traffic.\<close>

definition collect_packet :: "('u, 's, 'l, 'p) platform \<Rightarrow> ('u, 's, 'l, 'p) machine \<Rightarrow>
    ('u, 's, 'l, 'p) machine run" where
  "collect_packet E n =
     (let (received, (packet, sender, senderPort), u) = Udp_receive (udps E) (udp n);
          n1 = n\<lparr>udp := u\<rparr>
      in if \<not> received then Some (Inr n1)
         else if isMyOwn E sender then Some (Inr n1)
         else run_bind (lift_result (getPacketID (packets E) packet)) (\<lambda>pid.
           if pid = 0 then
             run_bind (lift_result (case get_u8 (packets E) packet of Inl e \<Rightarrow> Inl e
                 | Inr (pid, p1) \<Rightarrow> get_hashTable (packets E) p1 [])) (\<lambda>(foreignHashes, _).
               dealWithHashTable E foreignHashes sender True (snd (respondToArrival E sender n1)))
           else Some (Inr (n1\<lparr>todoUdp := todoUdp n1 @
             [\<lparr>msg_packet = packet, msg_ip = sender, msg_port = udpPort n1\<rparr>]\<rparr>))))"

text \<open>\<open>waits\<close> are the answers of the selector.\<close>

fun collectUdpTraffic :: "('u, 's, 'l, 'p) platform \<Rightarrow> bool list \<Rightarrow> ('u, 's, 'l, 'p) machine \<Rightarrow>
    ('u, 's, 'l, 'p) machine run" where
  "collectUdpTraffic E [] n = Some (Inr n)"
| "collectUdpTraffic E (w # waits) n =
     (if w then run_bind (collect_packet E n) (collectUdpTraffic E waits) else Some (Inr n))"

section \<open>The bodies of the threads\<close>

definition discoverDriver :: "('u, 's, 'l, 'p) platform \<Rightarrow> bool list \<Rightarrow> ('u, 's, 'l, 'p) machine \<Rightarrow>
    ('u, 's, 'l, 'p) machine run" where
  "discoverDriver E waits n =
     collectUdpTraffic E waits (snd (broadcast E (table_packet (packets E) 0 (fileHashes n)) n))"

text \<open>The first \<open>k\<close> rounds of \<open>handlerDriver\<close>.\<close>

fun handlerDriver :: "('u, 's, 'l, 'p) platform \<Rightarrow> nat \<Rightarrow> ('u, 's, 'l, 'p) machine \<Rightarrow>
    ('u, 's, 'l, 'p) machine run" where
  "handlerDriver E 0 n = Some (Inr n)"
| "handlerDriver E (Suc k) n = run_bind (handleUdp E n) (\<lambda>(_, n1). handlerDriver E k n1)"

text \<open>One round of \<open>tableManagerDriver\<close>.\<close>

definition tableManager_round :: "('u, 's, 'l, 'p) platform \<Rightarrow> ('u, 's, 'l, 'p) machine \<Rightarrow>
    ('u, 's, 'l, 'p) machine run" where
  "tableManager_round E n =
     (if receivedTable n
      then (case tableManagerMessage n of
              None \<Rightarrow> Some (Inl Null_dereference)
            | Some message \<Rightarrow>
                (let n1 = n\<lparr>receivedTable := False, tableManagerMessage := None\<rparr>
                 in run_bind (lift_result (case get_u8 (packets E) (msg_packet message) of Inl e \<Rightarrow> Inl e
                        | Inr (pid, p1) \<Rightarrow> get_hashTable (packets E) p1 [])) (\<lambda>(table, _).
                      dealWithHashTable E table (msg_ip message) False n1)))
      else Some (Inr n))"

section \<open>main\<close>

text \<open>What \<open>main\<close> does before it starts the threads.\<close>

definition shared_folder :: "('u, 's, 'l, 'p) platform \<Rightarrow> wstring" where
  "shared_folder E = getDocumentsPath (user E) @ backslash # wide ''File Sync Shared Folder''"

definition main_start :: "('u, 's, 'l, 'p) platform \<Rightarrow> ('u, 's, 'l, 'p) machine \<Rightarrow>
    ('u, 's, 'l, 'p) machine result" where
  "main_start E n =
     (case createDirectory (disk n) (shared_folder E) of
        Inl e \<Rightarrow> Inl e
      | Inr (_, fs) \<Rightarrow>
          (case Node_init E (shared_folder E) (n\<lparr>disk := fs\<rparr>) of
             Inl e \<Rightarrow> Inl e
           | Inr n1 \<Rightarrow> Inr (snd (listenUdp E 45773 n1))))"

end
