(* ===== verification/File_View.thy ===== *)
theory File_View
  imports Directory_Listing
begin

text \<open>
  The abstract view of a file system: which paths are files, with what content, and which
  are directories. The operations on the tree are updates of this view.
\<close>

definition file_at :: "fsnode \<Rightarrow> wstring list \<Rightarrow> bytes option" where
  "file_at n p = (case node_at n p of Some (File b) \<Rightarrow> Some b | _ \<Rightarrow> None)"

definition dir_at :: "fsnode \<Rightarrow> wstring list \<Rightarrow> bool" where
  "dir_at n p = (case node_at n p of Some (Dir _) \<Rightarrow> True | _ \<Rightarrow> False)"

lemma dir_at_iff: "dir_at n p \<longleftrightarrow> (\<exists>es. node_at n p = Some (Dir es))"
  by (auto simp: dir_at_def split: option.splits fsnode.splits)

lemma file_at_iff: "file_at n p = Some b \<longleftrightarrow> node_at n p = Some (File b)"
  by (auto simp: file_at_def split: option.splits fsnode.splits)

lemma node_at_None_iff: "node_at n p = None \<longleftrightarrow> file_at n p = None \<and> \<not> dir_at n p"
  by (auto simp: file_at_def dir_at_def split: option.splits fsnode.splits)

lemma open_read_file_at: "open_read fs path = file_at fs (resolve path)"
  by (simp add: open_read_def file_at_def)

lemma fs_exists_view: "fs_exists fs path \<longleftrightarrow> file_at fs (resolve path) \<noteq> None \<or> dir_at fs (resolve path)"
  by (auto simp: fs_exists_def file_at_def dir_at_def split: option.splits fsnode.splits)

lemma fs_is_directory_view: "fs_is_directory fs path = dir_at fs (resolve path)"
  by (simp add: fs_is_directory_def dir_at_def)

lemma not_file_and_dir: "file_at n p = Some b \<Longrightarrow> \<not> dir_at n p"
  by (auto simp: file_at_iff dir_at_iff)

text \<open>What lies above something is a directory.\<close>

lemma dir_above: "node_at n (p @ r) = Some m \<Longrightarrow> r \<noteq> [] \<Longrightarrow> dir_at n p"
  by (cases r) (auto simp: node_at_append dir_at_iff split: option.splits elim: node_at.elims)

lemma node_below_file: "node_at n p = Some (File b) \<Longrightarrow> r \<noteq> [] \<Longrightarrow> node_at n (p @ r) = None"
  by (cases r) (simp_all add: node_at_append)

lemma write_at_above:
  assumes "write_at cs new n = Some n'" "cs = p @ r" "r \<noteq> []"
  shows "dir_at n p \<and> dir_at n' p"
proof -
  from write_at_exists_iff [of cs new n] assms(1) obtain es where "node_at n (butlast cs) = Some (Dir es)"
    by auto
  with assms(2,3) have "dir_at n p"
    by (cases r rule: rev_cases; cases "butlast r") (auto simp: dir_at_iff butlast_append dest: dir_above)
  moreover have "dir_at n' p"
    using write_at_same [OF assms(1)] assms(2,3) by (auto intro: dir_above)
  ultimately show ?thesis ..
qed

text \<open>A path is the written one, below it, above it, or not affected.\<close>

lemma path_cases:
  obtains "p = cs" | r where "r \<noteq> []" "p = cs @ r" | r where "r \<noteq> []" "cs = p @ r"
  | "take (length cs) p \<noteq> cs" "\<not> (\<exists>r. cs = p @ r)"
  by (metis append_Nil2 append_take_drop_id)

lemma write_file_view:
  assumes "write_at cs (File x) n = Some n'" "\<not> dir_at n cs"
  shows "file_at n' = (file_at n)(cs \<mapsto> x)" "dir_at n' = dir_at n"
proof -
  have "file_at n' p = ((file_at n)(cs \<mapsto> x)) p \<and> dir_at n' p = dir_at n p" for p
  proof (cases rule: path_cases [of p cs])
    case 1
    then show ?thesis using write_at_same [OF assms(1)] assms(2) by (simp add: file_at_def dir_at_def)
  next
    case (2 r)
    have "node_at n' p = None" using node_below_file [OF write_at_same [OF assms(1)]] 2 by simp
    moreover have "node_at n p = None"
      using 2 assms(2) by (metis dir_above not_None_eq)
    ultimately show ?thesis using 2(1,2) by (simp add: node_at_None_iff)
  next
    case (3 r)
    from write_at_above [OF assms(1) 3(2,1)] 3 show ?thesis
      by (auto simp: dir_at_iff file_at_def)
  next
    case 4
    with write_at_frame [OF assms(1)] show ?thesis by (auto simp: file_at_def dir_at_def)
  qed
  then show "file_at n' = (file_at n)(cs \<mapsto> x)" "dir_at n' = dir_at n" by auto
qed

lemma write_dir_view:
  assumes "write_at cs (Dir []) n = Some n'" "node_at n cs = None"
  shows "file_at n' = file_at n" "dir_at n' p \<longleftrightarrow> dir_at n p \<or> p = cs"
proof -
  have "file_at n' p = file_at n p \<and> dir_at n' p = (dir_at n p \<or> p = cs)" for p
  proof (cases rule: path_cases [of p cs])
    case 1
    then show ?thesis using write_at_same [OF assms(1)] assms(2) by (simp add: file_at_def dir_at_def)
  next
    case (2 r)
    have "node_at n' p = None" using write_at_same [OF assms(1)] 2
      by (cases r) (simp_all add: node_at_append)
    moreover have "node_at n p = None" using 2 assms(2) by (simp add: node_at_append)
    ultimately show ?thesis using 2(1,2) by (simp add: node_at_None_iff)
  next
    case (3 r)
    from write_at_above [OF assms(1) 3(2,1)] 3 show ?thesis by (auto simp: dir_at_iff file_at_def)
  next
    case 4
    with write_at_frame [OF assms(1)] show ?thesis by (auto simp: file_at_def dir_at_def)
  qed
  then show "file_at n' = file_at n" "dir_at n' p \<longleftrightarrow> dir_at n p \<or> p = cs" by auto
qed

lemma remove_at_above:
  "remove_at cs n = Some n' \<Longrightarrow> cs = p @ r \<Longrightarrow> r \<noteq> [] \<Longrightarrow> dir_at n p \<and> dir_at n' p"
proof (induction cs n arbitrary: n' p rule: remove_at.induct)
  case (3 c cs es)
  show ?case
  proof (cases p)
    case Nil
    with 3 show ?thesis by (auto simp: dir_at_iff split: option.splits if_splits)
  next
    case (Cons d p')
    with "3.prems" have ne: "cs \<noteq> []" "d = c" "cs = p' @ r" by auto
    with "3.prems"(1) obtain n m where "map_of es c = Some n" "remove_at cs n = Some m"
      "n' = Dir (AList.update c m es)" by (auto split: option.splits)
    with "3.IH" [of n m p'] ne "3.prems"(3) Cons show ?thesis
      by (simp add: dir_at_iff update_conv')
  qed
next
  case (2 c cs b)
  then show ?case by (metis option.distinct(1) remove_at.simps(2))
qed auto

lemma remove_view:
  assumes "remove_at cs n = Some n'" "\<And>r m. r \<noteq> [] \<Longrightarrow> node_at n (cs @ r) \<noteq> Some m"
  shows "file_at n' = (file_at n)(cs := None)"
proof
  fix p
  show "file_at n' p = ((file_at n)(cs := None)) p"
  proof (cases rule: path_cases [of p cs])
    case 1
    then show ?thesis using remove_at_gone [OF assms(1)] by (simp add: file_at_def)
  next
    case (2 r)
    with assms(2) [of r] remove_at_gone [OF assms(1)] show ?thesis
      by (auto simp: file_at_def node_at_append split: option.splits)
  next
    case (3 r)
    from remove_at_above [OF assms(1) 3(2,1)] 3 show ?thesis by (auto simp: dir_at_iff file_at_def)
  next
    case 4
    with remove_at_frame [OF assms(1)] show ?thesis by (auto simp: file_at_def)
  qed
qed

section \<open>Creating the directories of a path\<close>

lemma prefixes_Cons:
  "(\<exists>k \<le> length (c # cs). p = base @ take k (c # cs)) \<longleftrightarrow> p = base \<or> (\<exists>k \<le> length cs. p = (base @ [c]) @ take k cs)"
proof -
  have "(\<exists>k \<le> Suc m. Q k) \<longleftrightarrow> Q 0 \<or> (\<exists>k \<le> m. Q (Suc k))" for m and Q :: "nat \<Rightarrow> bool"
    by (metis Suc_le_mono le0 not0_implies_Suc)
  from this [of "length cs" "\<lambda>k. p = base @ take k (c # cs)"] show ?thesis by simp
qed

lemma create_dirs_view:
  assumes "dir_at fs base" "\<And>k b. k \<le> length cs \<Longrightarrow> file_at fs (base @ take k cs) = None"
  shows "\<exists>m fs'. create_dirs fs base cs made = Inr (m, fs') \<and> file_at fs' = file_at fs \<and>
    (\<forall>p. dir_at fs' p \<longleftrightarrow> dir_at fs p \<or> (\<exists>k \<le> length cs. p = base @ take k cs))"
  using assms
proof (induction cs arbitrary: fs base made)
  case Nil
  then show ?case by auto
next
  case (Cons c cs)
  have nofile: "file_at fs (base @ [c]) = None" using Cons.prems(2) [of 1] by simp
  have step: "\<exists>m fs'. create_dirs g (base @ [c]) cs md = Inr (m, fs') \<and> file_at fs' = file_at g \<and>
    (\<forall>p. dir_at fs' p \<longleftrightarrow> dir_at g p \<or> (\<exists>k \<le> length (c # cs). p = base @ take k (c # cs)))"
    if "dir_at g (base @ [c])" "file_at g = file_at fs" "dir_at g base" for g md
  proof -
    have "file_at g ((base @ [c]) @ take k cs) = None" if "k \<le> length cs" for k
      using Cons.prems(2) [of "Suc k"] that \<open>file_at g = file_at fs\<close> by simp
    from Cons.IH [OF that(1) this] obtain m fs' where
      r: "create_dirs g (base @ [c]) cs md = Inr (m, fs')" "file_at fs' = file_at g"
      and d: "\<And>p. dir_at fs' p \<longleftrightarrow> dir_at g p \<or> (\<exists>k \<le> length cs. p = (base @ [c]) @ take k cs)" by blast
    have "dir_at fs' p \<longleftrightarrow> dir_at g p \<or> (\<exists>k \<le> length (c # cs). p = base @ take k (c # cs))" for p
      unfolding d prefixes_Cons using that(3) by auto
    with r show ?thesis by blast
  qed
  show ?case
  proof (cases "node_at fs (base @ [c])")
    case (Some m)
    with nofile have "dir_at fs (base @ [c])" by (metis node_at_None_iff option.distinct(1))
    with step [OF this] Some Cons.prems(1) show ?thesis by (auto simp: dir_at_iff)
  next
    case None
    with Cons.prems(1) obtain fs1 where w: "write_at (base @ [c]) (Dir []) fs = Some fs1"
      using write_at_exists_iff [of "base @ [c]" "Dir []" fs] by (auto simp: dir_at_iff)
    note v = write_dir_view [OF w None]
    have "dir_at fs1 (base @ [c])" "dir_at fs1 base" using v(2) Cons.prems(1) by simp_all
    from step [OF this(1) v(1) this(2), of True] obtain m fs' where
      r: "create_dirs fs1 (base @ [c]) cs True = Inr (m, fs')" "file_at fs' = file_at fs"
      "\<forall>p. dir_at fs' p \<longleftrightarrow> dir_at fs1 p \<or> (\<exists>k \<le> length (c # cs). p = base @ take k (c # cs))"
      using v(1) by auto
    have "dir_at fs' p \<longleftrightarrow> dir_at fs p \<or> (\<exists>k \<le> length (c # cs). p = base @ take k (c # cs))" for p
      using r(3) v(2) [of p] unfolding prefixes_Cons by (auto intro: exI [of _ 0])
    with None w r(1,2) show ?thesis by simp
  qed
qed

end
