(* ===== verification/Node_Requests.thy ===== *)
theory Node_Requests
  imports Node File_View File_Transfer_Peers
begin

text \<open>
  What one request does: the packets of the negotiation, the file it writes, and the state
  it leaves. The file system is seen through File\_View, the connection through the
  interface \<open>sender_socket\<close>.
\<close>

section \<open>Paths\<close>

lemma local_path_names: "names_ok cs \<Longrightarrow> resolve (local_path n (join cs)) = resolve (directory n) @ cs"
proof (cases cs)
  case Nil
  then show ?thesis by (simp add: local_path_def resolve_append_sep)
next
  case (Cons c ds)
  assume ok: "names_ok cs"
  have "local_path n (join cs) = directory n @ backslash # backslash # (c @ join ds)"
    by (simp add: local_path_def Cons)
  then have "resolve (local_path n (join cs)) = resolve (directory n @ join cs)"
    by (simp add: resolve_double_sep Cons)
  with resolve_join [OF ok] show ?thesis by simp
qed

lemma no_slash_join: "names_ok cs \<Longrightarrow> slash \<notin> set (join cs)"
  by (induction cs) (auto simp: names_ok_def dest: name_ok_no_slash)

lemma local_path_preferred:
  "dir_path (directory n) \<Longrightarrow> names_ok cs \<Longrightarrow> make_preferred (local_path n (join cs)) = local_path n (join cs)"
  using no_slash_join by (intro make_preferred_id) (auto simp: local_path_def dir_path_def)

text \<open>A place a file can be received at: its path has at least one name, no file is in the way
  above it and no directory at it.\<close>

definition place_ok :: "fsnode \<Rightarrow> wstring list \<Rightarrow> bool" where
  "place_ok fs p \<longleftrightarrow> p \<noteq> [] \<and> dir_at fs [] \<and> \<not> dir_at fs p \<and> (\<forall>k < length p. file_at fs (take k p) = None)"

lemma acquire_and_write:
  assumes "resolve path = p" "make_preferred path = path" "place_ok fs p"
  shows "\<exists>m fs1 fs2. acquireDirectories fs path = Inr (m, fs1) \<and>
    open_write fs1 path = (\<lparr>out_good = True, out_data = []\<rparr>, fs2) \<and>
    (\<forall>data. file_at (close_write fs2 path \<lparr>out_good = True, out_data = data\<rparr>) = (file_at fs)(p \<mapsto> data) \<and>
      (\<forall>q. dir_at (close_write fs2 path \<lparr>out_good = True, out_data = data\<rparr>) q \<longleftrightarrow>
         dir_at fs q \<or> (\<exists>k < length p. q = take k p)))"
proof -
  have ne: "p \<noteq> []" and len: "length (butlast p) < length p" using assms(3) by (auto simp: place_ok_def)
  have nofile: "file_at fs ([] @ take k (butlast p)) = None" if "k \<le> length (butlast p)" for k
  proof -
    from that len have "k < length p" by simp
    then show ?thesis using assms(3) by (simp add: place_ok_def take_butlast)
  qed
  from create_dirs_view [of fs "[]" "butlast p" False, OF _ nofile] assms(3)
  obtain m fs1 where c: "create_dirs fs [] (butlast p) False = Inr (m, fs1)" "file_at fs1 = file_at fs"
    and d: "\<And>q. dir_at fs1 q \<longleftrightarrow> dir_at fs q \<or> (\<exists>k \<le> length (butlast p). q = [] @ take k (butlast p))"
    unfolding place_ok_def by blast
  have pre: "(\<exists>k \<le> length (butlast p). q = [] @ take k (butlast p)) \<longleftrightarrow> (\<exists>k < length p. q = take k p)" for q
  proof -
    have kk: "k \<le> length (butlast p) \<longleftrightarrow> k < length p" for k
      using ne by (cases p rule: rev_cases) auto
    show ?thesis unfolding append_Nil kk using take_butlast [of _ p] by metis
  qed
  have "length (take k p) < length p" if "k < length p" for k using that by simp
  then have "k < length p \<Longrightarrow> p \<noteq> take k p" for k by (metis less_irrefl)
  then have nd: "\<not> dir_at fs1 p" using assms(3) unfolding d pre place_ok_def by blast
  have "dir_at fs1 (butlast p)" unfolding d by (intro disjI2 exI [of _ "length (butlast p)"]) simp
  then obtain fs2 where w: "write_at p (File []) fs1 = Some fs2"
    using write_at_exists_iff [of p "File []" fs1] ne by (auto simp: dir_at_iff)
  note v2 = write_file_view [OF w nd]
  have "dir_at fs2 (butlast p)" "\<not> dir_at fs2 p" using v2(2) nd \<open>dir_at fs1 (butlast p)\<close> by simp_all
  have cw: "file_at (close_write fs2 path \<lparr>out_good = True, out_data = data\<rparr>) = (file_at fs)(p \<mapsto> data) \<and>
      dir_at (close_write fs2 path \<lparr>out_good = True, out_data = data\<rparr>) = dir_at fs1" for data
  proof -
    obtain fs3 where w3: "write_at p (File data) fs2 = Some fs3"
      using write_at_exists_iff [of p "File data" fs2] ne \<open>dir_at fs2 (butlast p)\<close> by (auto simp: dir_at_iff)
    from write_file_view [OF w3 \<open>\<not> dir_at fs2 p\<close>] v2 c(2) w3 assms(1) show ?thesis
      by (simp add: close_write_def)
  qed
  have "acquireDirectories fs path = Inr (m, fs1)"
    using c(1) assms(1,2) by (simp add: acquireDirectories_def)
  moreover have "open_write fs1 path = (\<lparr>out_good = True, out_data = []\<rparr>, fs2)"
    using w nd assms(1) by (simp add: open_write_def fs_is_directory_view)
  moreover have "\<forall>data. file_at (close_write fs2 path \<lparr>out_good = True, out_data = data\<rparr>) = (file_at fs)(p \<mapsto> data) \<and>
      (\<forall>q. dir_at (close_write fs2 path \<lparr>out_good = True, out_data = data\<rparr>) q \<longleftrightarrow>
         dir_at fs q \<or> (\<exists>k < length p. q = take k p))"
    using cw unfolding d pre by (simp add: d pre)
  ultimately show ?thesis by blast
qed

section \<open>Packets of the negotiation\<close>

definition details_fields :: "bool \<Rightarrow> fileChangeData \<Rightarrow> u16 \<Rightarrow> field list" where
  "details_fields abandon fc port = Bool abandon # change_fields fc @ [Uint16 port]"

definition request_fields :: "fileChangeData \<Rightarrow> u16 \<Rightarrow> field list" where
  "request_fields fc port = Uint8 5 # change_fields fc @ [Uint16 port]"

lemma put_details_fields: "put_details P abandon fc port = put_all P (details_fields abandon fc port) (packet_new P)"
  by (simp add: put_details_def details_fields_def put_fileChangeData_fields put_all_def)

lemma put_request_fields: "put_request P fc port = put_all P (request_fields fc port) (packet_new P)"
  by (simp add: put_request_def request_fields_def put_fileChangeData_fields put_all_def)

context packet_laws
begin

lemma details_arrive:
  assumes "change_ok fc"
  shows "get_details P (packet_arrived P (put_details P abandon fc port)) = Inr (abandon, fc, port)"
proof -
  let ?p = "packet_arrived P (put_details P abandon fc port)"
  have "holds ?p (details_fields abandon fc port) (Bool abandon # change_fields fc @ [Uint16 port])"
    unfolding put_details_fields using holds_sent [of "details_fields abandon fc port"] change_fields_ok [OF assms]
    by (simp add: details_fields_def)
  from get_bool_holds [OF this] obtain p1 where 1: "get_bool P ?p = Inr (abandon, p1)"
    "holds p1 (details_fields abandon fc port) (change_fields fc @ [Uint16 port])" by blast
  from get_fileChangeData_holds [OF 1(2)] obtain p2 where 2: "get_fileChangeData P p1 = Inr (fc, p2)"
    "holds p2 (details_fields abandon fc port) [Uint16 port]" by blast
  from get_u16_holds [OF 2(2)] 1(1) 2(1) show ?thesis by (auto simp: get_details_def)
qed

lemma request_arrives:
  assumes "change_ok fc"
  shows "get_request P (packet_arrived P (put_request P fc port)) = Inr (fc, port)"
proof -
  let ?p = "packet_arrived P (put_request P fc port)"
  have "holds ?p (request_fields fc port) (Uint8 5 # change_fields fc @ [Uint16 port])"
    unfolding put_request_fields using holds_sent [of "request_fields fc port"] change_fields_ok [OF assms]
    by (simp add: request_fields_def)
  from get_u8_holds [OF this] obtain p1 where 1: "get_u8 P ?p = Inr (5, p1)"
    "holds p1 (request_fields fc port) (change_fields fc @ [Uint16 port])" by blast
  from get_fileChangeData_holds [OF 1(2)] obtain p2 where 2: "get_fileChangeData P p1 = Inr (fc, p2)"
    "holds p2 (request_fields fc port) [Uint16 port]" by blast
  from get_u16_holds [OF 2(2)] 1(1) 2(1) show ?thesis by (auto simp: get_request_def)
qed

lemma packet_id:
  assumes "list_all field_ok (Uint8 pid # fs)"
  shows "getPacketID P (packet_arrived P (put_all P (Uint8 pid # fs) (packet_new P))) = Inr pid"
  using holds_head [OF holds_sent [OF assms]] by (auto simp: getPacketID_def)

end

section \<open>One request\<close>

text \<open>The answer the \<open>k\<close>-th UDP socket of a node receives on the negotiation port.\<close>

definition answered :: "('u, 's, 'l, 'p) platform \<Rightarrow> nat \<Rightarrow> bool \<Rightarrow> fileChangeData \<Rightarrow> IpAddress \<Rightarrow> bool" where
  "answered E k abandon fc server \<longleftrightarrow>
     (\<exists>sp con. Udp_receive (udps E) (snd (Udp_bind (udps E) 25565 (udp_new E k))) =
        (True, (packet_arrived (packets E) (put_details (packets E) abandon fc 45016), server, sp), con))"

text \<open>What a request may change besides the disk.\<close>

definition same_node :: "('u, 's, 'l, 'p) machine \<Rightarrow> ('u, 's, 'l, 'p) machine \<Rightarrow> bool" where
  "same_node n n' \<longleftrightarrow> directory n' = directory n \<and> fileHashes n' = fileHashes n \<and> changeBuf n' = changeBuf n \<and>
     todoUdp n' = todoUdp n \<and> tableManagerMessage n' = tableManagerMessage n \<and>
     receivedTable n' = receivedTable n \<and> udpPort n' = udpPort n \<and> tcpServer n' = tcpServer n"

lemma same_node_refl [simp]: "same_node n n"
  by (simp add: same_node_def)

lemma same_node_trans: "same_node a b \<Longrightarrow> same_node b c \<Longrightarrow> same_node a c"
  by (simp add: same_node_def)

lemma negotiate_abandoned:
  assumes "packet_laws (packets E) holds" "change_ok fc" "answered E (opened n) True fc server"
  shows "\<exists>u. negotiateTCPTransfer E 25565 fc pk server n = Some (Inr (False, n\<lparr>udp := u, opened := opened n + 1\<rparr>))"
proof -
  from assms(3) obtain sp con where r:
    "Udp_receive (udps E) (snd (Udp_bind (udps E) 25565 (udp_new E (opened n)))) =
       (True, (packet_arrived (packets E) (put_details (packets E) True fc 45016), server, sp), con)"
    by (auto simp: answered_def)
  show ?thesis
    by (rule exI [of _ "snd (Udp_send (udps E) pk server (udpPort n) (udp n))"])
      (simp add: negotiateTCPTransfer_def send_udp_def split_def Let_def r lift_result_def
        packet_laws.details_arrive [OF assms(1,2)])
qed

lemma negotiate_receives:
  assumes sock: "sender_socket (packets E) holds (tcp E) view put"
    and fc: "change_ok fc" "answered E (opened n) False fc server" "filePath fc = join cs" "names_ok cs"
    and conn: "tcp_connect (tcp E) (ip_toString E server) 45016 30 (cl_socket (tcpClient n)) = (st, s)"
      "view s = fresh_speer bs" "length bs < 2 ^ 32"
    and disk: "dir_path (directory n)" "place_ok (disk n) (resolve (directory n) @ cs)"
  shows "\<exists>n' v. negotiateTCPTransfer E 25565 fc pk server n = Some (Inr (True, n')) \<and>
    file_at (disk n') = (file_at (disk n))(resolve (directory n) @ cs \<mapsto> bs) \<and>
    (\<forall>q. dir_at (disk n') q \<longleftrightarrow> dir_at (disk n) q \<or> (\<exists>k < length (resolve (directory n) @ cs). q = take k (resolve (directory n) @ cs))) \<and>
    same_node n n' \<and> dirLocked n' = dirLocked n \<and> opened n' = opened n + 1 \<and>
    cl_socket (tcpClient n') = put v s"
proof -
  let ?path = "local_path n (join cs)"
  from fc(2) obtain sp con where r:
    "Udp_receive (udps E) (snd (Udp_bind (udps E) 25565 (udp_new E (opened n)))) =
       (True, (packet_arrived (packets E) (put_details (packets E) False fc 45016), server, sp), con)"
    by (auto simp: answered_def)
  note laws = sender_socket.axioms(1) [OF sock]
  from acquire_and_write [OF local_path_names [OF fc(4)] local_path_preferred [OF disk(1) fc(4)] disk(2)]
  obtain m fs1 fs2 where w: "acquireDirectories (disk n) ?path = Inr (m, fs1)"
    "open_write fs1 ?path = (\<lparr>out_good = True, out_data = []\<rparr>, fs2)"
    and v: "\<And>data. file_at (close_write fs2 ?path \<lparr>out_good = True, out_data = data\<rparr>) =
        (file_at (disk n))(resolve (directory n) @ cs \<mapsto> data)"
      "\<And>data q. dir_at (close_write fs2 ?path \<lparr>out_good = True, out_data = data\<rparr>) q \<longleftrightarrow>
        dir_at (disk n) q \<or> (\<exists>k < length (resolve (directory n) @ cs). q = take k (resolve (directory n) @ cs))"
    by blast
  obtain v' where rf: "receiveFile (packets E) (tcp E) \<lparr>out_good = True, out_data = []\<rparr>
      ((tcpClient n)\<lparr>cl_socket := s\<rparr>) = Some (Inr (\<lparr>out_good = True, out_data = bs\<rparr>,
        (tcpClient n)\<lparr>cl_socket := put v' s\<rparr>))"
    using sender_socket.receiveFile_from_sender [OF sock conn(3), of "(tcpClient n)\<lparr>cl_socket := s\<rparr>"] conn(2)
    by auto
  let ?n' = "n\<lparr>udp := snd (Udp_send (udps E) pk server (udpPort n) (udp n)), opened := opened n + 1,
      disk := close_write fs2 ?path \<lparr>out_good = True, out_data = bs\<rparr>,
      tcpClient := (tcpClient n)\<lparr>cl_socket := put v' s\<rparr>\<rparr>"
  have lp: "local_path (n\<lparr>opened := i, udp := u\<rparr>) q = local_path n q" for i u q
    by (simp add: local_path_def)
  have "negotiateTCPTransfer E 25565 fc pk server n = Some (Inr (True, ?n'))"
    by (simp add: negotiateTCPTransfer_def send_udp_def split_def Let_def r lift_result_def lp fc(3)
        packet_laws.details_arrive [OF laws fc(1)] w startClient_def Client_connect_def conn(1)
        Node_receiveFile_def rf)
  with v show ?thesis
    by (intro exI [of _ ?n'] exI [of _ v']) (simp add: same_node_def)
qed

lemma request_file_receives:
  assumes sock: "sender_socket (packets E) holds (tcp E) view put"
    and fc: "change_ok fc" "answered E (opened n) False fc server" "filePath fc = join cs" "names_ok cs"
    and conn: "tcp_connect (tcp E) (ip_toString E server) 45016 30 (cl_socket (tcpClient n)) = (st, s)"
      "view s = fresh_speer bs" "length bs < 2 ^ 32"
    and disk: "dir_path (directory n)" "place_ok (disk n) (resolve (directory n) @ cs)"
    and req: "change fc \<noteq> Deletion" "\<not> dirLocked n" "already_have E n fc = Inr False"
  shows "\<exists>n' v. request_file E server fc n = Some (Inr n') \<and>
    file_at (disk n') = (file_at (disk n))(resolve (directory n) @ cs \<mapsto> bs) \<and>
    (\<forall>q. dir_at (disk n') q \<longleftrightarrow> dir_at (disk n) q \<or> (\<exists>k < length (resolve (directory n) @ cs). q = take k (resolve (directory n) @ cs))) \<and>
    same_node n n' \<and> \<not> dirLocked n' \<and> opened n' = opened n + 1 \<and> cl_socket (tcpClient n') = put v s"
proof -
  let ?n = "n\<lparr>dirLocked := True\<rparr>"
  have have_it: "already_have E ?n fc = Inr False"
    using req(3) by (simp add: already_have_def local_path_def cong: if_cong)
  have "answered E (opened ?n) False fc server" "dir_path (directory ?n)"
    "tcp_connect (tcp E) (ip_toString E server) 45016 30 (cl_socket (tcpClient ?n)) = (st, s)"
    "place_ok (disk ?n) (resolve (directory ?n) @ cs)" using fc(2) conn(1) disk by simp_all
  from negotiate_receives [OF sock fc(1) this(1) fc(3,4) this(3) conn(2,3) this(2,4),
      of "put_request (packets E) fc 25565"]
  obtain n' v where r: "negotiateTCPTransfer E 25565 fc (put_request (packets E) fc 25565) server ?n = Some (Inr (True, n'))"
    "file_at (disk n') = (file_at (disk ?n))(resolve (directory ?n) @ cs \<mapsto> bs)"
    "\<forall>q. dir_at (disk n') q \<longleftrightarrow> dir_at (disk ?n) q \<or>
       (\<exists>k < length (resolve (directory ?n) @ cs). q = take k (resolve (directory ?n) @ cs))"
    "same_node ?n n'" "opened n' = opened ?n + 1" "cl_socket (tcpClient n') = put v s" by blast
  have "request_file E server fc n = Some (Inr (unlock_dirLock n'))"
    using req(1,2) have_it r(1)
    by (cases "change fc") (simp_all add: request_file_def lock_dirLock_def lift_result_def)
  with r(2-) show ?thesis
    by (intro exI [of _ "unlock_dirLock n'"] exI [of _ v]) (simp add: unlock_dirLock_def same_node_def)
qed

lemma request_file_abandoned:
  assumes "packet_laws (packets E) holds" "change_ok fc" "change fc \<noteq> Deletion"
    and "answered E (opened n) True fc server" "\<not> dirLocked n" "already_have E n fc = Inr False"
  shows "\<exists>u. request_file E server fc n = Some (Inr (n\<lparr>opened := opened n + 1, udp := u, dirLocked := False\<rparr>))"
proof -
  let ?n = "n\<lparr>dirLocked := True\<rparr>"
  have hv: "already_have E ?n fc = Inr False"
    using assms(6) by (simp add: already_have_def local_path_def cong: if_cong)
  have "answered E (opened ?n) True fc server" using assms(4) by simp
  from negotiate_abandoned [OF assms(1,2) this, of "put_request (packets E) fc 25565"] obtain u where
    "negotiateTCPTransfer E 25565 fc (put_request (packets E) fc 25565) server ?n =
       Some (Inr (False, ?n\<lparr>udp := u, opened := opened ?n + 1\<rparr>))" by blast
  then have "request_file E server fc n = Some (Inr (unlock_dirLock (?n\<lparr>udp := u, opened := opened ?n + 1\<rparr>)))"
    using assms(3,5) hv by (cases "change fc") (simp_all add: request_file_def lock_dirLock_def lift_result_def)
  then show ?thesis by (intro exI [of _ u]) (simp add: unlock_dirLock_def)
qed

section \<open>A list of requests\<close>

text \<open>Two paths such that neither is the other or lies above it.\<close>

definition apart :: "wstring list \<Rightarrow> wstring list \<Rightarrow> bool" where
  "apart p q \<longleftrightarrow> (\<forall>k. take k p \<noteq> q \<and> take k q \<noteq> p)"

lemma apart_neq: "apart p q \<Longrightarrow> p \<noteq> q"
  unfolding apart_def by (metis take_all order_refl)

text \<open>The connections a client socket will make lead to senders of these files.\<close>

fun connects :: "('s, 'p) tcp_api \<Rightarrow> ('s \<Rightarrow> speer) \<Rightarrow> (speer \<Rightarrow> 's \<Rightarrow> 's) \<Rightarrow> bytes \<Rightarrow> bytes list \<Rightarrow> 's \<Rightarrow> bool" where
  "connects T view put ip [] s = True"
| "connects T view put ip (bs # bss) s =
     (view (snd (tcp_connect T ip 45016 30 s)) = fresh_speer bs \<and>
      (\<forall>v. connects T view put ip bss (put v (snd (tcp_connect T ip 45016 30 s)))))"

text \<open>A request with the names of the path and the content the server has.\<close>

record file_request =
  rq_change :: fileChangeData
  rq_names :: "wstring list"
  rq_content :: bytes

definition request_ok :: "file_request \<Rightarrow> bool" where
  "request_ok r \<longleftrightarrow> change_ok (rq_change r) \<and> change (rq_change r) \<noteq> Deletion \<and>
     filePath (rq_change r) = join (rq_names r) \<and> names_ok (rq_names r) \<and> length (rq_content r) < 2 ^ 32"

lemma already_have_new:
  assumes "filePath fc = join cs" "names_ok cs" "file_at (disk n) (resolve (directory n) @ cs) = None"
    "\<not> dir_at (disk n) (resolve (directory n) @ cs)"
  shows "already_have E n fc = Inr False"
  using assms by (simp add: already_have_def fs_exists_view local_path_names)

lemma place_ok_after:
  assumes "place_ok fs q" "apart p q" "file_at fs' = (file_at fs)(p \<mapsto> bs)"
    "\<And>r. dir_at fs' r \<longleftrightarrow> dir_at fs r \<or> (\<exists>k < length p. r = take k p)"
  shows "place_ok fs' q"
  using assms unfolding place_ok_def apart_def by auto

lemma requestFiles_receives:
  assumes sock: "sender_socket (packets E) holds (tcp E) view put"
    and "\<forall>r \<in> set rs. request_ok r"
    and "\<forall>i < length rs. answered E (opened n + i) False (rq_change (rs ! i)) server"
    and "connects (tcp E) view put (ip_toString E server) (map rq_content rs) (cl_socket (tcpClient n))"
    and "\<forall>r \<in> set rs. place_ok (disk n) (resolve (directory n) @ rq_names r) \<and>
           file_at (disk n) (resolve (directory n) @ rq_names r) = None"
    and "sorted_wrt apart (map (\<lambda>r. resolve (directory n) @ rq_names r) rs)"
    and "dir_path (directory n)" "\<not> dirLocked n"
  shows "\<exists>n'. requestFiles E (map rq_change rs) server n = Some (Inr n') \<and> same_node n n' \<and> \<not> dirLocked n' \<and>
    file_at (disk n') = file_at (disk n) ++ map_of (map (\<lambda>r. (resolve (directory n) @ rq_names r, rq_content r)) rs)"
  using assms(2-)
proof (induction rs arbitrary: n)
  case Nil
  then show ?case by simp
next
  case (Cons r rs)
  let ?p = "\<lambda>r. resolve (directory n) @ rq_names r"
  from Cons.prems(1) have ok: "change_ok (rq_change r)" "change (rq_change r) \<noteq> Deletion"
    "filePath (rq_change r) = join (rq_names r)" "names_ok (rq_names r)" "length (rq_content r) < 2 ^ 32"
    by (simp_all add: request_ok_def)
  obtain st s where cn: "tcp_connect (tcp E) (ip_toString E server) 45016 30 (cl_socket (tcpClient n)) = (st, s)"
    by fastforce
  have pl: "place_ok (disk n) (?p r)" "file_at (disk n) (?p r) = None" using Cons.prems(4) by simp_all
  then have nd: "\<not> dir_at (disk n) (?p r)" by (simp add: place_ok_def)
  have ans: "answered E (opened n) False (rq_change r) server" using Cons.prems(2) by fastforce
  have view: "view s = fresh_speer (rq_content r)"
    and rest: "\<And>v. connects (tcp E) view put (ip_toString E server) (map rq_content rs) (put v s)"
    using Cons.prems(3) cn by simp_all
  have hv: "already_have E n (rq_change r) = Inr False"
    by (rule already_have_new [OF ok(3,4) pl(2) nd])
  from request_file_receives [OF sock ok(1) ans ok(3,4) cn view ok(5) Cons.prems(6) pl(1) ok(2) Cons.prems(7) hv]
  obtain n1 v where n1: "request_file E server (rq_change r) n = Some (Inr n1)"
    "file_at (disk n1) = (file_at (disk n))(?p r \<mapsto> rq_content r)"
    "\<And>q. dir_at (disk n1) q \<longleftrightarrow> dir_at (disk n) q \<or> (\<exists>k < length (?p r). q = take k (?p r))"
    "same_node n n1" "\<not> dirLocked n1" "opened n1 = opened n + 1" "cl_socket (tcpClient n1) = put v s"
    by blast
  have d: "directory n1 = directory n" using n1(4) by (simp add: same_node_def)
  have ap: "\<forall>x \<in> set rs. apart (?p r) (?p x)" "sorted_wrt apart (map ?p rs)"
    using Cons.prems(5) by simp_all
  have ans': "\<forall>i < length rs. answered E (opened n1 + i) False (rq_change (rs ! i)) server"
  proof (intro allI impI)
    fix i
    assume "i < length rs"
    then show "answered E (opened n1 + i) False (rq_change (rs ! i)) server"
      using Cons.prems(2) [THEN spec, of "Suc i"] n1(6) by simp
  qed
  have pl': "\<forall>x \<in> set rs. place_ok (disk n1) (?p x) \<and> file_at (disk n1) (?p x) = None"
  proof
    fix x
    assume x: "x \<in> set rs"
    with Cons.prems(4) have "place_ok (disk n) (?p x)" "file_at (disk n) (?p x) = None" by simp_all
    moreover have "apart (?p r) (?p x)" "?p r \<noteq> ?p x" using ap(1) apart_neq x by blast+
    ultimately show "place_ok (disk n1) (?p x) \<and> file_at (disk n1) (?p x) = None"
      using place_ok_after [OF _ _ n1(2,3)] n1(2) by simp
  qed
  have ok': "\<forall>x \<in> set rs. request_ok x" using Cons.prems(1) by simp
  have cn': "connects (tcp E) view put (ip_toString E server) (map rq_content rs) (cl_socket (tcpClient n1))"
    using rest n1(7) by simp
  from Cons.IH [OF ok' ans' cn', unfolded d, OF pl' ap(2) Cons.prems(6) n1(5)]
  obtain n' where n': "requestFiles E (map rq_change rs) server n1 = Some (Inr n')" "same_node n1 n'"
    "\<not> dirLocked n'" "file_at (disk n') = file_at (disk n1) ++ map_of (map (\<lambda>r. (?p r, rq_content r)) rs)"
    by blast
  have "?p r \<notin> fst ` set (map (\<lambda>r. (?p r, rq_content r)) rs)" using ap(1) apart_neq by fastforce
  then have "file_at (disk n') = file_at (disk n) ++ map_of (map (\<lambda>r. (?p r, rq_content r)) (r # rs))"
    unfolding n'(4) n1(2) by (simp add: map_add_upd_left dom_map_of_conv_image_fst)
  moreover have "same_node n n'" using n1(4) n'(2) by (rule same_node_trans)
  moreover have "requestFiles E (map rq_change (r # rs)) server n = Some (Inr n')" using n'(1) n1(1) by simp
  ultimately show ?case using n'(3) by blast
qed

end
