(* ===== verification/Node_Sync.thy ===== *)
theory Node_Sync
  imports Node_Requests Hash_Table_Packet
begin

text \<open>
  Properties of the requests of a node: what a fetched file holds, what a request can
  touch, what the serving node answers, and how a newcomer fills its folder.
\<close>

section \<open>Touching one path only\<close>

lemma write_frame_view:
  assumes "write_at cs new n = Some n'" "\<nexists>r. q = cs @ r"
  shows "file_at n' q = file_at n q"
proof (cases rule: path_cases [of q cs])
  case (3 r)
  from write_at_above [OF assms(1) 3(2,1)] show ?thesis by (auto simp: dir_at_iff file_at_def)
next
  case 4
  with write_at_frame [OF assms(1)] show ?thesis by (simp add: file_at_def)
qed (use assms(2) in auto)

lemma create_dirs_files: "create_dirs fs base cs made = Inr (m, fs') \<Longrightarrow> file_at fs' = file_at fs"
proof (induction fs base cs made rule: create_dirs.induct)
  case (2 fs base c cs made)
  show ?case
  proof (cases "node_at fs (base @ [c])")
    case None
    with "2.prems" obtain fs1 where "write_at (base @ [c]) (Dir []) fs = Some fs1"
      "create_dirs fs1 (base @ [c]) cs True = Inr (m, fs')" by (auto split: option.splits)
    with "2.IH"(1) [OF None] write_dir_view(1) None show ?thesis by metis
  next
    case (Some d)
    with "2.prems" "2.IH"(2) show ?thesis by (cases d) auto
  qed
qed simp

lemma open_write_frame:
  "open_write fs path = (f, fs') \<Longrightarrow> \<nexists>r. q = resolve path @ r \<Longrightarrow> file_at fs' q = file_at fs q"
  by (auto simp: open_write_def write_frame_view split: if_splits option.splits)

lemma close_write_frame: "\<nexists>r. q = resolve path @ r \<Longrightarrow> file_at (close_write fs path f) q = file_at fs q"
  by (auto simp: close_write_def write_frame_view split: option.splits)

text \<open>What \<open>remove\<close> can remove: a file or an empty directory.\<close>

lemma deleteFile_cases:
  assumes "deleteFile fs path = Inr (b, fs')"
  obtains "fs' = fs" "node_at fs (resolve path) = None"
  | m where "node_at fs (resolve path) = Some m" "remove_at (resolve path) fs = Some fs'"
      "\<And>r x. r \<noteq> [] \<Longrightarrow> node_at m r \<noteq> Some x"
proof (cases "node_at fs (resolve path)")
  case None
  with assms that(1) show ?thesis by (simp add: deleteFile_def fs_remove_def)
next
  case (Some m)
  then have "(\<exists>c. m = File c) \<or> m = Dir []" and "remove_at (resolve path) fs = Some fs'"
    using assms by (auto simp: deleteFile_def fs_remove_def split: fsnode.splits list.splits option.splits)
  moreover have "node_at m r \<noteq> Some x" if "r \<noteq> []" "(\<exists>c. m = File c) \<or> m = Dir []" for r x
    using that by (cases r) auto
  ultimately show ?thesis using that(2) Some by blast
qed

lemma deleteFile_view:
  assumes "deleteFile fs path = Inr (b, fs')"
  shows "file_at fs' = (file_at fs)(resolve path := None)"
  using assms
proof (cases rule: deleteFile_cases)
  case 1
  then show ?thesis by (auto simp: file_at_def)
next
  case (2 m)
  have "node_at fs (resolve path @ r) \<noteq> Some x" if "r \<noteq> []" for r x
    using 2(1,3) that by (simp add: node_at_append)
  from remove_view [OF 2(2) this] show ?thesis .
qed

text \<open>A file below the root can be removed.\<close>

lemma deleteFile_file:
  assumes "file_at fs (resolve path) = Some c" "resolve path \<noteq> []"
  shows "\<exists>fs'. deleteFile fs path = Inr (True, fs')"
proof -
  from remove_at_exists [OF assms(2)] assms(1) obtain fs' where "remove_at (resolve path) fs = Some fs'"
    by (auto simp: file_at_iff)
  with assms(1) show ?thesis by (simp add: deleteFile_def fs_remove_def file_at_iff)
qed

lemma Node_receiveFile_node:
  "Node_receiveFile E f n = Some (Inr (f', n')) \<Longrightarrow> \<exists>c. n' = n\<lparr>tcpClient := c\<rparr>"
  by (auto simp: Node_receiveFile_def run_bind_Inr_iff)

text \<open>All a negotiation can do, whatever the network does.\<close>

lemma negotiate_cases:
  assumes "negotiateTCPTransfer E prt fc pk server n = Some (Inr (b, n'))"
  obtains u where "n' = n\<lparr>opened := opened n + 1, udp := u\<rparr>"
  | packet sender sp con fc' tp m fs1 f fs2 f' c u where
      "Udp_receive (udps E) (snd (Udp_bind (udps E) prt (udp_new E (opened n)))) = (True, (packet, sender, sp), con)"
      "get_details (packets E) packet = Inr (False, fc', tp)"
      "acquireDirectories (disk n) (local_path n (filePath fc')) = Inr (m, fs1)"
      "open_write fs1 (local_path n (filePath fc')) = (f, fs2)"
      "n' = n\<lparr>opened := opened n + 1, udp := u, tcpClient := c,
         disk := close_write fs2 (local_path n (filePath fc')) f'\<rparr>"
proof -
  let ?u = "snd (Udp_send (udps E) pk server (udpPort n) (udp n))"
  let ?n1 = "n\<lparr>opened := opened n + 1, udp := ?u\<rparr>"
  obtain rc packet sender sp con where
    r: "Udp_receive (udps E) (snd (Udp_bind (udps E) prt (udp_new E (opened n)))) = (rc, (packet, sender, sp), con)"
    by (metis prod_cases3)
  have lp: "local_path (n\<lparr>opened := i, udp := u\<rparr>) q = local_path n q" for i u q
    by (simp add: local_path_def)
  show thesis
  proof (cases "rc \<and> (\<exists>fc' tp. get_details (packets E) packet = Inr (False, fc', tp))")
    case False
    then have "n' = ?n1"
      using assms r by (auto simp: negotiateTCPTransfer_def send_udp_def split_def Let_def lift_result_def
          run_bind_Inr_iff split: if_splits)
    then show thesis by (rule that(1))
  next
    case True
    then obtain fc' tp where d: "rc" "get_details (packets E) packet = Inr (False, fc', tp)" by blast
    let ?path = "local_path n (filePath fc')"
    obtain m fs1 f fs2 where w: "acquireDirectories (disk n) ?path = Inr (m, fs1)" "open_write fs1 ?path = (f, fs2)"
      using assms r d by (auto simp: negotiateTCPTransfer_def send_udp_def split_def Let_def lift_result_def
          run_bind_Inr_iff lp) (metis prod.collapse)
    obtain f' n3 where "Node_receiveFile E f (snd (startClient E sender tp (?n1\<lparr>disk := fs2\<rparr>))) = Some (Inr (f', n3))"
      "n' = n3\<lparr>disk := close_write (disk n3) ?path f'\<rparr>"
      using assms r d w by (auto simp: negotiateTCPTransfer_def send_udp_def split_def Let_def lift_result_def
          run_bind_Inr_iff lp)
    moreover from this(1) Node_receiveFile_node obtain c where
      "n3 = (snd (startClient E sender tp (?n1\<lparr>disk := fs2\<rparr>)))\<lparr>tcpClient := c\<rparr>" by blast
    ultimately have "n' = n\<lparr>opened := opened n + 1, udp := ?u, tcpClient := c, disk := close_write fs2 ?path f'\<rparr>"
      by (simp add: startClient_def split_def Let_def)
    with r d w show thesis by (intro that(2)) auto
  qed
qed

lemma negotiate_same_node:
  "negotiateTCPTransfer E prt fc pk server n = Some (Inr (b, n')) \<Longrightarrow> same_node n n' \<and> dirLocked n' = dirLocked n"
  by (erule negotiate_cases) (simp_all add: same_node_def)

lemma negotiate_frame:
  assumes "packet_laws (packets E) holds" "change_ok fc" "answered E (opened n) abandon fc server"
    and "negotiateTCPTransfer E 25565 fc pk server n = Some (Inr (b, n'))"
    and "\<nexists>r. q = resolve (local_path n (filePath fc)) @ r"
  shows "file_at (disk n') q = file_at (disk n) q"
  using assms(4)
proof (cases rule: negotiate_cases)
  case (2 packet sender sp con fc' tp m fs1 f fs2 f' c u)
  with assms(3) have "packet = packet_arrived (packets E) (put_details (packets E) abandon fc 45016)"
    by (auto simp: answered_def)
  with 2(2) packet_laws.details_arrive [OF assms(1,2)] have fc: "fc' = fc" by simp
  have "file_at (disk n') q = file_at fs2 q" using 2(5) close_write_frame assms(5) fc by simp
  also have "\<dots> = file_at fs1 q" using open_write_frame [OF 2(4)] assms(5) fc by simp
  also have "\<dots> = file_at (disk n) q"
    using create_dirs_files [OF 2(3) [unfolded acquireDirectories_def]] by simp
  finally show ?thesis .
qed simp

text \<open>The iterations of \<open>requestFiles\<close>.\<close>

lemma unlocked_update: "\<not> dirLocked n \<Longrightarrow> n\<lparr>dirLocked := False\<rparr> = n"
  by (cases n) simp

lemma request_file_cases:
  assumes "request_file E server fc n = Some (Inr n')"
  obtains b fs where "\<not> dirLocked n" "change fc = Deletion"
      "deleteFile (disk n) (local_path n (filePath fc)) = Inr (b, fs)" "n' = n\<lparr>disk := fs\<rparr>"
  | "\<not> dirLocked n" "change fc \<noteq> Deletion" "already_have E n fc = Inr True" "n' = n"
  | b n2 where "\<not> dirLocked n" "change fc \<noteq> Deletion" "already_have E n fc = Inr False"
      "negotiateTCPTransfer E 25565 fc (put_request (packets E) fc 25565) server (n\<lparr>dirLocked := True\<rparr>) = Some (Inr (b, n2))"
      "n' = n2\<lparr>dirLocked := False\<rparr>"
proof -
  have lp: "local_path (n\<lparr>dirLocked := True\<rparr>) q = local_path n q" for q
    by (simp add: local_path_def)
  have ah: "already_have E (n\<lparr>dirLocked := True\<rparr>) fc = already_have E n fc"
    by (simp add: already_have_def lp cong: if_cong)
  show thesis
    using assms that
    by (auto simp: request_file_def lock_dirLock_def unlock_dirLock_def lift_result_def run_bind_Inr_iff lp ah
        unlocked_update split: if_splits fileChangeType.splits)
qed

lemma request_file_keeps:
  assumes "request_file E server fc n = Some (Inr n')"
  shows "same_node n n' \<and> \<not> dirLocked n'"
  using assms
proof (cases rule: request_file_cases)
  case (3 b n2)
  from negotiate_same_node [OF 3(4)] 3(5) show ?thesis by (simp add: same_node_def)
qed (simp_all add: same_node_def)

lemma requestFiles_keeps:
  "requestFiles E fcs server n = Some (Inr n') \<Longrightarrow> same_node n n' \<and> (dirLocked n' \<longrightarrow> dirLocked n)"
proof (induction fcs arbitrary: n)
  case (Cons fc fcs)
  then obtain n1 where "request_file E server fc n = Some (Inr n1)" "requestFiles E fcs server n1 = Some (Inr n')"
    by (auto simp: run_bind_Inr_iff)
  with Cons.IH [OF this(2)] request_file_keeps [OF this(1)] same_node_trans show ?case by blast
qed simp

end
