(* ===== verification/Initial_Sync.thy ===== *)
theory Initial_Sync
  imports Node_Sync
begin

text \<open>
  The first synchronisation of a newcomer whose folder is empty: the table another node
  answers with becomes a list of requests, one for every file of that node, and when they
  have all been served the two folders hold the same files.
\<close>

section \<open>The paths of a folder's files are apart\<close>

lemma files_apart:
  assumes "node_at t cs = Some (File a)" "node_at t ds = Some (File b)" "cs \<noteq> ds"
  shows "apart cs ds"
proof -
  have aux: "take k p \<noteq> q" if "node_at t p = Some (File a)" "node_at t q = Some (File b)" "p \<noteq> q" for k p q a b
  proof
    assume q: "take k p = q"
    then have "p = q @ drop k p" by (metis append_take_drop_id)
    moreover from this that(3) have "drop k p \<noteq> []" by auto
    ultimately show False using node_below_file [OF that(2)] that(1) by (metis option.distinct(1))
  qed
  from aux [OF assms] aux [OF assms(2,1) assms(3) [symmetric]] show ?thesis by (simp add: apart_def)
qed

lemma apart_append: "apart cs ds \<Longrightarrow> apart (root @ cs) (root @ ds)"
proof -
  have aux: "take k (root @ p) \<noteq> root @ q" if "\<forall>k. take k p \<noteq> q" "\<forall>k. take k q \<noteq> p" for k p q
  proof
    assume e: "take k (root @ p) = root @ q"
    show False
    proof (cases "length root \<le> k")
      case True
      with e that(1) show False by simp
    next
      case False
      with e have "take k root = root @ q" by simp
      then have "length (take k root) = length root + length q" by (metis length_append)
      with False show False by simp
    qed
  qed
  show "apart cs ds \<Longrightarrow> ?thesis" using aux [of cs ds] aux [of ds cs] by (simp add: apart_def)
qed

section \<open>The requests of an empty folder\<close>

definition addition_of :: "wstring \<times> u64 \<Rightarrow> fileChangeData" where
  "addition_of e = \<lparr>filePath = fst e, fileHash = snd e, change = Addition\<rparr>"

lemma requested_by_empty:
  assumes "map_ok table"
  shows "requested_changes [] table False = map addition_of table"
proof -
  have "compare_entry [] table (fst e) = [addition_of e]" if "e \<in> set table" for e
  proof -
    from that assms have "map_find table (fst e) = Some (snd e)" by (simp add: map_find_in_set)
    then show ?thesis by (simp add: compare_entry_def map_count_def map_index_present addition_of_def)
  qed
  then have "map (\<lambda>e. compare_entry [] table (fst e)) table = map (\<lambda>e. [addition_of e]) table" by simp
  then have "getDirectoryChanges_tables [] table = concat (map (\<lambda>e. [addition_of e]) table)"
    unfolding getDirectoryChanges_tables_def by metis
  also have "\<dots> = map addition_of table" by (induction table) simp_all
  finally have eq: "getDirectoryChanges_tables [] table = map addition_of table" .
  show ?thesis
    unfolding requested_changes_eq eq
    by (rule survivors_keep_all) (auto simp: unwanted_def addition_of_def)
qed

text \<open>What the remote node has at a path of its table.\<close>

definition content_at :: "fsnode \<Rightarrow> wstring \<Rightarrow> wstring \<Rightarrow> bytes" where
  "content_at fs d k = (case file_at fs (resolve (d @ k)) of None \<Rightarrow> [] | Some bs \<Rightarrow> bs)"

definition request_of :: "fsnode \<Rightarrow> wstring \<Rightarrow> wstring \<times> u64 \<Rightarrow> file_request" where
  "request_of fs d e = \<lparr>rq_change = addition_of e, rq_names = components (fst e), rq_content = content_at fs d (fst e)\<rparr>"

lemma components_join_only: "names_ok cs \<Longrightarrow> components (join cs) = cs"
  using components_join [of cs "[]"] by simp

section \<open>Filling the folder\<close>

text \<open>The two folders: that of the remote node, with the table it computes, and the empty one of
  the newcomer.\<close>

definition remote_folder :: "wstring option \<Rightarrow> fsnode \<Rightarrow> wstring \<Rightarrow> hash_table \<Rightarrow> bool" where
  "remote_folder usr fs d table \<longleftrightarrow> tree_ok fs \<and> dir_path d \<and> under_documents usr d \<and> dir_at fs (resolve d) \<and>
     CreateFileHashes usr fs d = Inr table \<and> paths_ok table \<and>
     (\<forall>p b. file_at fs p = Some b \<longrightarrow> length b < 2 ^ 32)"

definition empty_folder :: "('u, 's, 'l, 'p) machine \<Rightarrow> bool" where
  "empty_folder n \<longleftrightarrow> dir_path (directory n) \<and> fileHashes n = [] \<and> \<not> dirLocked n \<and>
     node_at (disk n) (resolve (directory n)) = Some (Dir [])"

lemma table_entry:
  assumes "remote_folder usr fs d table" "e \<in> set table"
  shows "\<exists>cs b. fst e = join cs \<and> names_ok cs \<and> cs \<noteq> [] \<and> file_at fs (resolve d @ cs) = Some b \<and>
    content_at fs d (fst e) = b \<and> components (fst e) = cs"
proof -
  from assms(1) obtain es where d: "tree_ok fs" "dir_path d" "under_documents usr d"
    "node_at fs (resolve d) = Some (Dir es)" "CreateFileHashes usr fs d = Inr table"
    by (auto simp: remote_folder_def dir_at_iff)
  from CreateFileHashes_find [OF d(1-4)] d(5) have ok: "map_ok table" and
    f: "\<And>k h. map_find table k = Some h \<Longrightarrow> \<exists>cs bs. k = join cs \<and> node_at (Dir es) cs = Some (File bs)" by auto
  from ok assms(2) have "map_find table (fst e) = Some (snd e)" by (simp add: map_find_in_set)
  from f [OF this] obtain cs b where cs: "fst e = join cs" "node_at (Dir es) cs = Some (File b)" by blast
  have "tree_ok (Dir es)" using d(1,4) by (rule node_at_tree_ok)
  then have names: "names_ok cs" using cs(2) set_file_paths names_ok_file_paths by blast
  have fl: "file_at fs (resolve d @ cs) = Some b" using cs(2) d(4) by (simp add: file_at_iff node_at_append)
  moreover have "content_at fs d (fst e) = b" using fl cs(1) resolve_join [OF names] by (simp add: content_at_def)
  moreover have "cs \<noteq> []" using cs(2) by auto
  ultimately show ?thesis using cs(1) names components_join_only [OF names] by auto
qed

lemma table_covers:
  assumes "remote_folder usr fs d table" "file_at fs (resolve d @ cs) = Some b"
  shows "\<exists>e \<in> set table. components (fst e) = cs \<and> content_at fs d (fst e) = b"
proof -
  from assms(1) obtain es where d: "tree_ok fs" "dir_path d" "under_documents usr d"
    "node_at fs (resolve d) = Some (Dir es)" "CreateFileHashes usr fs d = Inr table"
    by (auto simp: remote_folder_def dir_at_iff)
  from assms(2) d(4) have cs: "node_at (Dir es) cs = Some (File b)" by (simp add: file_at_iff node_at_append)
  have "tree_ok (Dir es)" using d(1,4) by (rule node_at_tree_ok)
  then have names: "names_ok cs" using cs set_file_paths names_ok_file_paths by blast
  from CreateFileHashes_find [OF d(1-4)] d(5) getFileHash_under [OF d(3), of fs] cs have ok: "map_ok table"
    and "map_find table (join cs) = Some (hash_at usr fs (d @ join cs))" by auto
  then have "(join cs, hash_at usr fs (d @ join cs)) \<in> set table" by (simp add: map_find_in_set)
  moreover have "content_at fs d (join cs) = b"
    using assms(2) resolve_join [OF names] by (simp add: content_at_def)
  ultimately show ?thesis using components_join_only [OF names] by force
qed

lemma map_of_requests:
  assumes "remote_folder usr fs d table"
  shows "map_of (map (\<lambda>e. (root @ components (fst e), content_at fs d (fst e))) table) (root @ cs) =
    file_at fs (resolve d @ cs)"
proof (cases "file_at fs (resolve d @ cs)")
  case None
  then have "root @ cs \<notin> fst ` set (map (\<lambda>e. (root @ components (fst e), content_at fs d (fst e))) table)"
  proof -
    have "components (fst e) \<noteq> cs" if "e \<in> set table" for e
      using table_entry [OF assms that] None by auto
    then show ?thesis by fastforce
  qed
  then have "map_of (map (\<lambda>e. (root @ components (fst e), content_at fs d (fst e))) table) (root @ cs) = None"
    by (simp only: map_of_eq_None_iff not_False_eq_True)
  then show ?thesis using None by simp
next
  case (Some b)
  have same: "content_at fs d (fst e) = b" if "e \<in> set table" "components (fst e) = cs" for e
    using table_entry [OF assms that(1)] that(2) Some by auto
  from table_covers [OF assms Some] obtain e where "e \<in> set table" "components (fst e) = cs" by blast
  then have "root @ cs \<in> fst ` set (map (\<lambda>e. (root @ components (fst e), content_at fs d (fst e))) table)" by force
  then have "map_of (map (\<lambda>e. (root @ components (fst e), content_at fs d (fst e))) table) (root @ cs) \<noteq> None"
    by (simp only: map_of_eq_None_iff not_not)
  then obtain c where c: "map_of (map (\<lambda>e. (root @ components (fst e), content_at fs d (fst e))) table) (root @ cs) = Some c"
    by blast
  from map_of_SomeD [OF this] same have "c = b" by auto
  with c Some show ?thesis by simp
qed

lemma requests_apart:
  assumes "remote_folder usr fs d table"
  shows "sorted_wrt apart (map (\<lambda>e. root @ components (fst e)) table)"
proof -
  have ok: "map_ok table" using assms map_ok_CreateFileHashes by (auto simp: remote_folder_def)
  have "apart (root @ components (fst (table ! i))) (root @ components (fst (table ! j)))"
    if "i < j" "j < length table" for i j
  proof -
    from that have "table ! i \<in> set table" "table ! j \<in> set table" by simp_all
    obtain cs b where i: "fst (table ! i) = join cs" "file_at fs (resolve d @ cs) = Some b"
      "components (fst (table ! i)) = cs" using table_entry [OF assms \<open>table ! i \<in> set table\<close>] by blast
    obtain ds c where j: "fst (table ! j) = join ds" "file_at fs (resolve d @ ds) = Some c"
      "components (fst (table ! j)) = ds" using table_entry [OF assms \<open>table ! j \<in> set table\<close>] by blast
    have "distinct (map fst table)" using ok by (rule map_ok_distinct)
    with that have "fst (table ! i) \<noteq> fst (table ! j)" by (simp add: distinct_conv_nth)
    with i(1) j(1) have "cs \<noteq> ds" by auto
    obtain m where m: "node_at fs (resolve d) = Some m"
      using i(2) by (auto simp: file_at_iff node_at_append split: option.splits)
    with i(2) j(2) have "node_at m cs = Some (File b)" "node_at m ds = Some (File c)"
      by (simp_all add: file_at_iff node_at_append)
    from files_apart [OF this \<open>cs \<noteq> ds\<close>] i(3) j(3) show ?thesis by (simp add: apart_append)
  qed
  then show ?thesis by (simp add: sorted_wrt_iff_nth_less)
qed

lemma empty_below:
  assumes "node_at fs root = Some (Dir [])" "cs \<noteq> []"
  shows "node_at fs (root @ cs) = None"
  using assms by (cases cs) (simp_all add: node_at_append)

lemma empty_place_ok:
  assumes "node_at fs root = Some (Dir [])" "cs \<noteq> []"
  shows "place_ok fs (root @ cs) \<and> file_at fs (root @ cs) = None"
proof -
  have none: "node_at fs (root @ cs) = None" using empty_below [OF assms] .
  have above: "dir_at fs (take k root)" for k
  proof (cases "drop k root = []")
    case True
    then show ?thesis using assms(1) by (simp add: dir_at_iff)
  next
    case False
    with assms(1) dir_above [of fs "take k root" "drop k root"] show ?thesis by simp
  qed
  have "file_at fs (take k (root @ cs)) = None" if "k < length (root @ cs)" for k
  proof (cases "k \<le> length root")
    case True
    with above [of k] not_file_and_dir show ?thesis by (cases "file_at fs (take k root)") auto
  next
    case False
    then have "take (k - length root) cs \<noteq> []" using assms(2) by simp
    from empty_below [OF assms(1) this] False show ?thesis by (simp add: file_at_def)
  qed
  moreover have "dir_at fs []" using above [of 0] by simp
  ultimately show ?thesis using none assms(2) by (simp add: place_ok_def node_at_None_iff)
qed

lemma requests_ok:
  assumes "remote_folder usr fs d table"
  shows "\<forall>r \<in> set (map (request_of fs d) table). request_ok r"
proof -
  have "request_ok (request_of fs d e)" if e: "e \<in> set table" for e
  proof -
    obtain cs b where cs: "fst e = join cs" "names_ok cs" "cs \<noteq> []" "file_at fs (resolve d @ cs) = Some b"
      "content_at fs d (fst e) = b" "components (fst e) = cs" using table_entry [OF assms e] by blast
    moreover have "length (fst e) < 2 ^ 32" "length b < 2 ^ 32"
      using assms e cs(4) by (auto simp: remote_folder_def paths_ok_def)
    ultimately show ?thesis
      by (simp add: request_ok_def request_of_def addition_of_def change_ok_def)
  qed
  then show ?thesis by simp
qed

text \<open>The network the newcomer finds: the remote node answers its requests in order, and each
  connection leads to a sender of the requested file.\<close>

definition served :: "('u, 's, 'l, 'p) platform \<Rightarrow> ('s \<Rightarrow> speer) \<Rightarrow> (speer \<Rightarrow> 's \<Rightarrow> 's) \<Rightarrow> fsnode \<Rightarrow> wstring \<Rightarrow>
    hash_table \<Rightarrow> IpAddress \<Rightarrow> ('u, 's, 'l, 'p) machine \<Rightarrow> bool" where
  "served E view put fs d table server n \<longleftrightarrow>
     (\<forall>i < length table. answered E (opened n + i) False (addition_of (table ! i)) server) \<and>
     connects (tcp E) view put (ip_toString E server) (map (\<lambda>e. content_at fs d (fst e)) table)
       (cl_socket (tcpClient n))"

lemma fill_empty_folder:
  assumes sock: "sender_socket (packets E) holds (tcp E) view put"
    and rem: "remote_folder usr fs d table" and loc: "empty_folder n"
    and net: "served E view put fs d table server n"
  shows "\<exists>n'. dealWithHashTable E table server False n = Some (Inr n') \<and> same_node n n' \<and> \<not> dirLocked n' \<and>
    (\<forall>cs. file_at (disk n') (resolve (directory n) @ cs) = file_at fs (resolve d @ cs)) \<and>
    (\<forall>q. (\<nexists>cs. q = resolve (directory n) @ cs) \<longrightarrow> file_at (disk n') q = file_at (disk n) q)"
proof -
  let ?root = "resolve (directory n)" and ?rs = "map (request_of fs d) table"
  let ?m = "map (\<lambda>e. (?root @ components (fst e), content_at fs d (fst e))) table"
  have ok: "map_ok table" using rem map_ok_CreateFileHashes by (auto simp: remote_folder_def)
  have l: "dir_path (directory n)" "fileHashes n = []" "\<not> dirLocked n" "node_at (disk n) ?root = Some (Dir [])"
    using loc by (simp_all add: empty_folder_def)
  have ans: "\<forall>i < length ?rs. answered E (opened n + i) False (rq_change (?rs ! i)) server"
    and cn: "connects (tcp E) view put (ip_toString E server) (map rq_content ?rs) (cl_socket (tcpClient n))"
    using net by (simp_all add: served_def request_of_def comp_def)
  have pl: "\<forall>r \<in> set ?rs. place_ok (disk n) (?root @ rq_names r) \<and> file_at (disk n) (?root @ rq_names r) = None"
  proof
    fix r
    assume "r \<in> set ?rs"
    then obtain e where e: "e \<in> set table" "r = request_of fs d e" by auto
    have "components (fst e) \<noteq> []" using table_entry [OF rem e(1)] by auto
    from empty_place_ok [OF l(4) this] e(2)
    show "place_ok (disk n) (?root @ rq_names r) \<and> file_at (disk n) (?root @ rq_names r) = None"
      by (simp add: request_of_def)
  qed
  have ap: "sorted_wrt apart (map (\<lambda>r. ?root @ rq_names r) ?rs)"
    using requests_apart [OF rem, of ?root] by (simp add: request_of_def comp_def)
  from requestFiles_receives [OF sock requests_ok [OF rem] ans cn pl ap l(1,3)] obtain n' where
    n': "requestFiles E (map rq_change ?rs) server n = Some (Inr n')" "same_node n n'" "\<not> dirLocked n'"
    "file_at (disk n') = file_at (disk n) ++ map_of (map (\<lambda>r. (?root @ rq_names r, rq_content r)) ?rs)" by blast
  have m: "map (\<lambda>r. (?root @ rq_names r, rq_content r)) ?rs = ?m" by (simp add: request_of_def comp_def)
  have "map rq_change ?rs = requested_changes (fileHashes n) table False"
    using requested_by_empty [OF ok] l(2) by (simp add: request_of_def comp_def)
  then have "dealWithHashTable E table server False n = Some (Inr n')"
    using n'(1) by (simp add: dealWithHashTable_def)
  moreover have "file_at (disk n') (?root @ cs) = file_at fs (resolve d @ cs)" for cs
  proof -
    have "file_at (disk n) (?root @ cs) = None"
      using l(4) empty_below [OF l(4), of cs] by (cases cs) (simp_all add: file_at_def)
    with map_of_requests [OF rem, of ?root cs] show ?thesis
      unfolding n'(4) m by (simp add: map_add_def split: option.split)
  qed
  moreover have "file_at (disk n') q = file_at (disk n) q" if "\<nexists>cs. q = ?root @ cs" for q
  proof -
    from that have "map_of ?m q = None" by (auto simp: map_of_eq_None_iff)
    then show ?thesis unfolding n'(4) m by (simp add: map_add_def)
  qed
  ultimately show ?thesis using n'(2,3) by blast
qed

section \<open>The table in the answer to an arrival\<close>

lemma table_packet_fields: "table_packet P pid t = put_all P (Uint8 pid # table_fields t) (packet_new P)"
  by (simp add: table_packet_def put_hashTable_fields put_all_def)

context packet_laws
begin

lemma table_packet_arrives:
  assumes "paths_ok t" "map_ok t"
  shows "\<exists>p1 p2. get_u8 P (packet_arrived P (table_packet P pid t)) = Inr (pid, p1) \<and>
    get_hashTable P p1 [] = Inr (if length t < 65536 then t else take (length t mod 65536) t, p2)"
proof -
  have "holds (packet_arrived P (table_packet P pid t)) (Uint8 pid # table_fields t) (Uint8 pid # table_fields t)"
    unfolding table_packet_fields using table_fields_ok [OF assms(1)] by (intro holds_sent) simp
  from get_u8_holds [OF this] obtain p1 where 1: "get_u8 P (packet_arrived P (table_packet P pid t)) = Inr (pid, p1)"
    "holds p1 (Uint8 pid # table_fields t) (table_fields t)" by blast
  from get_hashTable_holds [OF 1(2), of "[]"] 1(1) map_rebuild [OF map_ok_take [OF assms(2)]] map_rebuild [OF assms(2)]
  show ?thesis by (cases "length t < 65536") auto
qed

end

end
