(* ===== verification/Sample_Network.thy ===== *)
theory Sample_Network
  imports Initial_Sync
begin

text \<open>
  A concrete network for a node: packets in their wire format, a client socket whose
  connections lead to a queue of senders, a server socket with a receiver behind it, and
  UDP sockets that are given the datagrams they receive. It shows that the hypotheses on
  the platform can be met.
\<close>

section \<open>A client socket with senders behind it\<close>

definition queue_api :: "'p packet_api \<Rightarrow> IpAddress \<Rightarrow> (speer \<times> speer list, 'p) tcp_api" where
  "queue_api P ip =
     \<lparr>tcp_connect = (\<lambda>_ _ _ (s, q). case q of [] \<Rightarrow> (Error, (s, [])) | v # q' \<Rightarrow> (Done, (v, q'))),
      tcp_send_raw = (\<lambda>_ s. (Error, s)), tcp_receive_raw = (\<lambda>_ s. (Error, [], s)),
      tcp_send = (\<lambda>p (s, q). case speer_take P p s of (st, v) \<Rightarrow> (st, (v, q))),
      tcp_receive = (\<lambda>(s, q). case speer_give P s of (st, p, v) \<Rightarrow> (st, p, (v, q))),
      tcp_remote = (\<lambda>_. ip)\<rparr>"

interpretation wire_queue: sender_socket wire_api wire_holds "queue_api wire_api ip" fst "\<lambda>v s. (v, snd s)" for ip
  by unfold_locales (simp_all add: queue_api_def split: prod.split)

lemma queue_connects:
  "connects (queue_api P ip) fst (\<lambda>v s. (v, snd s)) host bss (v, map fresh_speer bss)"
  by (induction bss arbitrary: v) (simp_all add: queue_api_def)

section \<open>UDP sockets\<close>

type_synonym datagrams = "(wire_packet \<times> IpAddress \<times> u16) list"

definition inbox_api :: "(datagrams, wire_packet) udp_api" where
  "inbox_api =
     \<lparr>udp_bind = (\<lambda>_ u. (Done, u)), udp_send = (\<lambda>_ _ _ u. (Done, u)),
      udp_receive = (\<lambda>u. case u of
        [] \<Rightarrow> (NotReady, (packet_new wire_api, IpAddress_None, 0), []) | m # ms \<Rightarrow> (Done, m, ms))\<rparr>"

definition peer_ip :: IpAddress where
  "peer_ip = IpAddress 7 True"

definition host_string :: "IpAddress \<Rightarrow> bytes" where
  "host_string ip = [ucast (m_address ip)]"

section \<open>Platforms\<close>

text \<open>\<open>answers\<close> are the packets that answer the requests of a client, in their order.\<close>

definition client_platform :: "wire_packet list \<Rightarrow> (datagrams, speer \<times> speer list, unit, wire_packet) platform" where
  "client_platform answers =
     \<lparr>packets = wire_api, tcp = queue_api wire_api peer_ip,
      listeners = \<lparr>listener_listen = (\<lambda>_ l. (Done, l)), listener_accept = (\<lambda>l. (Error, (fresh_speer [], []), l))\<rparr>,
      udps = inbox_api,
      udp_new = (\<lambda>k. if k < length answers then [(packet_arrived wire_api (answers ! k), peer_ip, 45773)] else []),
      ip_toString = host_string, localAddress = IpAddress 1 True, broadcastAddress = IpAddress 255 True,
      user = sample_usr\<rparr>"

definition server_platform :: "(datagrams, wire_packet rpeer, unit, wire_packet) platform" where
  "server_platform =
     \<lparr>packets = wire_api, tcp = rpeer_api wire_api peer_ip,
      listeners = \<lparr>listener_listen = (\<lambda>_ l. (Done, l)), listener_accept = (\<lambda>l. (Done, fresh_rpeer, l))\<rparr>,
      udps = inbox_api, udp_new = (\<lambda>_. []),
      ip_toString = host_string, localAddress = IpAddress 1 True, broadcastAddress = IpAddress 255 True,
      user = sample_usr\<rparr>"

section \<open>Machines\<close>

definition sample_machine :: "'s \<Rightarrow> datagrams \<Rightarrow> fsnode \<Rightarrow> hash_table \<Rightarrow> (datagrams, 's, unit, wire_packet) machine" where
  "sample_machine s u fs table =
     \<lparr>tcpServer = \<lparr>clients = [], srv_todo = [], listener = ()\<rparr>, tcpClient = \<lparr>cl_socket = s, cl_todo = []\<rparr>,
      udp = u, udpPort = 45773, directory = getDocumentsPath sample_usr, todoUdp = [], fileHashes = table,
      tableManagerMessage = None, receivedTable = False,
      disk = fs, changeBuf = [], dirLocked = False, opened = 0\<rparr>"

text \<open>A disk on which the documents folder is empty.\<close>

definition empty_disk :: fsnode where
  "empty_disk = Dir [(wide ''C:'', Dir [(wide ''Users'', Dir [(wide ''u'', Dir [(wide ''Documents'', Dir [])])])])]"

definition sample_hash :: u64 where
  "sample_hash = hash_at sample_usr (sample_fs [72]) sample_path"

definition sample_table :: hash_table where
  "sample_table = [(sample_rel, sample_hash)]"

lemma sample_documents: "resolve (getDocumentsPath sample_usr) = [wide ''C:'', wide ''Users'', wide ''u'', wide ''Documents'']"
  by code_simp

lemma sample_dir_path: "dir_path (getDocumentsPath sample_usr)"
  by code_simp

lemma sample_rel_join: "sample_rel = join [wide ''S'', wide ''a'']"
  by code_simp

lemma sample_names_ok: "names_ok [wide ''S'', wide ''a'']"
  by code_simp

lemma sample_create: "CreateFileHashes sample_usr (sample_fs [72]) (getDocumentsPath sample_usr) = Inr sample_table"
  unfolding sample_table_def sample_hash_def by code_simp

lemma sample_remote: "remote_folder sample_usr (sample_fs [72]) (getDocumentsPath sample_usr) sample_table"
proof -
  have ok: "tree_ok (sample_fs [72])" by code_simp
  have "length b < 2 ^ 32" if "file_at (sample_fs [72]) p = Some b" for p b
  proof -
    from that set_file_paths [OF ok] have "p \<in> set (file_paths (sample_fs [72]))" by (auto simp: file_at_iff)
    then have "p = [wide ''C:'', wide ''Users'', wide ''u'', wide ''Documents'', wide ''S'', wide ''a'']"
      by (simp add: sample_fs_def sample_fs_for_def)
    with that have "b = [72]" by (simp add: file_at_iff sample_fs_def sample_fs_for_def)
    then show ?thesis by simp
  qed
  moreover have "dir_at (sample_fs [72]) (resolve (getDocumentsPath sample_usr))"
    by (simp add: sample_documents dir_at_iff sample_fs_def sample_fs_for_def)
  moreover have "paths_ok sample_table" using sample_rel_length by (simp add: paths_ok_def sample_table_def)
  ultimately show ?thesis
    using ok sample_dir_path sample_create by (simp add: remote_folder_def under_documents_def)
qed

lemma sample_empty_folder: "empty_folder (sample_machine s u empty_disk [])"
  by (simp add: empty_folder_def sample_machine_def sample_dir_path sample_documents empty_disk_def)

lemma sample_answered:
  assumes "k < length ans" "ans ! k = put_details wire_api abandon fc 45016"
  shows "answered (client_platform ans) k abandon fc peer_ip"
  using assms by (simp add: answered_def client_platform_def Udp_receive_def Udp_bind_def inbox_api_def)

definition sample_change :: fileChangeData where
  "sample_change = \<lparr>filePath = sample_rel, fileHash = sample_hash, change = Addition\<rparr>"

lemma sample_change_ok: "change_ok sample_change"
  using sample_rel_length by (simp add: change_ok_def sample_change_def)

lemma sample_change_sel [simp]:
  "filePath sample_change = sample_rel" "fileHash sample_change = sample_hash" "change sample_change = Addition"
  by (simp_all add: sample_change_def)

lemma sample_machine_sel [simp]:
  "directory (sample_machine s u fs t) = getDocumentsPath sample_usr" "disk (sample_machine s u fs t) = fs"
  "fileHashes (sample_machine s u fs t) = t" "opened (sample_machine s u fs t) = 0"
  "\<not> dirLocked (sample_machine s u fs t)" "udpPort (sample_machine s u fs t) = 45773"
  "cl_socket (tcpClient (sample_machine s u fs t)) = s" "udp (sample_machine s u fs t) = u"
  "clients (tcpServer (sample_machine s u fs t)) = []" "todoUdp (sample_machine s u fs t) = []"
  by (simp_all add: sample_machine_def)

lemma client_platform_sel [simp]:
  "packets (client_platform ans) = wire_api" "tcp (client_platform ans) = queue_api wire_api peer_ip"
  "udps (client_platform ans) = inbox_api"
  by (simp_all add: client_platform_def)

lemma sample_served:
  "served (client_platform [put_details wire_api False sample_change 45016]) fst (\<lambda>v s. (v, snd s))
     (sample_fs [72]) (getDocumentsPath sample_usr) sample_table peer_ip
     (sample_machine (fresh_speer [], [fresh_speer [72]]) u fs table)"
proof -
  have "content_at (sample_fs [72]) (getDocumentsPath sample_usr) sample_rel = [72]"
    using sample_open [of "[72]"] by (simp add: content_at_def sample_path_def open_read_file_at)
  moreover have "addition_of (sample_rel, sample_hash) = sample_change"
    by (simp add: addition_of_def sample_change_def)
  ultimately show ?thesis
    using sample_answered [of 0 "[put_details wire_api False sample_change 45016]" False sample_change]
      queue_connects [of wire_api peer_ip _ "[[72]]"]
    by (simp add: served_def sample_table_def sample_machine_def)
qed

end
