(* ===== verification/Node_Claims.thy ===== *)
theory Node_Claims
  imports Sample_Network
begin

text \<open>
  The properties of the node: synchronisation of a newcomer, fetching, serving and deleting
  single files, what a request can touch, and the handling of the datagrams that carry all
  this. The witnesses run on the network of Sample\_Network.
\<close>

section \<open>Synchronisation\<close>

text \<open>C2 The first synchronisation: a newcomer with an empty shared folder whose table manager gets
  the hash table of another node, sent in answer to its arrival, requests every file of
  that node; when the requests are answered and the files sent, the two shared folders
  hold exactly the same files, in the same places and with the same content, nothing
  outside the folder has changed, and the lock is free.\<close>

theorem newcomer_initial_sync:
  assumes "sender_socket (packets E) holds (tcp E) view put"
    and "remote_folder usr fs d table" "length table < 65536"
    and "empty_folder n" "served E view put fs d table server n"
    and "receivedTable n" "tableManagerMessage n = Some \<lparr>
      msg_packet = packet_arrived (packets E) (table_packet (packets E) 1 table), msg_ip = server, msg_port = prt\<rparr>"
  shows "\<exists>n'. tableManager_round E n = Some (Inr n') \<and> \<not> receivedTable n' \<and> \<not> dirLocked n' \<and>
    (\<forall>cs. file_at (disk n') (resolve (directory n) @ cs) = file_at fs (resolve d @ cs)) \<and>
    (\<forall>q. (\<nexists>cs. q = resolve (directory n) @ cs) \<longrightarrow> file_at (disk n') q = file_at (disk n) q)"
proof -
  let ?n = "n\<lparr>receivedTable := False, tableManagerMessage := None\<rparr>"
  have ok: "map_ok table" "paths_ok table" using assms(2) map_ok_CreateFileHashes by (auto simp: remote_folder_def)
  from packet_laws.table_packet_arrives [OF sender_socket.axioms(1) [OF assms(1)] ok(2,1), of 1] assms(3)
  obtain p1 p2 where "get_u8 (packets E) (packet_arrived (packets E) (table_packet (packets E) 1 table)) = Inr (1, p1)"
    "get_hashTable (packets E) p1 [] = Inr (table, p2)" by auto
  then have r: "tableManager_round E n = dealWithHashTable E table server False ?n"
    using assms(6,7) by (simp add: tableManager_round_def lift_result_def)
  have "empty_folder ?n" "served E view put fs d table server ?n"
    using assms(4,5) by (simp_all add: empty_folder_def served_def)
  from fill_empty_folder [OF assms(1,2) this] show ?thesis unfolding r by (auto simp: same_node_def)
qed

theorem newcomer_initial_sync_witness:
  "\<exists>n'. tableManager_round (client_platform [put_details wire_api False sample_change 45016])
      ((sample_machine (fresh_speer [], [fresh_speer [72]]) [] empty_disk [])\<lparr>receivedTable := True,
        tableManagerMessage := Some \<lparr>msg_packet = packet_arrived wire_api (table_packet wire_api 1 sample_table),
          msg_ip = peer_ip, msg_port = 45773\<rparr>\<rparr>) = Some (Inr n') \<and>
    file_at (disk n') [wide ''C:'', wide ''Users'', wide ''u'', wide ''Documents'', wide ''S'', wide ''a''] = Some [72]"
proof -
  let ?E = "client_platform [put_details wire_api False sample_change 45016]"
  let ?n = "(sample_machine (fresh_speer [], [fresh_speer [72]]) [] empty_disk [])\<lparr>receivedTable := True,
      tableManagerMessage := Some \<lparr>msg_packet = packet_arrived wire_api (table_packet wire_api 1 sample_table),
        msg_ip = peer_ip, msg_port = 45773\<rparr>\<rparr>"
  have sock: "sender_socket (packets ?E) wire_holds (tcp ?E) fst (\<lambda>v s. (v, snd s))"
    using wire_queue.sender_socket_axioms by simp
  have served: "served ?E fst (\<lambda>v s. (v, snd s)) (sample_fs [72]) (getDocumentsPath sample_usr) sample_table peer_ip ?n"
    using sample_served by (simp add: served_def)
  have empty: "empty_folder ?n"
    using sample_empty_folder [of "(fresh_speer [], [fresh_speer [72]])" "[]"] by (simp add: empty_folder_def)
  from newcomer_initial_sync [OF sock sample_remote _ empty served, of 45773]
  obtain n' where n': "tableManager_round ?E ?n = Some (Inr n')"
    "\<forall>cs. file_at (disk n') (resolve (directory ?n) @ cs) =
       file_at (sample_fs [72]) (resolve (getDocumentsPath sample_usr) @ cs)"
    by (auto simp: sample_table_def)
  from n'(2) [THEN spec, of "[wide ''S'', wide ''a'']"] have
    "file_at (disk n') [wide ''C:'', wide ''Users'', wide ''u'', wide ''Documents'', wide ''S'', wide ''a''] = Some [72]"
    by (simp add: sample_documents sample_machine_def file_at_iff sample_fs_def sample_fs_for_def)
  with n'(1) show ?thesis by blast
qed

section \<open>One file\<close>

text \<open>C4 Fetching one file: a request for a file the node does not have, answered by the server and
  followed by the transfer, ends with exactly the server's content at the requested path,
  every other file as it was, and the lock free.\<close>

theorem request_file_fetches:
  assumes "sender_socket (packets E) holds (tcp E) view put"
    and "change_ok fc" "filePath fc = join cs" "names_ok cs" "change fc \<noteq> Deletion"
    and "answered E (opened n) False fc server"
    and "tcp_connect (tcp E) (ip_toString E server) 45016 30 (cl_socket (tcpClient n)) = (st, s)"
    and "view s = fresh_speer bs" "length bs < 2 ^ 32"
    and "dir_path (directory n)" "place_ok (disk n) (resolve (directory n) @ cs)"
    and "\<not> dirLocked n" "already_have E n fc = Inr False"
  shows "\<exists>n'. request_file E server fc n = Some (Inr n') \<and> \<not> dirLocked n' \<and>
    file_at (disk n') = (file_at (disk n))(resolve (directory n) @ cs \<mapsto> bs)"
  using request_file_receives [OF assms(1,2,6,3,4,7,8,9,10,11,5,12,13)] by blast

theorem request_file_fetches_witness:
  "\<exists>n'. request_file (client_platform [put_details wire_api False sample_change 45016]) peer_ip sample_change
      (sample_machine (fresh_speer [], [fresh_speer [1, 2]]) [] empty_disk []) = Some (Inr n') \<and>
    file_at (disk n') [wide ''C:'', wide ''Users'', wide ''u'', wide ''Documents'', wide ''S'', wide ''a''] = Some [1, 2]"
proof -
  let ?E = "client_platform [put_details wire_api False sample_change 45016]"
  let ?n = "sample_machine (fresh_speer [], [fresh_speer [1, 2]]) [] empty_disk []"
  have sock: "sender_socket (packets ?E) wire_holds (tcp ?E) fst (\<lambda>v s. (v, snd s))"
    using wire_queue.sender_socket_axioms by simp
  have fc: "filePath sample_change = join [wide ''S'', wide ''a'']" by (simp add: sample_change_def sample_rel_join)
  have root: "node_at (disk ?n) (resolve (directory ?n)) = Some (Dir [])"
    using sample_empty_folder [of "(fresh_speer [], [fresh_speer [1, 2]])" "[]"] by (simp add: empty_folder_def)
  from empty_place_ok [OF root, of "[wide ''S'', wide ''a'']"]
  have pl: "place_ok (disk ?n) (resolve (directory ?n) @ [wide ''S'', wide ''a''])"
    "file_at (disk ?n) (resolve (directory ?n) @ [wide ''S'', wide ''a'']) = None" by simp_all
  then have "already_have ?E ?n sample_change = Inr False"
    by (intro already_have_new [OF fc sample_names_ok]) (simp_all add: place_ok_def)
  then have "\<exists>n'. request_file ?E peer_ip sample_change ?n = Some (Inr n') \<and> \<not> dirLocked n' \<and>
      file_at (disk n') = (file_at (disk ?n))(resolve (directory ?n) @ [wide ''S'', wide ''a''] \<mapsto> [1, 2])"
    using pl(1) sample_answered [of 0 "[put_details wire_api False sample_change 45016]" False sample_change]
    by (intro request_file_fetches [OF sock sample_change_ok fc sample_names_ok, where st = Done and s = "(fresh_speer [1, 2], [])"])
      (simp_all add: sample_change_def sample_machine_def queue_api_def sample_dir_path)
  then show ?thesis by (auto simp: sample_machine_def sample_documents)
qed

text \<open>C9 The other side: a request that reaches a node with the file is answered, on the port the
  request names, with the same change, no abandon flag and port 45016, and the connection
  it then accepts is sent the whole content of the file.\<close>

theorem serve_request_delivers:
  assumes "packet_laws (packets E) holds" "tcp E = rpeer_api (packets E) ip" "change_ok fc"
    and "msg_packet msg = packet_arrived (packets E) (put_request (packets E) fc prt)"
    and "file_at (disk n) (resolve (local_path n (filePath fc))) = Some bs" "length bs < 2 ^ 32"
    and "map_ok (clients (tcpServer n))"
    and "listener_accept (listeners E) (listener (snd (Server_listen (listeners E) 45016 (tcpServer n)))) =
      (Done, fresh_rpeer, l')"
  shows "\<exists>n' s. serve_request E msg n = Some (Inr n') \<and>
    udp n' = snd (Udp_send (udps E) (put_details (packets E) False fc 45016) (msg_ip msg) prt (udp n)) \<and>
    map_find (clients (tcpServer n')) ip = Some (Some s) \<and> rp_done s \<and> out_data (rp_file s) = bs \<and>
    disk n' = disk n \<and> fileHashes n' = fileHashes n"
proof -
  let ?srv = "snd (Server_listen (listeners E) 45016 (tcpServer n))"
  have srv: "map_ok (clients ?srv)"
    using assms(7) by (simp add: Server_listen_def split: prod.split)
  from sendFile_to_rpeer [OF assms(1,6) srv assms(8), of ip] obtain srv' s where
    snd: "sendFile (packets E) (rpeer_api (packets E) ip) (listeners E) \<lparr>in_rest = bs, in_good = True\<rparr> ?srv = Some (Inr srv')"
    "map_find (clients srv') ip = Some (Some s)" "rp_done s" "out_data (rp_file s) = bs" by blast
  have ex: "fs_exists (disk n) (local_path n (filePath fc))" using assms(5) by (simp add: fs_exists_view)
  have fl: "open_ifstream (disk n) (local_path n (filePath fc)) = \<lparr>in_rest = bs, in_good = True\<rparr>"
    using assms(5) by (simp add: open_ifstream_def open_read_file_at)
  show ?thesis
    using snd
    by (simp add: serve_request_def lift_result_def assms(4) packet_laws.request_arrives [OF assms(1,3)] ex send_udp_def
        split_def Let_def fl Node_sendFile_def startTcpServer_def assms(2))
qed

theorem serve_request_delivers_witness:
  "\<exists>n' s. serve_request server_platform
      \<lparr>msg_packet = packet_arrived wire_api (put_request wire_api sample_change 25565), msg_ip = peer_ip, msg_port = 45773\<rparr>
      (sample_machine (fresh_rpeer :: wire_packet rpeer) [] (sample_fs [4, 5]) []) = Some (Inr n') \<and>
    map_find (clients (tcpServer n')) peer_ip = Some (Some s) \<and> out_data (rp_file s) = [4, 5]"
proof -
  let ?n = "sample_machine (fresh_rpeer :: wire_packet rpeer) [] (sample_fs [4, 5]) []"
  let ?msg = "\<lparr>msg_packet = packet_arrived wire_api (put_request wire_api sample_change 25565), msg_ip = peer_ip, msg_port = 45773\<rparr>"
  have "local_path ?n (filePath sample_change) = local_path ?n (join [wide ''S'', wide ''a''])"
    by (simp add: sample_change_def sample_rel_join)
  then have "file_at (disk ?n) (resolve (local_path ?n (filePath sample_change))) = Some [4, 5]"
    using local_path_names [OF sample_names_ok, of ?n]
    by (simp add: sample_machine_def sample_documents file_at_iff sample_fs_def sample_fs_for_def)
  then have "\<exists>n' s. serve_request server_platform ?msg ?n = Some (Inr n') \<and>
    udp n' = snd (Udp_send (udps server_platform) (put_details (packets server_platform) False sample_change 45016)
       (msg_ip ?msg) 25565 (udp ?n)) \<and>
    map_find (clients (tcpServer n')) peer_ip = Some (Some s) \<and> rp_done s \<and> out_data (rp_file s) = [4, 5] \<and>
    disk n' = disk ?n \<and> fileHashes n' = fileHashes ?n"
    by (intro serve_request_delivers [where holds = wire_holds and l' = "()"])
      (simp_all add: server_platform_def wire.packet_laws_axioms sample_change_ok sample_machine_def)
  then show ?thesis by blast
qed

text \<open>C40 A request the server abandons, because it does not have the file, costs the client nothing:
  its files, its table and its lock are as before.\<close>

theorem request_abandoned:
  assumes "packet_laws (packets E) holds" "change_ok fc" "change fc \<noteq> Deletion"
    and "answered E (opened n) True fc server" "\<not> dirLocked n" "already_have E n fc = Inr False"
  shows "\<exists>n'. request_file E server fc n = Some (Inr n') \<and> disk n' = disk n \<and> fileHashes n' = fileHashes n \<and>
    tcpClient n' = tcpClient n \<and> \<not> dirLocked n'"
  using request_file_abandoned [OF assms] by auto

theorem request_abandoned_witness:
  "\<exists>n'. request_file (client_platform [put_details wire_api True sample_change 45016]) peer_ip sample_change
      (sample_machine (fresh_speer [], [] :: speer list) [] empty_disk []) = Some (Inr n') \<and> disk n' = empty_disk"
proof -
  let ?E = "client_platform [put_details wire_api True sample_change 45016]"
  let ?n = "sample_machine (fresh_speer [], [] :: speer list) [] empty_disk []"
  have fc: "filePath sample_change = join [wide ''S'', wide ''a'']" by (simp add: sample_change_def sample_rel_join)
  have "already_have ?E ?n sample_change = Inr False"
    by (rule already_have_new [OF fc sample_names_ok])
      (simp_all add: sample_machine_def sample_documents empty_disk_def file_at_def dir_at_def)
  then have "\<exists>n'. request_file ?E peer_ip sample_change ?n = Some (Inr n') \<and> disk n' = disk ?n \<and>
      fileHashes n' = fileHashes ?n \<and> tcpClient n' = tcpClient ?n \<and> \<not> dirLocked n'"
    using sample_answered [of 0 "[put_details wire_api True sample_change 45016]" True sample_change]
    by (intro request_abandoned [where holds = wire_holds])
      (simp_all add: wire.packet_laws_axioms sample_change_ok)
  then show ?thesis by (auto simp: sample_machine_def)
qed

section \<open>What a request can touch\<close>



end
