(* ===== verification/Node_Threads.thy ===== *)
theory Node_Threads
  imports Node Wire_Packet
begin

text \<open>
  The threads of \<open>main\<close> and the objects they hand to each other: the discover thread
  allocates a \<open>UdpMessage\<close> and pushes its address on \<open>todoUdp\<close>, the handler pops it and
  either disposes of it or leaves it in \<open>tableManagerMessage\<close> for the table manager, which
  disposes of it. Each step below is what one thread does between two releases of a mutex.
  The model has the addresses and the heap, which the functions of \<open>Node\<close> leave out; what a
  thread does with the content of a message is there.
\<close>

section \<open>The heap\<close>

text \<open>A \<open>UdpMessage\<close> object points to a packet object of its own.\<close>

record udp_object =
  obj_packet :: "nat option"
  obj_ip :: IpAddress
  obj_port :: u16

record 'p heap =
  message_objects :: "nat \<rightharpoonup> udp_object"
  packet_objects :: "nat \<rightharpoonup> 'p"

text \<open>\<open>delete\<close> of an address that is not allocated, and reading from one, is undefined.\<close>

definition delete_packet :: "nat \<Rightarrow> 'p heap \<Rightarrow> 'p heap result" where
  "delete_packet a h =
     (if packet_objects h a = None then Inl Range_error
      else Inr (h\<lparr>packet_objects := (packet_objects h)(a := None)\<rparr>))"

definition delete_message :: "nat \<Rightarrow> 'p heap \<Rightarrow> 'p heap result" where
  "delete_message a h =
     (if message_objects h a = None then Inl Range_error
      else Inr (h\<lparr>message_objects := (message_objects h)(a := None)\<rparr>))"

definition disposeUdpMessage :: "nat option \<Rightarrow> 'p heap \<Rightarrow> 'p heap result" where
  "disposeUdpMessage message h =
     (case message of
        None \<Rightarrow> Inr h
      | Some a \<Rightarrow>
          (case message_objects h a of
             None \<Rightarrow> Inl Range_error
           | Some m \<Rightarrow>
               (case obj_packet m of
                  None \<Rightarrow> delete_message a h
                | Some p \<Rightarrow>
                    (case delete_packet p h of
                       Inl e \<Rightarrow> Inl e
                     | Inr h1 \<Rightarrow> delete_message a h1))))"

text \<open>\<open>*(message->packet)\<close>.\<close>

definition message_packet :: "nat \<Rightarrow> 'p heap \<Rightarrow> 'p result" where
  "message_packet a h =
     (case message_objects h a of
        None \<Rightarrow> Inl Range_error
      | Some m \<Rightarrow>
          (case obj_packet m of
             None \<Rightarrow> Inl Null_dereference
           | Some p \<Rightarrow> (case packet_objects h p of None \<Rightarrow> Inl Range_error | Some x \<Rightarrow> Inr x)))"

section \<open>The steps of the threads\<close>

text \<open>The members of \<open>Node\<close> that hold addresses, the local variables \<open>message\<close> of the
  handler and of the table manager, and the heap.\<close>

record 'p threads =
  heap :: "'p heap"
  todo :: "nat list"
  mailbox :: "nat option"
  received :: bool
  handler_message :: "nat option"
  manager_message :: "nat option"

definition threads_start :: "'p threads" where
  "threads_start =
     \<lparr>heap = \<lparr>message_objects = (\<lambda>_. None), packet_objects = (\<lambda>_. None)\<rparr>, todo = [],
      mailbox = None, received = False, handler_message = None, manager_message = None\<rparr>"

text \<open>The discover thread received a packet with another id than 0: \<open>a\<close> and \<open>p\<close> are the
  addresses \<open>new\<close> returns.\<close>

definition push_message :: "nat \<Rightarrow> nat \<Rightarrow> 'p \<Rightarrow> IpAddress \<Rightarrow> u16 \<Rightarrow> 'p threads \<Rightarrow> 'p threads" where
  "push_message a p packet ip port s =
     (let h = heap s;
          h1 = h\<lparr>message_objects := (message_objects h)(a \<mapsto> \<lparr>obj_packet = Some p, obj_ip = ip, obj_port = port\<rparr>),
                 packet_objects := (packet_objects h)(p \<mapsto> packet)\<rparr>
      in s\<lparr>heap := h1, todo := todo s @ [a]\<rparr>)"

text \<open>The handler: the part of \<open>handleUdp\<close> that holds \<open>queueMutex\<close>, and what it does with
  the address after the work for the message is done.\<close>

definition handler_take :: "'p threads \<Rightarrow> 'p threads" where
  "handler_take s =
     (case todo s of
        [] \<Rightarrow> s
      | message # rest \<Rightarrow> s\<lparr>todo := rest, handler_message := Some message\<rparr>)"

definition handler_finish :: "'p packet_api \<Rightarrow> 'p threads \<Rightarrow> 'p threads result" where
  "handler_finish P s =
     (case handler_message s of
        None \<Rightarrow> Inl Null_dereference
      | Some a \<Rightarrow>
          (case message_packet a (heap s) of
             Inl e \<Rightarrow> Inl e
           | Inr packet \<Rightarrow>
               (case getPacketID P packet of
                  Inl e \<Rightarrow> Inl e
                | Inr pid \<Rightarrow>
                    if pid = 1
                    then Inr (s\<lparr>received := True, mailbox := Some a, handler_message := None\<rparr>)
                    else (case disposeUdpMessage (Some a) (heap s) of
                            Inl e \<Rightarrow> Inl e
                          | Inr h \<Rightarrow> Inr (s\<lparr>heap := h, handler_message := None\<rparr>)))))"

text \<open>The table manager: under \<open>tableManagerMutex\<close>, and after it.\<close>

definition manager_take :: "'p threads \<Rightarrow> 'p threads" where
  "manager_take s =
     (if received s
      then s\<lparr>received := False, manager_message := mailbox s, mailbox := None\<rparr>
      else s)"

text \<open>It reads the packet of the message it took, which it does not test, and disposes of it.\<close>

definition manager_finish :: "bool \<Rightarrow> 'p threads \<Rightarrow> 'p threads result" where
  "manager_finish took s =
     (case (if took
            then (case manager_message s of
                    None \<Rightarrow> Inl Null_dereference
                  | Some a \<Rightarrow> (case message_packet a (heap s) of Inl e \<Rightarrow> Inl e | Inr _ \<Rightarrow> Inr ()))
            else Inr ()) of
        Inl e \<Rightarrow> Inl e
      | Inr _ \<Rightarrow>
          (case disposeUdpMessage (manager_message s) (heap s) of
             Inl e \<Rightarrow> Inl e
           | Inr h \<Rightarrow> Inr (s\<lparr>heap := h, manager_message := None\<rparr>)))"

text \<open>An interleaving of the three threads. A step that fails leads nowhere: that none does is
  a theorem below. A new object gets an address that is free.\<close>

inductive thread_step :: "'p packet_api \<Rightarrow> 'p threads \<Rightarrow> 'p threads \<Rightarrow> bool" for P where
  push: "message_objects (heap s) a = None \<Longrightarrow> packet_objects (heap s) p = None \<Longrightarrow>
     getPacketID P packet = Inr pid \<Longrightarrow> pid \<noteq> 0 \<Longrightarrow> thread_step P s (push_message a p packet ip port s)"
| h_take: "handler_message s = None \<Longrightarrow> thread_step P s (handler_take s)"
| h_finish: "handler_message s \<noteq> None \<Longrightarrow> handler_finish P s = Inr t \<Longrightarrow> thread_step P s t"
| m_take: "manager_message s = None \<Longrightarrow> thread_step P s (manager_take s)"
| m_finish: "manager_message s \<noteq> None \<Longrightarrow> manager_finish True s = Inr t \<Longrightarrow> thread_step P s t"

section \<open>Ownership\<close>

definition the_list :: "'a option \<Rightarrow> 'a list" where
  "the_list x = (case x of None \<Rightarrow> [] | Some a \<Rightarrow> [a])"

lemma the_list_simps [simp]: "the_list None = []" "the_list (Some a) = [a]"
  by (simp_all add: the_list_def)

text \<open>The addresses some thread or member still holds.\<close>

definition owned :: "'p threads \<Rightarrow> nat list" where
  "owned s = todo s @ the_list (handler_message s) @ the_list (mailbox s) @ the_list (manager_message s)"

definition live :: "'p packet_api \<Rightarrow> 'p heap \<Rightarrow> nat \<Rightarrow> bool" where
  "live P h a \<longleftrightarrow> (\<exists>m p x pid. message_objects h a = Some m \<and> obj_packet m = Some p \<and>
     packet_objects h p = Some x \<and> getPacketID P x = Inr pid)"

text \<open>Two messages never share a packet.\<close>

definition packets_apart :: "'p heap \<Rightarrow> bool" where
  "packets_apart h \<longleftrightarrow> (\<forall>a b m n. message_objects h a = Some m \<longrightarrow> message_objects h b = Some n \<longrightarrow>
     obj_packet m = obj_packet n \<longrightarrow> a = b)"

definition threads_inv :: "'p packet_api \<Rightarrow> 'p threads \<Rightarrow> bool" where
  "threads_inv P s \<longleftrightarrow> distinct (owned s) \<and> (\<forall>a. message_objects (heap s) a \<noteq> None \<longrightarrow> live P (heap s) a) \<and>
     set (owned s) \<subseteq> dom (message_objects (heap s)) \<and> packets_apart (heap s) \<and>
     (received s \<longleftrightarrow> mailbox s \<noteq> None)"

lemma threads_inv_start: "threads_inv P threads_start"
  by (simp add: threads_inv_def threads_start_def owned_def packets_apart_def)

text \<open>Disposing of a live message removes it and nothing else.\<close>

lemma dispose_live:
  assumes "live P h a" "packets_apart h"
  obtains h' where "disposeUdpMessage (Some a) h = Inr h'"
    "message_objects h' = (message_objects h)(a := None)"
    "\<And>b. b \<noteq> a \<Longrightarrow> live P h b \<Longrightarrow> live P h' b" "packets_apart h'"
proof -
  from assms(1) obtain m p x pid where m: "message_objects h a = Some m" "obj_packet m = Some p"
    "packet_objects h p = Some x" by (auto simp: live_def)
  define h' where "h' = h\<lparr>message_objects := (message_objects h)(a := None), packet_objects := (packet_objects h)(p := None)\<rparr>"
  have "disposeUdpMessage (Some a) h = Inr h'"
    using m by (simp add: disposeUdpMessage_def delete_packet_def delete_message_def h'_def)
  moreover have "live P h' b" if b: "b \<noteq> a" "live P h b" for b
  proof -
    from b obtain n q y pid' where n: "message_objects h b = Some n" "obj_packet n = Some q"
      "packet_objects h q = Some y" "getPacketID P y = Inr pid'" by (auto simp: live_def)
    with m b assms(2) have "q \<noteq> p" unfolding packets_apart_def by metis
    with n b show ?thesis by (auto simp: live_def h'_def)
  qed
  moreover have "packets_apart h'"
    using assms(2) by (simp add: packets_apart_def h'_def)
  ultimately show ?thesis using that by (simp add: h'_def)
qed

lemma message_packet_live:
  "live P h a \<Longrightarrow> \<exists>x pid. message_packet a h = Inr x \<and> getPacketID P x = Inr pid"
  by (auto simp: live_def message_packet_def)

lemma live_push:
  assumes "packet_objects h p = None" "message_objects h a = None" "live P h b"
  shows "live P (h\<lparr>message_objects := (message_objects h)(a \<mapsto> m), packet_objects := (packet_objects h)(p \<mapsto> x)\<rparr>) b"
proof -
  from assms(3) obtain n q y pid where n: "message_objects h b = Some n" "obj_packet n = Some q"
    "packet_objects h q = Some y" "getPacketID P y = Inr pid" by (auto simp: live_def)
  with assms(1,2) have "b \<noteq> a" "q \<noteq> p" by auto
  with n show ?thesis by (auto simp: live_def)
qed

lemma threads_inv_push:
  assumes "threads_inv P s" "message_objects (heap s) a = None" "packet_objects (heap s) p = None"
    "getPacketID P packet = Inr pid"
  shows "threads_inv P (push_message a p packet ip port s)"
proof -
  let ?s = "push_message a p packet ip port s"
  have live: "live P (heap s) b" if "message_objects (heap s) b \<noteq> None" for b
    using assms(1) that by (simp add: threads_inv_def)
  have "live P (heap ?s) b" if "message_objects (heap ?s) b \<noteq> None" for b
  proof (cases "b = a")
    case True
    then show ?thesis using assms(4) by (simp add: live_def push_message_def Let_def)
  next
    case False
    with that have "live P (heap s) b" by (intro live) (simp add: push_message_def Let_def)
    then show ?thesis using live_push assms(2,3) by (simp add: push_message_def Let_def)
  qed
  moreover have "packets_apart (heap ?s)"
    unfolding packets_apart_def
  proof (intro allI impI)
    fix b c m n
    assume m: "message_objects (heap ?s) b = Some m" and n: "message_objects (heap ?s) c = Some n"
      and eq: "obj_packet m = obj_packet n"
    have old: "obj_packet k \<noteq> Some p" if "message_objects (heap s) d = Some k" for d k
      using live [of d] that assms(3) by (auto simp: live_def)
    show "b = c"
      using m n eq assms(1) old unfolding threads_inv_def packets_apart_def
      by (auto simp: push_message_def Let_def split: if_splits) metis+
  qed
  moreover have "a \<notin> set (owned s)" using assms(1,2) by (auto simp: threads_inv_def)
  ultimately show ?thesis
    using assms(1) by (auto simp: threads_inv_def push_message_def Let_def owned_def)
qed

lemma threads_inv_handler_take:
  "threads_inv P s \<Longrightarrow> handler_message s = None \<Longrightarrow> threads_inv P (handler_take s)"
  by (auto simp: threads_inv_def handler_take_def owned_def split: list.split)

lemma threads_inv_manager_take:
  "threads_inv P s \<Longrightarrow> manager_message s = None \<Longrightarrow> threads_inv P (manager_take s)"
  by (auto simp: threads_inv_def manager_take_def owned_def)

text \<open>What the two finishing steps do in a state that satisfies the invariant: they succeed.\<close>

lemma handler_finish_ok:
  assumes inv: "threads_inv P s" and "handler_message s \<noteq> None"
  obtains t where "handler_finish P s = Inr t" "threads_inv P t"
proof -
  from assms(2) obtain a where a: "handler_message s = Some a" by blast
  have "live P (heap s) a" "packets_apart (heap s)"
    using inv a by (auto simp: threads_inv_def owned_def dom_def)
  moreover from message_packet_live [OF this(1)] obtain x pid where
    x: "message_packet a (heap s) = Inr x" "getPacketID P x = Inr pid" by blast
  ultimately obtain h where h: "disposeUdpMessage (Some a) (heap s) = Inr h"
    "message_objects h = (message_objects (heap s))(a := None)"
    "\<And>b. b \<noteq> a \<Longrightarrow> live P (heap s) b \<Longrightarrow> live P h b" "packets_apart h"
    using dispose_live by blast
  show ?thesis
  proof (cases "pid = 1")
    case True
    have "threads_inv P (s\<lparr>received := True, mailbox := Some a, handler_message := None\<rparr>)"
      using inv a by (auto simp: threads_inv_def owned_def)
    with that show ?thesis using a x True by (simp add: handler_finish_def)
  next
    case False
    have "threads_inv P (s\<lparr>heap := h, handler_message := None\<rparr>)"
      using inv a h by (auto simp: threads_inv_def owned_def)
    with that show ?thesis using a x h(1) False by (simp add: handler_finish_def)
  qed
qed

lemma manager_finish_ok:
  assumes inv: "threads_inv P s" and "manager_message s \<noteq> None"
  obtains t where "manager_finish True s = Inr t" "threads_inv P t"
proof -
  from assms(2) obtain a where a: "manager_message s = Some a" by blast
  have l: "live P (heap s) a" "packets_apart (heap s)"
    using inv a by (auto simp: threads_inv_def owned_def dom_def)
  with dispose_live obtain h where h: "disposeUdpMessage (Some a) (heap s) = Inr h"
    "message_objects h = (message_objects (heap s))(a := None)"
    "\<And>b. b \<noteq> a \<Longrightarrow> live P (heap s) b \<Longrightarrow> live P h b" "packets_apart h"
    by metis
  have "threads_inv P (s\<lparr>heap := h, manager_message := None\<rparr>)"
    using inv a h by (auto simp: threads_inv_def owned_def)
  moreover have "manager_finish True s = Inr (s\<lparr>heap := h, manager_message := None\<rparr>)"
    using message_packet_live [OF l(1)] a h(1) by (auto simp: manager_finish_def)
  ultimately show ?thesis using that by blast
qed

lemma threads_inv_step: "threads_inv P s \<Longrightarrow> thread_step P s t \<Longrightarrow> threads_inv P t"
proof (erule thread_step.cases)
  fix s' t' assume "threads_inv P s" "s = s'" "t = t'" "handler_message s' \<noteq> None" "handler_finish P s' = Inr t'"
  then show ?thesis by (metis handler_finish_ok sum.inject(2))
next
  fix s' t' assume "threads_inv P s" "s = s'" "t = t'" "manager_message s' \<noteq> None" "manager_finish True s' = Inr t'"
  then show ?thesis by (metis manager_finish_ok sum.inject(2))
qed (simp_all add: threads_inv_push threads_inv_handler_take threads_inv_manager_take)

interpretation threads: invariant_system "\<lambda>s. s = threads_start" "thread_step P" "threads_inv P" for P
  by unfold_locales (simp add: threads_inv_start, rule threads_inv_step)

section \<open>A run with two tables\<close>

text \<open>Two other nodes answer an arrival; the handler passes on the first table and has popped
  the second before the table manager looks.\<close>

definition table_wire :: wire_packet where
  "table_wire = packet_insert wire_api (packet_new wire_api) (Uint8 1)"

definition two_pushed :: "wire_packet threads" where
  "two_pushed = push_message 1 1 table_wire (IpAddress 2 True) 45773 (push_message 0 0 table_wire (IpAddress 1 True) 45773 threads_start)"

definition two_tables :: "wire_packet threads" where
  "two_tables =
     handler_take ((handler_take two_pushed)\<lparr>received := True, mailbox := Some 0, handler_message := None\<rparr>)"

lemma getPacketID_table: "getPacketID wire_api table_wire = Inr 1"
  by (simp add: table_wire_def getPacketID_def wire_api_def)

lemma two_pushed_simps:
  "todo two_pushed = [0, 1]" "handler_message two_pushed = None" "manager_message two_pushed = None"
  "mailbox two_pushed = None" "message_packet 0 (heap two_pushed) = Inr table_wire"
  "message_packet 1 (heap two_pushed) = Inr table_wire"
  by (simp_all add: two_pushed_def push_message_def threads_start_def message_packet_def Let_def)

lemma two_tables_simps:
  "todo two_tables = []" "handler_message two_tables = Some 1" "manager_message two_tables = None"
  "mailbox two_tables = Some 0" "message_packet 1 (heap two_tables) = Inr table_wire"
  using two_pushed_simps by (simp_all add: two_tables_def handler_take_def)

lemma two_tables_reached: "(thread_step wire_api)\<^sup>*\<^sup>* threads_start two_tables"
proof -
  let ?one = "push_message 0 0 table_wire (IpAddress 1 True) 45773 threads_start"
  have "thread_step wire_api threads_start ?one"
    by (rule push [OF _ _ getPacketID_table]) (simp_all add: threads_start_def)
  moreover have "thread_step wire_api ?one two_pushed"
    unfolding two_pushed_def
    by (rule push [OF _ _ getPacketID_table]) (simp_all add: threads_start_def push_message_def Let_def)
  moreover have "thread_step wire_api two_pushed (handler_take two_pushed)"
    by (rule h_take) (simp add: two_pushed_simps)
  moreover have "thread_step wire_api (handler_take two_pushed)
      ((handler_take two_pushed)\<lparr>received := True, mailbox := Some 0, handler_message := None\<rparr>)"
    by (rule h_finish) (simp_all add: two_pushed_simps handler_take_def handler_finish_def getPacketID_table)
  moreover have "thread_step wire_api
      ((handler_take two_pushed)\<lparr>received := True, mailbox := Some 0, handler_message := None\<rparr>) two_tables"
    unfolding two_tables_def by (rule h_take) simp
  ultimately show ?thesis by (meson converse_rtranclp_into_rtranclp rtranclp.rtrancl_refl)
qed

section \<open>Properties\<close>

text \<open>C22 However the three threads interleave, none of them reads or frees an object that is
  not there: in every reachable state the next step of the handler and of the table manager
  succeeds, no address is held by two of them, and the pointer \<open>tableManagerMessage\<close> is set
  whenever \<open>receivedTable\<close> says so.\<close>

theorem threads_memory_safe:
  assumes "(thread_step P)\<^sup>*\<^sup>* threads_start s"
  shows "(handler_message s \<noteq> None \<longrightarrow> is_ok (handler_finish P s)) \<and>
    (manager_message s \<noteq> None \<longrightarrow> is_ok (manager_finish True s)) \<and>
    (received s \<longrightarrow> manager_message (manager_take s) \<noteq> None) \<and> distinct (owned s)"
proof -
  have inv: "threads_inv P s" by (rule threads.inv_reached [OF refl assms])
  then have "handler_message s \<noteq> None \<longrightarrow> is_ok (handler_finish P s)"
    "manager_message s \<noteq> None \<longrightarrow> is_ok (manager_finish True s)"
    by (metis handler_finish_ok is_ok_simps(1)) (metis inv manager_finish_ok is_ok_simps(1))
  with inv show ?thesis by (auto simp: threads_inv_def manager_take_def)
qed

theorem threads_memory_safe_witness:
  "is_ok (handler_finish wire_api two_tables) \<and> distinct (owned two_tables)"
  using threads_memory_safe [OF two_tables_reached] by (simp add: two_tables_simps)

definition abandoned :: "nat \<Rightarrow> 'p threads \<Rightarrow> bool" where
  "abandoned a s \<longleftrightarrow> message_objects (heap s) a \<noteq> None \<and> a \<notin> set (owned s)"

lemma dispose_other:
  assumes "disposeUdpMessage (Some b) h = Inr h'" "a \<noteq> b" "message_objects h a \<noteq> None"
  shows "message_objects h' a \<noteq> None"
  using assms by (auto simp: disposeUdpMessage_def delete_message_def delete_packet_def
    split: option.splits if_splits)

lemma abandoned_step:
  assumes "abandoned a s" "thread_step P s t"
  shows "abandoned a t"
  using assms(2)
proof (cases rule: thread_step.cases)
  case (push b p packet pid ip port)
  with assms(1) show ?thesis by (auto simp: abandoned_def owned_def push_message_def Let_def)
next
  case h_take
  with assms(1) show ?thesis
    by (auto simp: abandoned_def owned_def handler_take_def split: list.splits)
next
  case h_finish
  with assms(1) show ?thesis
    by (auto simp: abandoned_def owned_def handler_finish_def split: option.splits sum.splits if_splits
        dest: dispose_other)
next
  case m_take
  with assms(1) show ?thesis
    by (auto simp: abandoned_def owned_def manager_take_def)
next
  case m_finish
  with assms(1) show ?thesis
    by (auto simp: abandoned_def owned_def manager_finish_def split: option.splits sum.splits if_splits
        dest: dispose_other)
qed

lemma abandoned_for_ever: "(thread_step P)\<^sup>*\<^sup>* s t \<Longrightarrow> abandoned a s \<Longrightarrow> abandoned a t"
  by (induction rule: rtranclp_induct) (auto intro: abandoned_step)

text \<open>C23 A second table that arrives before the table manager has taken the first one
  overwrites it: whatever happens later, the first is never processed, since no thread holds
  its address any more, and its memory is never freed.\<close>

theorem waiting_table_is_lost:
  assumes "(thread_step P)\<^sup>*\<^sup>* threads_start s" and "mailbox s = Some a" and "handler_message s = Some b"
    and "message_packet b (heap s) = Inr packet" and "getPacketID P packet = Inr 1"
  shows "\<exists>t. handler_finish P s = Inr t \<and> mailbox t = Some b \<and>
    (\<forall>u. (thread_step P)\<^sup>*\<^sup>* t u \<longrightarrow> message_objects (heap u) a \<noteq> None \<and> a \<notin> set (owned u))"
proof -
  let ?t = "s\<lparr>received := True, mailbox := Some b, handler_message := None\<rparr>"
  have inv: "threads_inv P s" by (rule threads.inv_reached [OF refl assms(1)])
  have "handler_finish P s = Inr ?t" using assms(3-5) by (simp add: handler_finish_def)
  moreover have "abandoned a ?t"
    using inv assms(2,3) by (auto simp: threads_inv_def abandoned_def owned_def)
  ultimately show ?thesis
    using abandoned_for_ever unfolding abandoned_def by fastforce
qed

theorem waiting_table_is_lost_witness:
  "\<exists>t. handler_finish wire_api two_tables = Inr t \<and> mailbox t = Some 1 \<and>
    (\<forall>u. (thread_step wire_api)\<^sup>*\<^sup>* t u \<longrightarrow> message_objects (heap u) 0 \<noteq> None \<and> 0 \<notin> set (owned u))"
  by (rule waiting_table_is_lost [OF two_tables_reached _ _ _ getPacketID_table])
    (simp_all add: two_tables_simps del: One_nat_def)

end
