(* ===== verification/Node_System.thy ===== *)
theory Node_System
  imports Sample_Network
begin

text \<open>
  The running program: \<open>main\<close> sets a node up and starts four threads (\<open>main.cpp\<close>). A step is
  one round of one of them, or something from outside: a user changes the folder, packets
  arrive. Rounds of two threads do not overlap here; what happens when they do to the
  pointers they share is in Node\_Threads.
\<close>

section \<open>The threads\<close>

text \<open>\<open>watched\<close> is the local table of \<open>WatchDirectory\<close>, which the thread computes before its loop;
  \<open>announced\<close> tells whether the discover thread has broadcast the table, which it does before its
  loop.\<close>

record ('u, 's, 'l, 'p) program =
  node :: "('u, 's, 'l, 'p) machine"
  watched :: "hash_table option"
  announced :: bool

definition discoverThreadFunction :: "('u, 's, 'l, 'p) platform \<Rightarrow> ('u, 's, 'l, 'p) program \<Rightarrow>
    ('u, 's, 'l, 'p) program run" where
  "discoverThreadFunction E s =
     (if announced s
      then run_bind (collect_packet E (node s)) (\<lambda>n. Some (Inr (s\<lparr>node := n\<rparr>)))
      else Some (Inr (s\<lparr>node := snd (broadcast E (table_packet (packets E) 0 (fileHashes (node s))) (node s)),
        announced := True\<rparr>)))"

definition handlerThreadFunction :: "('u, 's, 'l, 'p) platform \<Rightarrow> ('u, 's, 'l, 'p) program \<Rightarrow>
    ('u, 's, 'l, 'p) program run" where
  "handlerThreadFunction E s = run_bind (handleUdp E (node s)) (\<lambda>(_, n). Some (Inr (s\<lparr>node := n\<rparr>)))"

definition tableManagerThreadFunction :: "('u, 's, 'l, 'p) platform \<Rightarrow> ('u, 's, 'l, 'p) program \<Rightarrow>
    ('u, 's, 'l, 'p) program run" where
  "tableManagerThreadFunction E s =
     run_bind (tableManager_round E (node s)) (\<lambda>n. Some (Inr (s\<lparr>node := n\<rparr>)))"

text \<open>\<open>WatchDirectory\<close>: the first table, which is computed without \<open>dirLock\<close>, then rounds with the
  shared buffer and \<open>dirLock\<close>, which they take and give back.\<close>

definition directoryWatcherThreadFunction :: "('u, 's, 'l, 'p) platform \<Rightarrow> ('u, 's, 'l, 'p) program \<Rightarrow>
    ('u, 's, 'l, 'p) program run" where
  "directoryWatcherThreadFunction E s =
     (case watched s of
        None \<Rightarrow>
          run_bind (lift_result (watch_start (user E) (disk (node s)) (directory (node s)) (changeBuf (node s)))) (\<lambda>w.
            Some (Inr (s\<lparr>watched := Some (watchHashes w)\<rparr>)))
      | Some table \<Rightarrow>
          run_bind (lock_dirLock (node s)) (\<lambda>n.
            run_bind (lift_result (watch_round (user E) (disk n) (directory n)
                        \<lparr>watchHashes = table, fileChangeBuf = changeBuf n\<rparr>)) (\<lambda>w.
              Some (Inr (s\<lparr>node := unlock_dirLock (n\<lparr>changeBuf := fileChangeBuf w\<rparr>),
                watched := Some (watchHashes w)\<rparr>)))))"

datatype thread = Discoverer | Handler | Table_manager | Directory_watcher

definition main_threads :: "thread list" where
  "main_threads = [Discoverer, Handler, Table_manager, Directory_watcher]"

fun thread_round :: "('u, 's, 'l, 'p) platform \<Rightarrow> thread \<Rightarrow> ('u, 's, 'l, 'p) program \<Rightarrow>
    ('u, 's, 'l, 'p) program run" where
  "thread_round E Discoverer s = discoverThreadFunction E s"
| "thread_round E Handler s = handlerThreadFunction E s"
| "thread_round E Table_manager s = tableManagerThreadFunction E s"
| "thread_round E Directory_watcher s = directoryWatcherThreadFunction E s"

inductive program_step :: "('u, 's, 'l, 'p) platform \<Rightarrow> ('u, 's, 'l, 'p) program \<Rightarrow>
    ('u, 's, 'l, 'p) program \<Rightarrow> bool" for E where
  round: "t \<in> set main_threads \<Longrightarrow> thread_round E t s = Some (Inr s') \<Longrightarrow> program_step E s s'"
| users: "program_step E s (s\<lparr>node := (node s)\<lparr>disk := fs\<rparr>\<rparr>)"
| traffic: "program_step E s (s\<lparr>node := (node s)\<lparr>udp := u\<rparr>\<rparr>)"

inductive_cases program_stepE: "program_step E s s'"

text \<open>A node as it is before \<open>main\<close>, and the state in which the threads start: \<open>main\<close> has computed the
  table of the node, the watcher has not begun.\<close>

definition fresh_node :: "('u, 's, 'l, 'p) machine \<Rightarrow> bool" where
  "fresh_node n \<longleftrightarrow> \<not> dirLocked n \<and> changeBuf n = [] \<and> todoUdp n = [] \<and> tableManagerMessage n = None \<and>
     \<not> receivedTable n"

definition program_start :: "('u, 's, 'l, 'p) platform \<Rightarrow> ('u, 's, 'l, 'p) program \<Rightarrow> bool" where
  "program_start E s \<longleftrightarrow> \<not> announced s \<and> watched s = None \<and> (\<exists>n. fresh_node n \<and> main_start E n = Inr (node s))"

section \<open>The invariant\<close>

definition queue_ok :: "'p packet_api \<Rightarrow> 'p UdpMessage list \<Rightarrow> bool" where
  "queue_ok P q \<longleftrightarrow> (\<forall>m \<in> set q. \<exists>pid. getPacketID P (msg_packet m) = Inr pid \<and> pid \<noteq> 0)"

definition mailbox_ok :: "'p packet_api \<Rightarrow> ('u, 's, 'l, 'p) machine \<Rightarrow> bool" where
  "mailbox_ok P n \<longleftrightarrow> (receivedTable n \<longleftrightarrow> tableManagerMessage n \<noteq> None) \<and>
     (\<forall>m. tableManagerMessage n = Some m \<longrightarrow> getPacketID P (msg_packet m) = Inr 1)"

text \<open>Table \<open>t\<close> agrees with \<open>w\<close> but for paths in which both still are what they were at first.\<close>

definition follows :: "hash_table \<Rightarrow> hash_table \<Rightarrow> hash_table \<Rightarrow> hash_table \<Rightarrow> bool" where
  "follows t0 w0 t w \<longleftrightarrow>
     (\<forall>p. map_find t p = map_find w p \<or> map_find t p = map_find t0 p \<and> map_find w p = map_find w0 p)"

definition watch_agrees :: "('u, 's, 'l, 'p) platform \<Rightarrow> hash_table \<Rightarrow> hash_table option \<Rightarrow>
    fileChangeData list \<Rightarrow> hash_table \<Rightarrow> bool" where
  "watch_agrees E t0 watch buf table \<longleftrightarrow>
     (case watch of
        None \<Rightarrow> buf = [] \<and> table = t0
      | Some w \<Rightarrow> map_ok w \<and> (\<exists>fs0 w0. CreateFileHashes (user E) fs0 (shared_folder E) = Inr w0 \<and>
          follows t0 w0 (apply_changes buf table) w))"

lemma watch_agrees_flush: "watch_agrees E t0 watch buf table \<Longrightarrow> watch_agrees E t0 watch [] (apply_changes buf table)"
  by (auto simp: watch_agrees_def split: option.splits)

definition tables_agree :: "('u, 's, 'l, 'p) platform \<Rightarrow> hash_table \<Rightarrow> ('u, 's, 'l, 'p) program \<Rightarrow> bool" where
  "tables_agree E t0 s \<longleftrightarrow> map_ok (fileHashes (node s)) \<and>
     watch_agrees E t0 (watched s) (changeBuf (node s)) (fileHashes (node s))"

definition program_inv :: "('u, 's, 'l, 'p) platform \<Rightarrow> hash_table \<Rightarrow> ('u, 's, 'l, 'p) program \<Rightarrow> bool" where
  "program_inv E t0 s \<longleftrightarrow> \<not> dirLocked (node s) \<and> directory (node s) = shared_folder E \<and>
     udpPort (node s) = 45773 \<and> queue_ok (packets E) (todoUdp (node s)) \<and> mailbox_ok (packets E) (node s) \<and>
     tables_agree E t0 s"

lemma follows_reports:
  assumes "map_ok prev" "map_ok new" "map_ok t" "distinct (map filePath ch)"
    "\<And>fc. fc \<in> set ch \<longleftrightarrow> reports prev new fc" "follows t0 w0 t prev"
  shows "follows t0 w0 (apply_changes ch t) new"
  using assms(6) unfolding follows_def find_apply_reports [OF assms(1-5)] by metis


text \<open>What a node keeps when only its sockets and its disk change.\<close>

definition same_core :: "('u, 's, 'l, 'p) machine \<Rightarrow> ('u, 's, 'l, 'p) machine \<Rightarrow> bool" where
  "same_core n n' \<longleftrightarrow> directory n' = directory n \<and> fileHashes n' = fileHashes n \<and> changeBuf n' = changeBuf n \<and>
     todoUdp n' = todoUdp n \<and> tableManagerMessage n' = tableManagerMessage n \<and>
     receivedTable n' = receivedTable n \<and> udpPort n' = udpPort n \<and> (dirLocked n' \<longrightarrow> dirLocked n)"

lemma same_core_refl: "same_core n n"
  by (simp add: same_core_def)

lemma same_core_trans: "same_core a b \<Longrightarrow> same_core b c \<Longrightarrow> same_core a c"
  by (simp add: same_core_def)

lemma same_core_updates:
  "same_core n (n\<lparr>udp := u\<rparr>)" "same_core n (n\<lparr>disk := fs\<rparr>)" "same_core n (n\<lparr>tcpServer := srv\<rparr>)"
  by (simp_all add: same_core_def)

lemma same_core_inv:
  "program_inv E t0 s \<Longrightarrow> same_core (node s) n \<Longrightarrow> program_inv E t0 (s\<lparr>node := n\<rparr>)"
  by (auto simp: program_inv_def same_core_def mailbox_ok_def tables_agree_def)

lemma same_core_requestFiles:
  "requestFiles E fcs server n = Some (Inr n') \<Longrightarrow> same_core n n'"
  using requestFiles_keeps by (fastforce simp: same_core_def same_node_def)

lemma same_core_send_udp: "same_core n (snd (send_udp E pk ip prt n))"
  by (simp add: send_udp_def split_def Let_def same_core_updates)

lemma same_core_serve_request:
  assumes "serve_request E message n = Some (Inr n')"
  shows "same_core n n'"
proof -
  from assms obtain pk ip prt where
    "n' = snd (send_udp E pk ip prt n) \<or> (\<exists>srv. n' = (snd (send_udp E pk ip prt n))\<lparr>tcpServer := srv\<rparr>)"
    by (auto simp: serve_request_def split_def Let_def run_bind_Inr_iff lift_result_def Node_sendFile_def
        startTcpServer_def split: if_splits)
  then show ?thesis
    using same_core_send_udp same_core_updates(3) same_core_trans by metis
qed

lemma handle_message_cases:
  assumes "handle_message E message n = Some (Inr n')"
  obtains "same_core n n'"
  | "getPacketID (packets E) (msg_packet message) = Inr 1"
    "n' = n\<lparr>receivedTable := True, tableManagerMessage := Some message\<rparr>"
proof -
  from assms obtain pid where pid: "getPacketID (packets E) (msg_packet message) = Inr pid"
    by (auto simp: handle_message_def readResponseToArrival_def run_bind_Inr_iff lift_result_def)
  consider "pid = 1" | "pid = 2" | "pid = 5" | "pid = 6" | "pid \<notin> {1, 2, 5, 6}" by blast
  then show thesis
  proof cases
    case 1
    with assms pid show thesis by (intro that(2)) (simp_all add: handle_message_def readResponseToArrival_def lift_result_def)
  next
    case 2
    with assms pid show thesis
      by (intro that(1)) (simp add: handle_message_def readResponseToArrival_def lift_result_def same_core_refl)
  next
    case 3
    with assms pid have "serve_request E message n = Some (Inr n')"
      by (simp add: handle_message_def readResponseToArrival_def lift_result_def)
    then show thesis by (rule that(1) [OF same_core_serve_request])
  next
    case 4
    with assms pid obtain fcs where "requestFiles E fcs (msg_ip message) n = Some (Inr n')"
      by (auto simp: handle_message_def readResponseToArrival_def lift_result_def run_bind_Inr_iff)
    then show thesis by (rule that(1) [OF same_core_requestFiles])
  next
    case 5
    with assms pid show thesis
      by (intro that(1)) (auto simp: handle_message_def readResponseToArrival_def lift_result_def run_bind_Inr_iff same_core_refl)
  qed
qed

lemma mailbox_ok_store:
  "getPacketID P (msg_packet m) = Inr 1 \<Longrightarrow>
   mailbox_ok P (n\<lparr>receivedTable := True, tableManagerMessage := Some m\<rparr>)"
  by (simp add: mailbox_ok_def)

lemma program_inv_message:
  assumes inv: "program_inv E t0 s" and h: "handle_message E message (node s) = Some (Inr n')"
  shows "program_inv E t0 (s\<lparr>node := n'\<rparr>)"
  using h
proof (cases rule: handle_message_cases)
  case 1
  with inv show ?thesis by (rule same_core_inv)
next
  case 2
  with inv show ?thesis by (auto simp: program_inv_def tables_agree_def mailbox_ok_store)
qed

text \<open>\<open>flush_changes\<close> moves the buffer into the table.\<close>

lemma program_inv_flush:
  assumes "program_inv E t0 s"
  shows "program_inv E t0 (s\<lparr>node := flush_changes E (node s)\<rparr>)"
proof -
  let ?n = "node s"
  let ?n1 = "?n\<lparr>fileHashes := apply_changes (changeBuf ?n) (fileHashes ?n), changeBuf := []\<rparr>"
  have "same_core ?n1 (flush_changes E ?n)"
    using assms same_core_send_udp [of ?n1]
    by (auto simp: program_inv_def flush_changes_def flush_fileChangeBuf_def Let_def broadcast_def same_core_def)
  moreover have "program_inv E t0 (s\<lparr>node := ?n1\<rparr>)"
    using assms watch_agrees_flush by (auto simp: program_inv_def tables_agree_def map_ok_apply_changes mailbox_ok_def)
  ultimately show ?thesis using same_core_inv [of E t0 "s\<lparr>node := ?n1\<rparr>"] by simp
qed

lemma program_inv_pop:
  "program_inv E t0 s \<Longrightarrow> todoUdp (node s) = m # rest \<Longrightarrow> program_inv E t0 (s\<lparr>node := (node s)\<lparr>todoUdp := rest\<rparr>\<rparr>)"
  by (auto simp: program_inv_def queue_ok_def mailbox_ok_def tables_agree_def)

lemma program_inv_handler:
  assumes inv: "program_inv E t0 s" and h: "handleUdp E (node s) = Some (Inr (b, n'))"
  shows "program_inv E t0 (s\<lparr>node := n'\<rparr>)"
proof -
  let ?s = "s\<lparr>node := flush_changes E (node s)\<rparr>"
  have f: "program_inv E t0 ?s" using inv by (rule program_inv_flush)
  show ?thesis
  proof (cases "todoUdp (node ?s)")
    case Nil
    with h f show ?thesis by (simp add: handleUdp_def Let_def)
  next
    case (Cons m rest)
    with h have "handle_message E m ((node ?s)\<lparr>todoUdp := rest\<rparr>) = Some (Inr n')"
      by (auto simp: handleUdp_def Let_def run_bind_Inr_iff)
    with program_inv_message [OF program_inv_pop [OF f Cons]] show ?thesis by simp
  qed
qed

lemma program_inv_discover:
  assumes inv: "program_inv E t0 s" and h: "collect_packet E (node s) = Some (Inr n')"
  shows "program_inv E t0 (s\<lparr>node := n'\<rparr>)"
proof -
  obtain rc packet sender sp u where r: "Udp_receive (udps E) (udp (node s)) = (rc, (packet, sender, sp), u)"
    by (metis prod_cases3)
  let ?n = "(node s)\<lparr>udp := u\<rparr>"
  have n: "program_inv E t0 (s\<lparr>node := ?n\<rparr>)" using inv same_core_updates(1) by (rule same_core_inv)
  have "same_core ?n n' \<or> (\<exists>pid m. getPacketID (packets E) (msg_packet m) = Inr pid \<and> pid \<noteq> 0 \<and>
      n' = ?n\<lparr>todoUdp := todoUdp ?n @ [m]\<rparr>)"
  proof (cases "rc \<and> \<not> isMyOwn E sender")
    case False
    with h r show ?thesis by (auto simp: collect_packet_def Let_def same_core_refl split: if_splits)
  next
    case True
    with h r obtain pid where pid: "getPacketID (packets E) packet = Inr pid"
      by (auto simp: collect_packet_def Let_def run_bind_Inr_iff lift_result_def)
    show ?thesis
    proof (cases "pid = 0")
      case True
      with h r \<open>rc \<and> \<not> isMyOwn E sender\<close> pid obtain fcs where
        "requestFiles E fcs sender (snd (respondToArrival E sender ?n)) = Some (Inr n')"
        by (auto simp: collect_packet_def Let_def run_bind_Inr_iff lift_result_def dealWithHashTable_def)
      then have "same_core (snd (respondToArrival E sender ?n)) n'" by (rule same_core_requestFiles)
      then show ?thesis
        using same_core_send_udp [of ?n] unfolding respondToArrival_def by (blast intro: same_core_trans)
    next
      case False
      with h r \<open>rc \<and> \<not> isMyOwn E sender\<close> pid show ?thesis
        by (intro disjI2 exI [of _ pid]
          exI [of _ "\<lparr>msg_packet = packet, msg_ip = sender, msg_port = udpPort ?n\<rparr>"])
          (simp add: collect_packet_def lift_result_def)
    qed
  qed
  then show ?thesis
  proof
    assume "same_core ?n n'"
    with same_core_inv [OF n] show ?thesis by simp
  next
    assume "\<exists>pid m. getPacketID (packets E) (msg_packet m) = Inr pid \<and> pid \<noteq> 0 \<and>
      n' = ?n\<lparr>todoUdp := todoUdp ?n @ [m]\<rparr>"
    with n show ?thesis by (auto simp: program_inv_def queue_ok_def mailbox_ok_def tables_agree_def)
  qed
qed

lemma program_inv_announce:
  assumes "program_inv E t0 s"
  shows "program_inv E t0 (s\<lparr>node := snd (broadcast E pk (node s)), announced := True\<rparr>)"
  using same_core_inv [OF assms, of "snd (broadcast E pk (node s))"] same_core_send_udp [of "node s" E pk]
  by (simp add: broadcast_def program_inv_def tables_agree_def)

lemma program_inv_manager:
  assumes inv: "program_inv E t0 s" and h: "tableManager_round E (node s) = Some (Inr n')"
  shows "program_inv E t0 (s\<lparr>node := n'\<rparr>)"
proof (cases "tableManagerMessage (node s)")
  case None
  with inv h show ?thesis by (auto simp: tableManager_round_def program_inv_def mailbox_ok_def)
next
  case (Some m)
  let ?n = "(node s)\<lparr>receivedTable := False, tableManagerMessage := None\<rparr>"
  have "receivedTable (node s)" using inv Some by (simp add: program_inv_def mailbox_ok_def)
  with h Some have "same_core ?n n'"
    by (auto simp: tableManager_round_def Let_def run_bind_Inr_iff lift_result_def dealWithHashTable_def
        intro: same_core_requestFiles)
  moreover have "program_inv E t0 (s\<lparr>node := ?n\<rparr>)"
    using inv by (simp add: program_inv_def mailbox_ok_def tables_agree_def)
  ultimately show ?thesis using same_core_inv [of E t0 "s\<lparr>node := ?n\<rparr>"] by simp
qed

lemma program_inv_first_table:
  assumes inv: "program_inv E t0 s" and h: "directoryWatcherThreadFunction E s = Some (Inr s')" and "watched s = None"
  shows "program_inv E t0 s'"
proof -
  from assms obtain w where w: "watch_start (user E) (disk (node s)) (shared_folder E) [] = Inr w"
    "s' = s\<lparr>watched := Some (watchHashes w)\<rparr>"
    by (auto simp: directoryWatcherThreadFunction_def program_inv_def tables_agree_def watch_agrees_def run_bind_Inr_iff
        lift_result_def)
  then have c: "CreateFileHashes (user E) (disk (node s)) (shared_folder E) = Inr (watchHashes w)"
    by (auto simp: watch_start_def split: sum.splits)
  have "follows t0 (watchHashes w) t0 (watchHashes w)" by (simp add: follows_def)
  with inv w(2) c map_ok_CreateFileHashes [OF c] assms(3) show ?thesis
    by (auto simp: program_inv_def tables_agree_def watch_agrees_def mailbox_ok_def)
qed

lemma program_inv_round:
  assumes inv: "program_inv E t0 s" and h: "directoryWatcherThreadFunction E s = Some (Inr s')"
    and table: "watched s = Some table"
  shows "program_inv E t0 s'"
proof -
  let ?w = "\<lparr>watchHashes = table, fileChangeBuf = changeBuf (node s)\<rparr>"
  from inv h table obtain w where
    w: "watch_round (user E) (disk (node s)) (directory (node s)) ?w = Inr w"
    "s' = s\<lparr>node := (node s)\<lparr>dirLocked := False, changeBuf := fileChangeBuf w\<rparr>, watched := Some (watchHashes w)\<rparr>"
    by (auto simp: directoryWatcherThreadFunction_def lock_dirLock_def unlock_dirLock_def program_inv_def
        run_bind_Inr_iff lift_result_def)
  let ?t = "apply_changes (changeBuf (node s)) (fileHashes (node s))"
  from inv table obtain fs0 w0 where ok: "map_ok (fileHashes (node s))" "map_ok table"
    and f: "CreateFileHashes (user E) fs0 (shared_folder E) = Inr w0" "follows t0 w0 ?t table"
    by (auto simp: program_inv_def tables_agree_def watch_agrees_def)
  have new: "map_ok (watchHashes w)" using watch_round_inv(1) [OF _ w(1)] ok(2) by simp
  from watch_round_reports(2) [OF _ w(1)] ok(2) obtain ch where ch: "fileChangeBuf w = changeBuf (node s) @ ch"
    "distinct (map filePath ch)" "\<And>fc. fc \<in> set ch \<longleftrightarrow> reports table (watchHashes w) fc" by auto
  from follows_reports [OF ok(2) new map_ok_apply_changes [OF ok(1)] ch(2,3) f(2)]
  have "follows t0 w0 (apply_changes (fileChangeBuf w) (fileHashes (node s))) (watchHashes w)"
    by (simp add: ch(1) apply_changes_append)
  with new f(1) have "watch_agrees E t0 (Some (watchHashes w)) (fileChangeBuf w) (fileHashes (node s))"
    by (auto simp: watch_agrees_def)
  with inv w(2) ok(1) show ?thesis by (simp add: program_inv_def tables_agree_def mailbox_ok_def)
qed

lemma program_inv_watcher:
  "program_inv E t0 s \<Longrightarrow> directoryWatcherThreadFunction E s = Some (Inr s') \<Longrightarrow> program_inv E t0 s'"
  using program_inv_first_table program_inv_round by (cases "watched s") blast+

lemma program_inv_step: "program_inv E t0 s \<Longrightarrow> program_step E s s' \<Longrightarrow> program_inv E t0 s'"
proof (erule program_stepE)
  fix t
  assume inv: "program_inv E t0 s" and r: "thread_round E t s = Some (Inr s')"
  show ?thesis
  proof (cases t)
    case Discoverer
    with inv r show ?thesis
      by (auto simp: discoverThreadFunction_def run_bind_Inr_iff program_inv_discover program_inv_announce
          split: if_splits)
  next
    case Handler
    with inv r show ?thesis
      by (auto simp: handlerThreadFunction_def run_bind_Inr_iff program_inv_handler)
  next
    case Table_manager
    with inv r show ?thesis
      by (auto simp: tableManagerThreadFunction_def run_bind_Inr_iff program_inv_manager)
  next
    case Directory_watcher
    with inv r show ?thesis by (auto intro: program_inv_watcher)
  qed
qed (auto intro: same_core_inv same_core_updates)

lemma main_start_node:
  assumes "fresh_node n" "main_start E n = Inr m"
  shows "fresh_node m \<and> directory m = shared_folder E \<and> udpPort m = 45773 \<and>
    Node_fileHashes (user E) (disk m) (shared_folder E) = Inr (fileHashes m)"
  using assms by (auto simp: main_start_def Node_init_def listenUdp_def fresh_node_def split_def Let_def
      split: sum.splits)

lemma map_ok_fill: "fill_fileHashes usr fs d ps m = Inr m' \<Longrightarrow> map_ok m \<Longrightarrow> map_ok m'"
  by (induction ps arbitrary: m) (auto simp: map_ok_assign split: sum.splits)

lemma map_ok_Node_fileHashes: "Node_fileHashes usr fs d = Inr t \<Longrightarrow> map_ok t"
  by (auto simp: Node_fileHashes_def map_ok_fill split: sum.splits)

lemma program_inv_start: "program_start E s \<Longrightarrow> program_inv E (fileHashes (node s)) s"
proof -
  assume "program_start E s"
  then obtain n where n: "watched s = None" "fresh_node n" "main_start E n = Inr (node s)" by (auto simp: program_start_def)
  from main_start_node [OF n(2,3)] map_ok_Node_fileHashes n(1) show ?thesis
    by (auto simp: program_inv_def fresh_node_def queue_ok_def mailbox_ok_def tables_agree_def watch_agrees_def)
qed

interpretation program: invariant_system "\<lambda>s. program_start E s \<and> fileHashes (node s) = t0" "program_step E"
    "program_inv E t0" for E t0
  by unfold_locales (use program_inv_start program_inv_step in auto)

section \<open>A sample run\<close>


















section \<open>Properties\<close>



end
