(* ===== verification/Disk_Shape.thy ===== *)
theory Disk_Shape
  imports Node_System
begin

text \<open>
  The disk as a typed value: what is in it after any round of any thread is again a tree of
  directories with distinct, proper names. The laws a property of trees has to obey are
  a locale; whatever obeys them is kept by every operation of the program.
\<close>

section \<open>Names from paths\<close>

lemma pieces_no_sep: "p \<in> set (pieces s) \<Longrightarrow> c \<in> set p \<Longrightarrow> \<not> is_sep c"
  by (induction s arbitrary: p c) (fastforce split: if_splits list.splits)+

lemma normalise_names_ok:
  assumes "\<forall>n \<in> set st. name_ok n" "\<forall>c \<in> set cs. c \<noteq> [] \<and> (\<forall>x \<in> set c. \<not> is_sep x)"
  shows "names_ok (normalise st cs)"
  using assms
proof (induction st cs rule: normalise.induct)
  case (2 st c cs)
  show ?case
  proof (cases "c = dot")
    case True
    then show ?thesis using 2 by simp
  next
    case False
    show ?thesis
    proof (cases "c = dotdot")
      case True
      have "\<forall>n \<in> set (if length st \<le> 1 then st else tl st). name_ok n"
        using "2.prems"(1) by (cases st) simp_all
      then show ?thesis using 2(2) [OF False True] "2.prems"(2) False True by simp
    next
      case dotdot: False
      have "name_ok c" using "2.prems"(2) False dotdot by (simp add: name_ok_def)
      then show ?thesis using 2(3) [OF False dotdot] "2.prems" False dotdot by simp
    qed
  qed
qed (simp add: names_ok_def)

lemma resolve_names_ok: "names_ok (resolve path)"
  unfolding resolve_def
  by (rule normalise_names_ok) (auto simp: components_def dest: pieces_no_sep)

lemma names_ok_butlast: "names_ok cs \<Longrightarrow> names_ok (butlast cs)"
  by (auto simp: names_ok_def dest: in_set_butlastD)

lemma names_ok_append [simp]: "names_ok (cs @ ds) \<longleftrightarrow> names_ok cs \<and> names_ok ds"
  by (auto simp: names_ok_def)

section \<open>Laws of a property of trees\<close>

locale tree_property =
  fixes keeps :: "fsnode \<Rightarrow> bool"
  assumes written: "keeps fs \<Longrightarrow> names_ok p \<Longrightarrow> write_at p new fs = Some fs' \<Longrightarrow> new = Dir [] \<or> new = File bs \<Longrightarrow> keeps fs'"
    and removed: "keeps fs \<Longrightarrow> remove_at p fs = Some fs' \<Longrightarrow> keeps fs'"
begin

lemma create_dirs_keeps:
  "create_dirs fs base cs made = Inr (m, fs') \<Longrightarrow> keeps fs \<Longrightarrow> names_ok base \<Longrightarrow> names_ok cs \<Longrightarrow> keeps fs'"
proof (induction fs base cs made rule: create_dirs.induct)
  case (2 fs base c cs made)
  have ok: "names_ok (base @ [c])" "names_ok cs" using "2.prems" by (simp_all add: names_ok_def)
  show ?case
  proof (cases "node_at fs (base @ [c])")
    case None
    with "2.prems"(1) obtain fs1 where w: "write_at (base @ [c]) (Dir []) fs = Some fs1"
      by (auto split: option.splits)
    then have "keeps fs1" using written "2.prems"(2) ok(1) by blast
    then show ?thesis using "2.IH"(1) [OF None w] "2.prems"(1) None w ok by simp
  next
    case (Some x)
    with "2.prems"(1) obtain es where x: "x = Dir es" by (cases x) simp_all
    then show ?thesis using "2.IH"(2) [OF Some x] "2.prems" Some ok by simp
  qed
qed simp

lemma open_write_keeps: "open_write fs path = (s, fs') \<Longrightarrow> keeps fs \<Longrightarrow> keeps fs'"
  using written [OF _ resolve_names_ok] by (auto simp: open_write_def split: if_splits option.splits)

lemma close_write_keeps: "keeps fs \<Longrightarrow> keeps (close_write fs path s)"
  using written [OF _ resolve_names_ok] by (auto simp: close_write_def split: option.split)

lemma deleteFile_keeps: "deleteFile fs path = Inr (b, fs') \<Longrightarrow> keeps fs \<Longrightarrow> keeps fs'"
  using removed
  by (auto simp: deleteFile_def fs_remove_def split: option.splits fsnode.splits list.splits)

lemma createDirectory_keeps: "createDirectory fs path = Inr (b, fs') \<Longrightarrow> keeps fs \<Longrightarrow> keeps fs'"
  using written [OF _ resolve_names_ok]
  by (auto simp: createDirectory_def fs_create_directory_def split: option.splits fsnode.splits)

lemma acquireDirectories_keeps: "acquireDirectories fs path = Inr (b, fs') \<Longrightarrow> keeps fs \<Longrightarrow> keeps fs'"
  using create_dirs_keeps [of fs "[]" _ False] names_ok_butlast [OF resolve_names_ok]
  by (simp add: acquireDirectories_def names_ok_def)

lemma negotiate_keeps:
  assumes "negotiateTCPTransfer E port fc pk server n = Some (Inr (b, n'))" "keeps (disk n)"
  shows "keeps (disk n')"
  using assms
  by (auto simp: negotiateTCPTransfer_def Let_def split_def run_bind_Inr_iff lift_result_def send_udp_def
      startClient_def Node_receiveFile_def split: if_splits
      intro!: close_write_keeps open_write_keeps [OF prod.collapse [symmetric]] dest: acquireDirectories_keeps)

lemma request_keeps_disk:
  assumes "request_file E server fc n = Some (Inr n')" "keeps (disk n)"
  shows "keeps (disk n')"
proof -
  from assms(1) consider (del) b fs where "deleteFile (disk n) (local_path (n\<lparr>dirLocked := True\<rparr>) (filePath fc)) = Inr (b, fs)"
      "n' = unlock_dirLock (n\<lparr>dirLocked := True, disk := fs\<rparr>)"
    | (have_it) "disk n' = disk n"
    | (ask) b pk n2 where "negotiateTCPTransfer E 25565 fc pk server (n\<lparr>dirLocked := True\<rparr>) = Some (Inr (b, n2))"
      "n' = unlock_dirLock n2"
    by (cases "change fc")
      (auto simp: request_file_def run_bind_Inr_iff lift_result_def lock_dirLock_def unlock_dirLock_def
        split: if_splits)
  then show ?thesis
  proof cases
    case del
    then show ?thesis using deleteFile_keeps assms(2) by (simp add: unlock_dirLock_def)
  next
    case ask
    then show ?thesis using negotiate_keeps [OF ask(1)] assms(2) by (simp add: unlock_dirLock_def)
  qed (use assms(2) in simp)
qed

lemma requests_keep_disk:
  "requestFiles E fcs server n = Some (Inr n') \<Longrightarrow> keeps (disk n) \<Longrightarrow> keeps (disk n')"
  by (induction fcs arbitrary: n) (auto simp: run_bind_Inr_iff dest: request_keeps_disk)

lemma send_udp_disk [simp]: "disk (snd (send_udp E pk ip prt n)) = disk n"
  by (simp add: send_udp_def split_def Let_def)

lemma serve_request_keeps:
  assumes "serve_request E message n = Some (Inr n')" "keeps (disk n)"
  shows "keeps (disk n')"
  using assms
  by (auto simp: serve_request_def split_def Let_def run_bind_Inr_iff lift_result_def Node_sendFile_def
      startTcpServer_def split: if_splits)

lemma handle_message_keeps:
  assumes "handle_message E message n = Some (Inr n')" "keeps (disk n)"
  shows "keeps (disk n')"
  using assms serve_request_keeps requests_keep_disk
  by (auto simp: handle_message_def run_bind_Inr_iff lift_result_def split: if_splits)

lemma flush_changes_disk [simp]: "disk (flush_changes E n) = disk n"
  by (simp add: flush_changes_def broadcast_def split_def Let_def split: option.split)

lemma handleUdp_keeps: "handleUdp E n = Some (Inr (b, n')) \<Longrightarrow> keeps (disk n) \<Longrightarrow> keeps (disk n')"
  using handle_message_keeps
  by (fastforce simp: handleUdp_def Let_def run_bind_Inr_iff split: list.splits)

lemma dealWithHashTable_keeps:
  "dealWithHashTable E table sender ignoreEdits n = Some (Inr n') \<Longrightarrow> keeps (disk n) \<Longrightarrow> keeps (disk n')"
  by (simp add: dealWithHashTable_def requests_keep_disk)

lemma collect_packet_keeps: "collect_packet E n = Some (Inr n') \<Longrightarrow> keeps (disk n) \<Longrightarrow> keeps (disk n')"
  by (auto simp: collect_packet_def split_def Let_def run_bind_Inr_iff lift_result_def respondToArrival_def
      split: if_splits dest!: dealWithHashTable_keeps)

lemma tableManager_round_keeps: "tableManager_round E n = Some (Inr n') \<Longrightarrow> keeps (disk n) \<Longrightarrow> keeps (disk n')"
  by (auto simp: tableManager_round_def split_def Let_def run_bind_Inr_iff split: if_splits option.splits
      dest!: dealWithHashTable_keeps)

lemma thread_round_keeps:
  assumes "thread_round E t s = Some (Inr s')" "keeps (disk (node s))"
  shows "keeps (disk (node s'))"
proof (cases t)
  case Discoverer
  with assms show ?thesis
    by (auto simp: discoverThreadFunction_def run_bind_Inr_iff broadcast_def intro: collect_packet_keeps split: if_splits)
next
  case Handler
  with assms show ?thesis by (auto simp: handlerThreadFunction_def run_bind_Inr_iff intro: handleUdp_keeps)
next
  case Table_manager
  with assms show ?thesis
    by (auto simp: tableManagerThreadFunction_def run_bind_Inr_iff intro: tableManager_round_keeps)
next
  case Directory_watcher
  with assms show ?thesis
    by (auto simp: directoryWatcherThreadFunction_def run_bind_Inr_iff lock_dirLock_def unlock_dirLock_def
        split: if_splits option.splits)
qed

lemma main_start_keeps:
  assumes "main_start E n = Inr n'" "keeps (disk n)"
  shows "keeps (disk n')"
  using assms createDirectory_keeps
  by (auto simp: main_start_def Node_init_def listenUdp_def split_def Let_def split: sum.splits)

end

section \<open>Well-formed trees\<close>

lemma map_of_ok:
  assumes "tree_ok (Dir es)" "map_of es c = Some n"
  shows "name_ok c" "tree_ok n"
proof -
  have "\<forall>e \<in> set es. name_ok (fst e) \<and> tree_ok (snd e)" using assms(1) by simp
  from bspec [OF this map_of_SomeD [OF assms(2)]] show "name_ok c" "tree_ok n" by simp_all
qed

lemma set_update: "set (AList.update c n es) \<subseteq> insert (c, n) (set es)"
  by (induction es) auto

lemma update_ok:
  assumes "tree_ok (Dir es)" "name_ok c" "tree_ok n"
  shows "tree_ok (Dir (AList.update c n es))"
  using assms distinct_update [of es c n] set_update [of c n es] by fastforce

lemma delete_ok: "tree_ok (Dir es) \<Longrightarrow> tree_ok (Dir (AList.delete c es))"
  using distinct_delete [of es c] by (auto simp: AList.delete_eq)

lemma write_at_ok: "write_at p new fs = Some fs' \<Longrightarrow> tree_ok fs \<Longrightarrow> names_ok p \<Longrightarrow> tree_ok new \<Longrightarrow> tree_ok fs'"
proof (induction p new fs arbitrary: fs' rule: write_at.induct)
  case (3 c cs new es)
  have c: "name_ok c" "names_ok cs" using "3.prems" by (simp_all add: names_ok_def)
  show ?case
  proof (cases "cs = []")
    case True
    then show ?thesis using "3.prems" c(1) update_ok [of es c new] by simp
  next
    case False
    with "3.prems"(1) obtain n n' where n: "map_of es c = Some n" "write_at cs new n = Some n'"
      "fs' = Dir (AList.update c n' es)" by (auto split: option.splits)
    have "tree_ok n" using map_of_ok(2) [OF "3.prems"(2) n(1)] .
    then have "tree_ok n'" using "3.IH" [OF False n(1,2)] "3.prems"(4) c(2) by simp
    then show ?thesis using n(3) update_ok [OF "3.prems"(2) c(1)] by simp
  qed
qed simp_all

lemma remove_at_ok: "remove_at p fs = Some fs' \<Longrightarrow> tree_ok fs \<Longrightarrow> tree_ok fs'"
proof (induction p fs arbitrary: fs' rule: remove_at.induct)
  case (3 c cs es)
  from "3.prems"(1) obtain n where n: "map_of es c = Some n" by (auto split: option.splits)
  show ?case
  proof (cases "cs = []")
    case True
    then show ?thesis using "3.prems" n delete_ok [of es c] by simp
  next
    case False
    with "3.prems"(1) n obtain n' where n': "remove_at cs n = Some n'" "fs' = Dir (AList.update c n' es)" by auto
    have "tree_ok n" "name_ok c" using map_of_ok [OF "3.prems"(2) n] by simp_all
    with "3.IH" [OF n False n'(1)] show ?thesis using n'(2) update_ok [OF "3.prems"(2)] by simp
  qed
qed simp_all

text \<open>A tree of directories whose root is one.\<close>

definition disk_ok :: "fsnode \<Rightarrow> bool" where
  "disk_ok fs \<longleftrightarrow> tree_ok fs \<and> dir_at fs []"

lemma write_at_root: "write_at p new fs = Some fs' \<Longrightarrow> dir_at fs' []"
  by (cases "(p, new, fs)" rule: write_at.cases) (auto simp: dir_at_def split: if_splits option.splits)

lemma remove_at_root: "remove_at p fs = Some fs' \<Longrightarrow> dir_at fs' []"
  by (cases "(p, fs)" rule: remove_at.cases) (auto simp: dir_at_def split: if_splits option.splits)

interpretation shape: tree_property disk_ok
proof
  fix fs p new fs' bs
  assume "disk_ok fs" "names_ok p" "write_at p new fs = Some fs'" "new = Dir [] \<or> new = File bs"
  then show "disk_ok fs'" using write_at_ok write_at_root by (auto simp: disk_ok_def)
next
  fix fs p fs'
  assume "disk_ok fs" "remove_at p fs = Some fs'"
  then show "disk_ok fs'" using remove_at_ok remove_at_root by (auto simp: disk_ok_def)
qed

section \<open>The running program\<close>

lemma disk_stays_well_formed:
  assumes "main_start E n = Inr (node s)" "disk_ok (disk n)"
    and "(\<lambda>s s'. \<exists>t. thread_round E t s = Some (Inr s'))\<^sup>*\<^sup>* s s'"
  shows "disk_ok (disk (node s'))"
  using assms(3)
proof (induction rule: rtranclp_induct)
  case base
  then show ?case by (rule shape.main_start_keeps [OF assms(1,2)])
next
  case (step u v)
  then show ?case using shape.thread_round_keeps by auto
qed

end
