(* ===== verification/Hash_Modulus.thy ===== *)
theory Hash_Modulus
  imports File_Hash
begin

text \<open>
  What can be said of the hash of any file, of whatever bytes and under whatever path: the
  modulus is 2^64 - 1001, so the wrap-around of the words and the modulus both change a sum by
  multiples of 1001, as long as it is small. Two spellings of a path whose characters add up
  to different sums modulo 1001 therefore give different hashes of the same content.
\<close>

section \<open>The hash modulo 1001\<close>

text \<open>\<open>2 ^ 64 = 1001\<close> modulo the modulus, so a step is an addition up to 1001, for any amounts.\<close>

lemma sint_u64: "sint (w :: u64) = (if uint w < 2 ^ 63 then uint w else uint w - 2 ^ 64)"
proof -
  have "uint w < 2 ^ 64" using uint_lt2p [of w] by simp
  then show ?thesis
    by (auto simp: sint_uint signed_take_bit_eq_take_bit_minus take_bit_eq_mod bit_iff_odd not_le
        intro: mod_pos_pos_trivial) (auto simp: even_iff_mod_2_eq_zero)
qed

lemma sint_add_mod:
  assumes "\<bar>sint h + d\<bar> < 2 ^ 63"
  shows "sint (add_mod h d) = sint h + d \<or> sint (add_mod h d) = sint h + d + 1001 \<and> sint h + d < 0 \<and> - 1001 \<le> sint h + d"
proof -
  let ?w = "h + word_of_int d"
  have "?w = word_of_int (sint h + d)" by simp
  then have "sint ?w = signed_take_bit 63 (sint h + d)" by (simp only: sint_sbintrunc') simp
  then have w: "sint ?w = sint h + d" using assms by (simp add: signed_take_bit_int_eq_self)
  have u: "uint (add_mod h d) = uint ?w mod (2 ^ 64 - 1001)" by (simp add: add_mod_def uint_mod uint_modBase)
  have lt: "uint ?w < 2 ^ 64" using uint_lt2p [of ?w] by simp
  show ?thesis
  proof (cases "uint ?w < 2 ^ 64 - 1001")
    case True
    then have "uint (add_mod h d) = uint ?w" using u by simp
    then have "add_mod h d = ?w" by (simp only: word_uint_eq_iff)
    then show ?thesis using w by (simp only: simp_thms)
  next
    case False
    then have "uint (add_mod h d) = uint ?w - (2 ^ 64 - 1001)"
      using u lt mod_pos_geq [of "2 ^ 64 - 1001" "uint ?w"]
        mod_pos_pos_trivial [of "uint ?w - (2 ^ 64 - 1001)" "2 ^ 64 - 1001"] by simp
    then show ?thesis using w False lt sint_u64 [of "add_mod h d"] sint_u64 [of ?w] by auto
  qed
qed

text \<open>What the amounts can add up to, with the corrections.\<close>

definition size_sum :: "int list \<Rightarrow> int" where
  "size_sum ds = (\<Sum>d\<leftarrow>ds. \<bar>d\<bar> + 1001)"

lemma size_sum_nonneg: "0 \<le> size_sum ds"
  by (induction ds) (simp_all add: size_sum_def)

lemma foldl_add_mod_1001:
  "\<bar>sint h\<bar> + size_sum ds < 2 ^ 63 \<Longrightarrow>
   sint (foldl add_mod h ds) mod 1001 = (sint h + sum_list ds) mod 1001"
proof (induction ds arbitrary: h)
  case (Cons d ds)
  let ?h = "add_mod h d"
  have small: "\<bar>sint h\<bar> + \<bar>d\<bar> + 1001 + size_sum ds < 2 ^ 63" using Cons.prems by (simp add: size_sum_def)
  with size_sum_nonneg [of ds] have "\<bar>sint h + d\<bar> < 2 ^ 63" by linarith
  note step = sint_add_mod [OF this]
  then have "\<bar>sint ?h\<bar> + size_sum ds < 2 ^ 63" using small by linarith
  from Cons.IH [OF this] have "sint (foldl add_mod h (d # ds)) mod 1001 = (sint ?h + sum_list ds) mod 1001" by simp
  also have "\<dots> = (sint h + d + sum_list ds) mod 1001"
    using step by (elim disjE conjE) (simp_all add: mod_eq_dvd_iff)
  finally show ?case by (simp add: add.assoc)
qed simp

lemma size_sum_bound: "\<forall>d \<in> set ds. \<bar>d\<bar> \<le> 1152 \<Longrightarrow> size_sum ds \<le> 2153 * int (length ds)"
  by (induction ds) (auto simp: size_sum_def)

lemma content_deltas_small: "i \<le> 9 \<Longrightarrow> d \<in> set (content_deltas i bs) \<Longrightarrow> \<bar>d\<bar> \<le> 1152"
proof (induction bs arbitrary: i)
  case (Cons b bs)
  have "\<bar>sint b * int i\<bar> \<le> 128 * 9"
    unfolding abs_mult using sint_u8_bounds [of b] Cons.prems(1) by (intro mult_mono) auto
  with Cons.prems Cons.IH [OF next_i_le [OF Cons.prems(1)]] show ?case by auto
qed simp

lemma length_content_deltas: "length (content_deltas i bs) = length bs"
  by (induction bs arbitrary: i) simp_all

lemma abs_sint_u8: "\<bar>sint (c :: u8)\<bar> \<le> 1152"
  using sint_u8_bounds [of c] by linarith

definition path_deltas_of :: "wstring \<Rightarrow> int list" where
  "path_deltas_of rel = map (\<lambda>c. sint (ucast c :: u8)) rel"

text \<open>The hash of any file shorter than 4 GiB, read signed and modulo 1001.\<close>

lemma getFileHash_1001:
  assumes rel: "getRelativeToDocuments usr p = Inr rel" and bs: "open_read fs p = Some bs"
    and len: "length bs < 2 ^ 32" "length rel < 2 ^ 32"
  shows "\<exists>h. getFileHash usr fs p = Inr h \<and>
    sint h mod 1001 = (int (length bs) + sum_list (path_deltas_of rel) + sum_list (content_deltas 0 (text_mode bs))) mod 1001"
proof -
  let ?t = "text_mode bs" and ?h0 = "ucast (filesize fs p) :: u64"
  let ?ds = "path_deltas_of rel @ content_deltas 0 ?t"
  have "unat (filesize fs p) = length bs" using len by (simp add: filesize_def bs unat_of_nat)
  then have "int (unat (filesize fs p)) = int (length bs)" by (rule arg_cong)
  moreover have "uint ?h0 = uint (filesize fs p)" by (rule uint_up_ucast) (simp add: is_up)
  ultimately have "uint ?h0 = int (length bs)" by simp
  with len(1) have h0: "sint ?h0 = int (length bs)" using sint_u64 [of ?h0] by simp
  have hash: "getFileHash usr fs p = Inr (foldl add_mod ?h0 ?ds)"
    by (simp add: getFileHash_def rel bs foldl_path hash_contents_foldl path_deltas_of_def)
  have "\<forall>d \<in> set ?ds. \<bar>d\<bar> \<le> 1152"
    using content_deltas_small [of 0 _ ?t] abs_sint_u8 by (auto simp: path_deltas_of_def)
  from size_sum_bound [OF this] have "size_sum ?ds \<le> 2153 * int (length rel + length ?t)"
    by (simp add: length_content_deltas path_deltas_of_def)
  also have "\<dots> \<le> 2153 * int (2 ^ 32 + 2 ^ 32)" using len length_text_mode [of bs] by (intro mult_left_mono) auto
  finally have "\<bar>sint ?h0\<bar> + size_sum ?ds < 2 ^ 63" using h0 len(1) by simp
  from foldl_add_mod_1001 [OF this] show ?thesis using hash h0 by (auto simp: add.assoc)
qed

text \<open>Hashing a file under a path with a doubled separator, as \<open>requestFiles\<close> does, never gives the
  hash the directory monitor computed for the same file.\<close>

lemma getFileHash_double_separator:
  assumes "open_read fs (getDocumentsPath usr @ folder @ backslash # rel) = Some bs"
    and "length bs < 2 ^ 32" "length (folder @ backslash # rel) + 1 < 2 ^ 32"
  shows "getFileHash usr fs (getDocumentsPath usr @ folder @ backslash # backslash # rel) \<noteq>
      getFileHash usr fs (getDocumentsPath usr @ folder @ backslash # rel)"
proof
  let ?r = "folder @ backslash # rel" and ?r2 = "folder @ backslash # backslash # rel"
  assume eq: "getFileHash usr fs (getDocumentsPath usr @ ?r2) = getFileHash usr fs (getDocumentsPath usr @ ?r)"
  have "resolve (getDocumentsPath usr @ ?r2) = resolve (getDocumentsPath usr @ ?r)"
    using resolve_double_sep [of backslash backslash "getDocumentsPath usr @ folder" rel] by simp
  then have open2: "open_read fs (getDocumentsPath usr @ ?r2) = Some bs"
    using assms(1) open_read_same by metis
  have len: "length ?r < 2 ^ 32" "length ?r2 < 2 ^ 32" using assms(3) by simp_all
  let ?x = "int (length bs) + sum_list (path_deltas_of ?r) + sum_list (content_deltas 0 (text_mode bs))"
  from getFileHash_1001 [OF _ assms(1,2) len(1), where usr = usr] obtain h where
    h: "getFileHash usr fs (getDocumentsPath usr @ ?r) = Inr h" "sint h mod 1001 = ?x mod 1001" by auto
  have "sum_list (path_deltas_of ?r2) = sum_list (path_deltas_of ?r) + 92"
    by (simp add: path_deltas_of_def) (simp add: backslash_def)
  with getFileHash_1001 [OF _ open2 assms(2) len(2), where usr = usr] h eq have
    "?x mod 1001 = (?x + 92) mod 1001" by (auto simp: algebra_simps)
  then have "1001 dvd (?x + 92) - ?x" by (metis mod_eq_dvd_iff)
  then show False by simp
qed

end
