(* ===== verification/Handler_Pieces.thy ===== *)
theory Handler_Pieces
  imports Node_Requests
begin

text \<open>
  The functions of the handler thread, cut at the calls that wait: the answer to a request,
  the connection, the transfer. Put together again, the pieces are the functions of Node.
\<close>

section \<open>The code between two waiting calls\<close>

text \<open>A request up to the point where the answer is awaited, with \<open>dirLock\<close> taken; true when a
  request was sent.\<close>

definition ask_next :: "('u, 's, 'l, 'p) platform \<Rightarrow> IpAddress \<Rightarrow> fileChangeData \<Rightarrow> ('u, 's, 'l, 'p) machine \<Rightarrow>
    (bool \<times> ('u, 's, 'l, 'p) machine) result" where
  "ask_next E server fileChange n =
     (case change fileChange of
        Deletion \<Rightarrow>
          (case deleteFile (disk n) (local_path n (filePath fileChange)) of
             Inl e \<Rightarrow> Inl e
           | Inr (_, fs) \<Rightarrow> Inr (False, unlock_dirLock (n\<lparr>disk := fs\<rparr>)))
      | _ \<Rightarrow>
          (case already_have E n fileChange of
             Inl e \<Rightarrow> Inl e
           | Inr have_it \<Rightarrow>
               if have_it then Inr (False, unlock_dirLock n)
               else Inr (True, snd (send_udp E (put_request (packets E) fileChange 25565) server (udpPort n)
                      (n\<lparr>opened := opened n + 1\<rparr>)))))"

text \<open>The answer up to the connection: nothing when the server abandons the request, else the
  path, the open file and the port to connect to.\<close>

definition take_answer :: "('u, 's, 'l, 'p) platform \<Rightarrow> 'p \<Rightarrow> ('u, 's, 'l, 'p) machine \<Rightarrow>
    ((wstring \<times> ofstream \<times> u16) option \<times> ('u, 's, 'l, 'p) machine) result" where
  "take_answer E packet n =
     (case get_details (packets E) packet of Inl e \<Rightarrow> Inl e
      | Inr (abandon, fileChange, tcpPort) \<Rightarrow>
          if abandon then Inr (None, n)
          else (let path = local_path n (filePath fileChange)
                in (case acquireDirectories (disk n) path of Inl e \<Rightarrow> Inl e
                    | Inr (_, fs1) \<Rightarrow>
                        let (file, fs2) = open_write fs1 path
                        in Inr (Some (path, file, tcpPort), n\<lparr>disk := fs2\<rparr>))))"

text \<open>The end of a request, after the transfer.\<close>

definition finish_request :: "wstring \<Rightarrow> ofstream \<Rightarrow> ('u, 's, 'l, 'p) machine \<Rightarrow> ('u, 's, 'l, 'p) machine" where
  "finish_request path file n = unlock_dirLock (n\<lparr>disk := close_write (disk n) path file\<rparr>)"

text \<open>Serving a request up to the point where the server listens: the file to send, or nothing.\<close>

definition answer_request :: "('u, 's, 'l, 'p) platform \<Rightarrow> 'p UdpMessage \<Rightarrow> ('u, 's, 'l, 'p) machine \<Rightarrow>
    (ifstream option \<times> ('u, 's, 'l, 'p) machine) result" where
  "answer_request E message n =
     (case get_request (packets E) (msg_packet message) of Inl e \<Rightarrow> Inl e
      | Inr (fileChange, tcpNegotiationPort) \<Rightarrow>
          let path = local_path n (filePath fileChange);
              abandon = (\<not> fs_exists (disk n) path);
              (_, n1) = send_udp E (put_details (packets E) abandon fileChange 45016) (msg_ip message)
                          tcpNegotiationPort n
          in Inr (if abandon then None else Some (open_ifstream (disk n1) path), n1))"

text \<open>What is done after an answer was received, in one go.\<close>

definition after_answer :: "('u, 's, 'l, 'p) platform \<Rightarrow> 'p \<Rightarrow> IpAddress \<Rightarrow> ('u, 's, 'l, 'p) machine \<Rightarrow>
    ('u, 's, 'l, 'p) machine run" where
  "after_answer E packet sender n =
     run_bind (lift_result (take_answer E packet n)) (\<lambda>(r, n1).
       case r of
         None \<Rightarrow> Some (Inr (unlock_dirLock n1))
       | Some (path, file, port) \<Rightarrow>
           run_bind (Node_receiveFile E file (snd (startClient E sender port n1))) (\<lambda>(file', n2).
             Some (Inr (finish_request path file' n2))))"

text \<open>The pieces put together are the functions of \<open>Node\<close>.\<close>

lemma negotiate_in_pieces:
  assumes "Udp_receive (udps E) (snd (Udp_bind (udps E) 25565 (udp_new E (opened n)))) =
    (True, (packet, sender, sp), con)"
  shows "run_bind (negotiateTCPTransfer E 25565 fc pk server n) (\<lambda>(_, n2). Some (Inr (unlock_dirLock n2))) =
    after_answer E packet sender (snd (send_udp E pk server (udpPort n) (n\<lparr>opened := opened n + 1\<rparr>)))"
  using assms
  by (simp add: negotiateTCPTransfer_def after_answer_def take_answer_def lift_result_def split_def Let_def
      finish_request_def run_bind_def split: sum.splits option.splits)

lemma serve_in_pieces:
  "serve_request E message n =
     run_bind (lift_result (answer_request E message n)) (\<lambda>(f, n1).
       case f of None \<Rightarrow> Some (Inr n1) | Some file \<Rightarrow> Node_sendFile E file (startTcpServer E 45016 n1))"
  by (simp add: serve_request_def answer_request_def lift_result_def split_def Let_def run_bind_def
      split: sum.splits)

lemma request_in_pieces:
  assumes "Udp_receive (udps E) (snd (Udp_bind (udps E) 25565 (udp_new E (opened n)))) =
    (True, (packet, sender, sp), con)"
  shows "request_file E server fc n =
    run_bind (lock_dirLock n) (\<lambda>n1.
      run_bind (lift_result (ask_next E server fc n1)) (\<lambda>(wait, n2).
        if wait then after_answer E packet sender n2 else Some (Inr n2)))"
proof -
  have neg: "run_bind (negotiateTCPTransfer E 25565 fc pk server (n\<lparr>dirLocked := True\<rparr>))
      (\<lambda>(_, n2). Some (Inr (unlock_dirLock n2))) =
    after_answer E packet sender (snd (send_udp E pk server (udpPort n)
      (n\<lparr>dirLocked := True, opened := opened n + 1\<rparr>)))" for pk
    using negotiate_in_pieces [of E "n\<lparr>dirLocked := True\<rparr>"] assms by simp
  show ?thesis
  proof (cases "change fc")
    case Deletion
    then show ?thesis
      by (simp add: request_file_def ask_next_def lift_result_def lock_dirLock_def run_bind_def
          split: sum.splits)
  next
    case Addition
    then show ?thesis
      using neg by (simp add: request_file_def ask_next_def lift_result_def lock_dirLock_def
          split: sum.split)
  next
    case Edit
    then show ?thesis
      using neg by (simp add: request_file_def ask_next_def lift_result_def lock_dirLock_def
          split: sum.split)
  qed
qed

end
