(* ===== verification/Node_Hazards.thy ===== *)
theory Node_Hazards
  imports Sample_Network Hash_Modulus Handler_Pieces
begin

text \<open>
  What other computers on the network can make a node do: delete any file the user can
  delete, write where the answer says instead of where the request said, fetch again a file
  it has, and end by an empty datagram. The witnesses run on the network of Sample\_Network.
\<close>

section \<open>Deletions\<close>

text \<open>C32 The path of a deletion that is received is not checked: whatever file it resolves to, in
  the shared folder or outside of it (by leading dots), is removed from the disk, and no
  other file.\<close>

theorem deletion_reaches_any_file:
  assumes "\<not> dirLocked n" and "change fc = Deletion"
    and "resolve (local_path n (filePath fc)) = victim" "victim \<noteq> []" "file_at (disk n) victim = Some c"
  shows "\<exists>n'. request_file E server fc n = Some (Inr n') \<and>
    file_at (disk n') = (file_at (disk n))(victim := None) \<and> \<not> dirLocked n'"
proof -
  obtain fs' where fs: "deleteFile (disk n) (local_path n (filePath fc)) = Inr (True, fs')"
    using deleteFile_file assms(3-5) by metis
  then have "request_file E server fc n = Some (Inr (n\<lparr>disk := fs'\<rparr>))"
    using assms(1,2)
    by (simp add: request_file_def lock_dirLock_def unlock_dirLock_def lift_result_def local_path_def
        unlocked_update)
  moreover have "file_at fs' = (file_at (disk n))(victim := None)"
    using deleteFile_view [OF fs] assms(3) by simp
  ultimately show ?thesis using assms(1) by simp
qed

definition outside_disk :: fsnode where
  "outside_disk = Dir [(wide ''C:'', Dir [(wide ''Users'', Dir [(wide ''u'', Dir
     [(wide ''Documents'', Dir []), (wide ''mail'', File [72])])])])]"

definition outside_change :: fileChangeData where
  "outside_change = \<lparr>filePath = backslash # wide ''..'' @ backslash # wide ''mail'', fileHash = 0, change = Deletion\<rparr>"

lemma outside_resolve:
  "resolve (getDocumentsPath sample_usr @ backslash # filePath outside_change) =
     [wide ''C:'', wide ''Users'', wide ''u'', wide ''mail'']"
  by code_simp

theorem deletion_reaches_any_file_witness:
  "\<exists>n'. request_file (client_platform []) peer_ip outside_change
      (sample_machine (fresh_speer [], []) [] outside_disk []) = Some (Inr n') \<and>
    file_at outside_disk [wide ''C:'', wide ''Users'', wide ''u'', wide ''mail''] = Some [72] \<and>
    file_at (disk n') [wide ''C:'', wide ''Users'', wide ''u'', wide ''mail''] = None"
proof -
  let ?v = "[wide ''C:'', wide ''Users'', wide ''u'', wide ''mail'']"
  have mail: "file_at outside_disk ?v = Some [72]"
    by (simp add: file_at_iff outside_disk_def wide_def)
  from deletion_reaches_any_file [of "sample_machine (fresh_speer [], []) [] outside_disk []" outside_change ?v "[72]"
      "client_platform []" peer_ip]
  show ?thesis using mail outside_resolve by (auto simp: local_path_def outside_change_def)
qed

section \<open>Answers\<close>

text \<open>The parameter \<open>fileChange\<close> of \<open>negotiateTCPTransfer\<close> is not used.\<close>

lemma negotiate_any_request:
  "negotiateTCPTransfer E prt fc pk server n = negotiateTCPTransfer E prt fc' pk server n"
  by (simp add: negotiateTCPTransfer_def)

text \<open>C31 The answer chooses the file: whatever was requested, what the other end sends is
  written to the path that the answer names, and every other file, the requested one too,
  stays as it was.\<close>

theorem answer_names_the_file:
  assumes sock: "sender_socket (packets E) holds (tcp E) view put"
    and requested: "\<not> dirLocked n" "change asked \<noteq> Deletion" "already_have E n asked = Inr False"
    and answer: "change_ok fc" "answered E (opened n) False fc server" "filePath fc = join cs" "names_ok cs"
    and conn: "tcp_connect (tcp E) (ip_toString E server) 45016 30 (cl_socket (tcpClient n)) = (st, s)"
      "view s = fresh_speer bs" "length bs < 2 ^ 32"
    and disk: "dir_path (directory n)" "place_ok (disk n) (resolve (directory n) @ cs)"
  shows "\<exists>n'. request_file E server asked n = Some (Inr n') \<and>
    file_at (disk n') = (file_at (disk n))(resolve (directory n) @ cs \<mapsto> bs)"
proof -
  let ?n = "n\<lparr>dirLocked := True\<rparr>"
  have locked: "local_path ?n q = local_path n q" for q by (simp add: local_path_def)
  have missing: "already_have E ?n asked = Inr False"
    using requested(3) by (simp add: already_have_def locked cong: if_cong)
  from negotiate_receives [OF sock answer(1), of ?n server cs st s bs "put_request (packets E) asked 25565"]
  obtain n' where n': "negotiateTCPTransfer E 25565 fc (put_request (packets E) asked 25565) server ?n = Some (Inr (True, n'))"
    "file_at (disk n') = (file_at (disk n))(resolve (directory n) @ cs \<mapsto> bs)"
    using answer conn disk by auto
  then have "negotiateTCPTransfer E 25565 asked (put_request (packets E) asked 25565) server ?n = Some (Inr (True, n'))"
    using negotiate_any_request by metis
  then have "request_file E server asked n = Some (Inr (unlock_dirLock n'))"
    using requested(1,2) missing
    by (simp add: request_file_def lock_dirLock_def lift_result_def split: fileChangeType.splits)
  with n'(2) show ?thesis by (simp add: unlock_dirLock_def)
qed

text \<open>A file is asked for that the server does not name: it answers with another one.\<close>

definition other_change :: fileChangeData where
  "other_change = \<lparr>filePath = backslash # wide ''b'', fileHash = 1, change = Addition\<rparr>"

theorem answer_names_the_file_witness:
  "\<exists>n'. request_file (client_platform [put_details wire_api False sample_change 45016]) peer_ip other_change
      (sample_machine (fresh_speer [], [fresh_speer [72]]) [] empty_disk []) = Some (Inr n') \<and>
    file_at (disk n') [wide ''C:'', wide ''Users'', wide ''u'', wide ''Documents'', wide ''S'', wide ''a''] = Some [72]"
proof -
  let ?E = "client_platform [put_details wire_api False sample_change 45016]"
  let ?n = "sample_machine (fresh_speer [], [fresh_speer [72]]) [] empty_disk []"
  have sock: "sender_socket (packets ?E) wire_holds (tcp ?E) fst (\<lambda>v s. (v, snd s))"
    using wire_queue.sender_socket_axioms by simp
  have root: "node_at (disk ?n) (resolve (directory ?n)) = Some (Dir [])"
    using sample_empty_folder [of "(fresh_speer [], [fresh_speer [72]])" "[]"] by (simp add: empty_folder_def)
  from empty_place_ok [OF root, of "[wide ''b'']"]
  have none: "place_ok (disk ?n) (resolve (directory ?n) @ [wide ''b''])"
    "file_at (disk ?n) (resolve (directory ?n) @ [wide ''b'']) = None" by simp_all
  have other: "filePath other_change = join [wide ''b'']" "names_ok [wide ''b'']" "change other_change \<noteq> Deletion"
    by code_simp+
  from none have missing: "already_have ?E ?n other_change = Inr False"
    by (intro already_have_new [OF other(1,2)]) (simp_all add: place_ok_def)
  have fc: "filePath sample_change = join [wide ''S'', wide ''a'']" by (simp add: sample_rel_join)
  have ans: "answered ?E (opened ?n) False sample_change peer_ip"
    using sample_answered [of 0 "[put_details wire_api False sample_change 45016]" False sample_change]
    by (simp add: sample_machine_def)
  have conn: "tcp_connect (tcp ?E) (ip_toString ?E peer_ip) 45016 30 (cl_socket (tcpClient ?n)) =
      (Done, (fresh_speer [72], []))"
    by (simp add: sample_machine_def queue_api_def)
  from empty_place_ok [OF root, of "[wide ''S'', wide ''a'']"]
  have place: "place_ok (disk ?n) (resolve (directory ?n) @ [wide ''S'', wide ''a''])" by simp
  have "\<exists>n'. request_file ?E peer_ip other_change ?n = Some (Inr n') \<and>
      file_at (disk n') = (file_at (disk ?n))(resolve (directory ?n) @ [wide ''S'', wide ''a''] \<mapsto> [72])"
    by (rule answer_names_the_file [OF sock _ other(3) missing sample_change_ok ans fc sample_names_ok conn _ _ _ place])
      (simp_all add: sample_dir_path)
  then show ?thesis by (auto simp: sample_documents)
qed

section \<open>Files the node has\<close>

text \<open>The test of \<open>requestFiles\<close> for a file that need not be fetched compares with the hash of
  another spelling of the path, which depends on the spelling.\<close>

lemma not_already_have:
  assumes "directory n = getDocumentsPath (user E) @ folder"
    and "open_read (disk n) (directory n @ backslash # rel) = Some bs"
    and "length bs < 2 ^ 32" "length (folder @ backslash # rel) + 1 < 2 ^ 32"
    and "filePath fc = backslash # rel" "getFileHash (user E) (disk n) (directory n @ backslash # rel) = Inr (fileHash fc)"
  shows "already_have E n fc = Inr False"
proof -
  let ?p = "directory n @ backslash # backslash # rel"
  have ne: "getFileHash (user E) (disk n) ?p \<noteq> getFileHash (user E) (disk n) (directory n @ backslash # rel)"
    using getFileHash_double_separator [of "disk n" "user E" folder rel bs] assms(1-4) by simp
  show ?thesis
  proof (cases "getFileHash (user E) (disk n) ?p")
    case (Inl e)
    have "getFileHash (user E) (disk n) (getDocumentsPath (user E) @ folder @ backslash # backslash # rel) =
        Inr (hash_at (user E) (disk n) (getDocumentsPath (user E) @ folder @ backslash # backslash # rel))"
      by (rule getFileHash_under [of _ "getDocumentsPath (user E)", unfolded under_documents_def]) simp
    with Inl assms(1) show ?thesis by simp
  next
    case (Inr h)
    with ne assms(5,6) show ?thesis
      by (auto simp: already_have_def local_path_def)
  qed
qed

text \<open>C33 A file, shorter than 4 GiB, that the node has with exactly the content announced is
  requested again, whatever its bytes and the characters of its path: the test for it hashes the
  path with a doubled separator, while the announced hash was computed with a single one, and the
  two never agree. The request is sent to the node that announced the file, and the disk is left
  as it is.\<close>

theorem up_to_date_file_requested_again:
  assumes "directory n = getDocumentsPath (user E) @ folder"
    and "open_read (disk n) (directory n @ backslash # rel) = Some bs"
    and "length bs < 2 ^ 32" "length (folder @ backslash # rel) + 1 < 2 ^ 32"
    and "filePath fc = backslash # rel" "getFileHash (user E) (disk n) (directory n @ backslash # rel) = Inr (fileHash fc)"
    and "change fc \<noteq> Deletion"
  shows "\<exists>n'. ask_next E server fc n = Inr (True, n') \<and> disk n' = disk n \<and>
    udp n' = snd (Udp_send (udps E) (put_request (packets E) fc 25565) server (udpPort n) (udp n))"
  using not_already_have [OF assms(1-6)] assms(7)
  by (cases "change fc") (simp_all add: ask_next_def send_udp_def split_def Let_def)

theorem up_to_date_file_requested_again_witness:
  "\<exists>n'. ask_next (client_platform []) peer_ip sample_change (sample_machine (fresh_speer [], []) [] (sample_fs [72]) []) =
    Inr (True, n')"
proof -
  let ?n = "sample_machine (fresh_speer [], []) [] (sample_fs [72]) []"
  have rel: "backslash # tl sample_rel = sample_rel" by (simp add: sample_rel_def)
  have user: "user (client_platform []) = sample_usr" by (simp add: client_platform_def)
  have dir: "directory ?n = getDocumentsPath (user (client_platform [])) @ []" by (simp add: user)
  have h1: "open_read (disk ?n) (directory ?n @ backslash # tl sample_rel) = Some [72]"
    using sample_open [of "[72]"] by (simp add: rel sample_path_def)
  have h2: "length ([] @ backslash # tl sample_rel) + 1 < 2 ^ 32" by (simp add: sample_rel_def wide_def)
  have h3: "filePath sample_change = backslash # tl sample_rel" by (simp add: rel)
  have h4: "getFileHash (user (client_platform [])) (disk ?n) (directory ?n @ backslash # tl sample_rel) =
      Inr (fileHash sample_change)"
    using getFileHash_under [of sample_usr "getDocumentsPath sample_usr" "sample_fs [72]" sample_rel]
    by (simp add: rel user under_documents_def sample_hash_def sample_path_def)
  have h5: "change sample_change \<noteq> Deletion" by simp
  from up_to_date_file_requested_again [OF dir h1 _ h2 h3 h4 h5] show ?thesis by auto
qed

section \<open>Datagrams\<close>

text \<open>C36 An empty datagram from another computer ends the program: the id is read through the
  null pointer that \<open>getData\<close> returns for an empty packet.\<close>

theorem empty_datagram_crashes:
  assumes "Udp_receive (udps E) (udp n) = (True, (packet, sender, sp), u)" "\<not> isMyOwn E sender"
    and "packet_data (packets E) packet = []"
  shows "collect_packet E n = Some (Inl Null_dereference)"
  using assms by (simp add: collect_packet_def getPacketID_def lift_result_def)

theorem empty_datagram_crashes_witness:
  "collect_packet (client_platform [])
     (sample_machine (fresh_speer [], []) [(packet_new wire_api, peer_ip, 45773)] empty_disk []) =
   Some (Inl Null_dereference)"
  by (rule empty_datagram_crashes [where packet = "packet_new wire_api" and sender = peer_ip and sp = 45773 and u = "[]"])
    (simp_all add: Udp_receive_def inbox_api_def isMyOwn_def client_platform_def host_string_def peer_ip_def
      wire_api_def)

section \<open>Changes of other nodes\<close>

text \<open>The changes a node broadcasts are handled as they were noticed: a packet in which a vector of
  changes arrives is turned into requests for exactly these changes, in their order, to its
  sender.\<close>

theorem broadcast_changes_requested:
  assumes "packet_laws (packets E) holds" "changes_ok fcs"
  shows "handle_message E
      \<lparr>msg_packet = packet_arrived (packets E) (put_fileChanges (packets E) (packet_new (packets E)) fcs),
       msg_ip = server, msg_port = prt\<rparr> n = requestFiles E fcs server n"
proof -
  let ?p = "packet_arrived (packets E) (put_fileChanges (packets E) (packet_new (packets E)) fcs)"
  from get_fileChanges_sent [OF assms] obtain p' where g: "get_fileChanges (packets E) ?p [] = Inr (fcs, p')"
    by blast
  have "changes_fields fcs = Uint8 6 # tl (changes_fields fcs)" by (simp add: changes_fields_def)
  with packet_laws.packet_id [OF assms(1), of 6 "tl (changes_fields fcs)"] changes_fields_ok [OF assms(2)]
  have "getPacketID (packets E) ?p = Inr 6" by (simp add: put_fileChanges_fields)
  with g show ?thesis by (simp add: handle_message_def readResponseToArrival_def lift_result_def)
qed

theorem broadcast_changes_requested_witness:
  "handle_message (client_platform [])
      \<lparr>msg_packet = packet_arrived wire_api (put_fileChanges wire_api (packet_new wire_api) [sample_change]),
       msg_ip = peer_ip, msg_port = 45773\<rparr> (sample_machine (fresh_speer [], []) [] empty_disk []) =
   requestFiles (client_platform []) [sample_change] peer_ip (sample_machine (fresh_speer [], []) [] empty_disk [])"
  using broadcast_changes_requested [of "client_platform []" wire_holds "[sample_change]" peer_ip 45773]
    wire.packet_laws_axioms sample_change_ok by (simp add: changes_ok_def)

end
