(* ===== verification/Two_Sides.thy ===== *)
theory Two_Sides
  imports Prelude
begin

text \<open>The two computers of a network of two.\<close>

datatype side = A | B

fun other :: "side \<Rightarrow> side" where
  "other A = B"
| "other B = A"

lemma other_other [simp]: "other (other i) = i"
  by (cases i) simp_all

lemma other_neq [simp]: "other i \<noteq> i" "i \<noteq> other i"
  by (cases i; simp)+

lemma all_sides: "(\<forall>i. P i) \<longleftrightarrow> P A \<and> P B"
  by (metis side.exhaust)

end
