(* ===== verification/Handler_Deadlock.thy ===== *)
theory Handler_Deadlock
  imports Two_Sides
begin

text \<open>
  The handler threads of two nodes. A handler that processes changes (packet id 6) sends a
  request for each of them to the other node and waits in \<open>negotiateTCPTransfer\<close> for the
  answer, without a timeout; requests (id 5) are answered by the same thread, and only when
  it takes the next message from its queue. Messages are counted here and a request is
  answered in one step; Two\_Nodes has the same handlers with what they send and store.
\<close>

datatype message = Request | Changes nat

record handler =
  queue :: "message list"
  to_request :: nat
  waiting :: bool
  answers :: nat

type_synonym network = "side \<Rightarrow> handler"

text \<open>A handler at the head of its loop takes a message from its queue.\<close>

definition handler_next :: "side \<Rightarrow> network \<Rightarrow> network option" where
  "handler_next i s =
     (if waiting (s i)
      then (case answers (s i) of
              0 \<Rightarrow> None
            | Suc k \<Rightarrow> Some (s(i := (s i)\<lparr>waiting := False, answers := k, to_request := to_request (s i) - 1\<rparr>)))
      else if to_request (s i) > 0
      then (let s1 = s(i := (s i)\<lparr>waiting := True\<rparr>); j = other i
            in Some (s1(j := (s1 j)\<lparr>queue := queue (s1 j) @ [Request]\<rparr>)))
      else (case queue (s i) of
              [] \<Rightarrow> None
            | Request # rest \<Rightarrow>
                (let s1 = s(i := (s i)\<lparr>queue := rest\<rparr>); j = other i
                 in Some (s1(j := (s1 j)\<lparr>answers := answers (s1 j) + 1\<rparr>)))
            | Changes k # rest \<Rightarrow> Some (s(i := (s i)\<lparr>queue := rest, to_request := k\<rparr>))))"

inductive handlers_step :: "network \<Rightarrow> network \<Rightarrow> bool" where
  "handler_next i s = Some t \<Longrightarrow> handlers_step s t"

inductive_cases handlers_stepE: "handlers_step s t"

definition idle :: "message list \<Rightarrow> handler" where
  "idle q = \<lparr>queue = q, to_request = 0, waiting = False, answers = 0\<rparr>"

definition network_of :: "handler \<Rightarrow> handler \<Rightarrow> network" where
  "network_of a b = (\<lambda>i. case i of A \<Rightarrow> a | B \<Rightarrow> b)"

lemma network_of_simps [simp]:
  "network_of a b A = a" "network_of a b B = b"
  "(network_of a b)(A := c) = network_of c b" "(network_of a b)(B := c) = network_of a c"
  by (auto simp: network_of_def fun_eq_iff split: side.split)

definition stuck :: "nat \<Rightarrow> nat \<Rightarrow> network" where
  "stuck k l = network_of ((idle [Request])\<lparr>waiting := True, to_request := k\<rparr>)
     ((idle [Request])\<lparr>waiting := True, to_request := l\<rparr>)"

lemma step_in_steps: "handlers_step\<^sup>*\<^sup>* s t \<Longrightarrow> handler_next i t = Some u \<Longrightarrow> handlers_step\<^sup>*\<^sup>* s u"
  by (meson handlers_step.intros rtranclp.rtrancl_into_rtrancl)

lemma stuck_reached:
  assumes "0 < k" "0 < l"
  shows "handlers_step\<^sup>*\<^sup>* (network_of (idle [Changes k]) (idle [Changes l])) (stuck k l)"
proof -
  let ?a = "(idle [])\<lparr>to_request := k\<rparr>" and ?b = "(idle [])\<lparr>to_request := l\<rparr>"
  let ?aw = "?a\<lparr>waiting := True\<rparr>" and ?bq = "?b\<lparr>queue := [Request]\<rparr>"
  have "handler_next A (network_of (idle [Changes k]) (idle [Changes l])) = Some (network_of ?a (idle [Changes l]))"
    "handler_next B (network_of ?a (idle [Changes l])) = Some (network_of ?a ?b)"
    "handler_next A (network_of ?a ?b) = Some (network_of ?aw ?bq)"
    "handler_next B (network_of ?aw ?bq) = Some (stuck k l)"
    using assms by (simp_all add: handler_next_def idle_def Let_def stuck_def)
  then show ?thesis by (meson step_in_steps rtranclp.rtrancl_refl)
qed

text \<open>Two nodes that broadcast changes at the same time can lock each other up: from the
  state where each has the other's changes in its queue a state is reachable in which both
  handlers wait for an answer, each with the other's request in its own queue, and no handler
  ever moves again.\<close>

theorem handlers_deadlock:
  assumes "0 < k" "0 < l"
  shows "\<exists>s. handlers_step\<^sup>*\<^sup>* (network_of (idle [Changes k]) (idle [Changes l])) s \<and>
    (\<forall>i. waiting (s i) \<and> queue (s i) = [Request]) \<and> (\<nexists>t. handlers_step s t)"
proof (intro exI conjI)
  show "handlers_step\<^sup>*\<^sup>* (network_of (idle [Changes k]) (idle [Changes l])) (stuck k l)"
    using assms by (rule stuck_reached)
  show "\<forall>i. waiting (stuck k l i) \<and> queue (stuck k l i) = [Request]"
    by (simp add: stuck_def idle_def network_of_def split: side.split)
  have "handler_next i (stuck k l) = None" for i
    by (cases i) (simp_all add: stuck_def idle_def handler_next_def)
  then show "\<nexists>t. handlers_step (stuck k l) t" by (auto elim: handlers_stepE)
qed

theorem handlers_deadlock_witness:
  "\<exists>s. handlers_step\<^sup>*\<^sup>* (network_of (idle [Changes 1]) (idle [Changes 1])) s \<and>
    (\<forall>i. waiting (s i) \<and> queue (s i) = [Request]) \<and> (\<nexists>t. handlers_step s t)"
  by (rule handlers_deadlock) simp_all

section \<open>Changes on one side only\<close>

definition asking :: "nat \<Rightarrow> network" where
  "asking n = network_of ((idle [])\<lparr>to_request := n\<rparr>) (idle [])"

definition asked :: "nat \<Rightarrow> network" where
  "asked n = network_of ((idle [])\<lparr>to_request := n, waiting := True\<rparr>) (idle [Request])"

definition answered :: "nat \<Rightarrow> network" where
  "answered n = network_of ((idle [])\<lparr>to_request := n, waiting := True, answers := 1\<rparr>) (idle [])"

definition one_side :: "nat \<Rightarrow> network" where
  "one_side k = network_of (idle [Changes k]) (idle [])"

definition one_sided :: "network \<Rightarrow> bool" where
  "one_sided s \<longleftrightarrow> (\<exists>n. s = one_side n \<or> s = asking n \<or> (0 < n \<and> (s = asked n \<or> s = answered n)))"

text \<open>Three steps for each request, and one for the packet of changes.\<close>

definition handlers_weight :: "network \<Rightarrow> nat" where
  "handlers_weight s =
     3 * to_request (s A) + (case queue (s A) of [Changes k] \<Rightarrow> 3 * k + 1 | _ \<Rightarrow> 0) -
     (if waiting (s A) then 1 else 0) - answers (s A)"

lemmas one_sided_states = one_side_def asking_def asked_def answered_def idle_def

lemma one_sided_next:
  "handler_next i (one_side n) = (if i = A then Some (asking n) else None)"
  "handler_next i (asking n) = (if i = A \<and> 0 < n then Some (asked n) else None)"
  "0 < n \<Longrightarrow> handler_next i (asked n) = (if i = B then Some (answered n) else None)"
  "0 < n \<Longrightarrow> handler_next i (answered n) = (if i = A then Some (asking (n - 1)) else None)"
  by (cases i; simp add: handler_next_def one_sided_states Let_def)+

lemma one_sided_weight:
  "handlers_weight (one_side n) = 3 * n + 1" "handlers_weight (asking n) = 3 * n"
  "handlers_weight (asked n) = 3 * n - 1" "handlers_weight (answered n) = 3 * n - 2"
  by (simp_all add: handlers_weight_def one_sided_states)

lemma one_sided_step:
  assumes "one_sided s" "handlers_step s t"
  shows "one_sided t" "handlers_weight t < handlers_weight s"
proof -
  from assms(2) obtain i where i: "handler_next i s = Some t" by (auto elim: handlers_stepE)
  from assms(1) obtain n where "s = one_side n \<or> s = asking n \<or> (0 < n \<and> (s = asked n \<or> s = answered n))"
    by (auto simp: one_sided_def)
  with i have "(s = one_side n \<and> t = asking n) \<or> (0 < n \<and> (s = asking n \<and> t = asked n \<or>
      s = asked n \<and> t = answered n \<or> s = answered n \<and> t = asking (n - 1)))"
    by (auto simp: one_sided_next split: if_splits)
  then show "one_sided t" "handlers_weight t < handlers_weight s"
    by (auto simp: one_sided_def one_sided_weight)
qed

interpretation one_sided: terminating_system "\<lambda>s. s = one_side k" handlers_step one_sided handlers_weight for k
  by unfold_locales (blast intro: one_sided_step one_sided_def [THEN iffD2])+

text \<open>When only one of two nodes has changes for the other, its handler finishes: at most
  three steps a file and one more are taken, and both handlers end idle with empty queues.\<close>

theorem one_sided_changes_finish:
  assumes "(handlers_step ^^ m) (one_side k) s"
  shows "m \<le> 3 * k + 1 \<and> handlers_step\<^sup>*\<^sup>* s (network_of (idle []) (idle []))"
proof -
  have start: "one_sided (one_side k)" by (auto simp: one_sided_def)
  have "m + handlers_weight s \<le> handlers_weight (one_side k)"
    using assms start by (rule one_sided.steps_bounded)
  then have m: "m \<le> 3 * k + 1" by (simp add: one_sided_weight)
  have inv: "one_sided s"
    using assms start by (meson one_sided.inv_steps relpowp_imp_rtranclp)
  from one_sided.reaches_end [OF this] obtain t where t: "handlers_step\<^sup>*\<^sup>* s t" "\<nexists>u. handlers_step t u"
    by blast
  have "one_sided t" using one_sided.inv_steps t(1) inv by blast
  then obtain n where "t = one_side n \<or> t = asking n \<or> (0 < n \<and> (t = asked n \<or> t = answered n))"
    by (auto simp: one_sided_def)
  moreover have "handler_next i t = None" for i
    using t(2) handlers_step.intros by (cases "handler_next i t") auto
  then have "handler_next A t = None" "handler_next B t = None" by simp_all
  ultimately have "t = asking 0" by (auto simp: one_sided_next split: if_splits)
  then have "t = network_of (idle []) (idle [])" by (simp add: asking_def idle_def)
  with t(1) m show ?thesis by simp
qed

theorem one_sided_changes_finish_witness:
  "handlers_step\<^sup>*\<^sup>* (one_side 2) (network_of (idle []) (idle []))"
  using one_sided_changes_finish [of 0 2 "one_side 2"] by simp

end
