(* ===== verification/Two_Nodes.thy ===== *)
theory Two_Nodes
  imports Handler_Pieces Initial_Sync Two_Sides
begin

text \<open>
  Two running nodes and the network between them. The handler thread of each goes from one
  waiting call to the next by the pieces of Handler\_Pieces. The datagrams a node sends are
  put into the queue of the other one, where its discover thread puts them (handlers send none
  with the id 0), or into the socket of a negotiation; a transfer runs by the steps of
  File\_Transfer, on the link of the two nodes and not on the sockets of their machines.
\<close>

section \<open>State\<close>

text \<open>Where a handler waits, with what its functions still have to do: at the head of its loop;
  in \<open>requestFiles\<close>, before the next change; in \<open>negotiateTCPTransfer\<close>, for the answer; before
  \<open>connect\<close>, with address and port; in \<open>receiveFile\<close>, on the link of the two nodes; in \<open>receiveFile\<close>
  on a socket whose \<open>connect\<close> failed, with the file it writes; before \<open>listen\<close>; in \<open>accept\<close>; in
  \<open>sendFile\<close>.\<close>

datatype handler_pc =
    Looping
  | Requests IpAddress "fileChangeData list"
  | Awaits IpAddress "fileChangeData list"
  | Connects IpAddress u16 wstring ofstream IpAddress "fileChangeData list"
  | Receives wstring IpAddress "fileChangeData list"
  | Unconnected wstring ofstream IpAddress "fileChangeData list"
  | Prepares ifstream
  | Listens ifstream
  | Sends bytes

text \<open>The socket of a node keeps what was sent until the network takes it.\<close>

type_synonym 'p outbox = "('p \<times> IpAddress \<times> u16) list"

definition outbox_api :: "'p packet_api \<Rightarrow> ('p outbox, 'p) udp_api" where
  "outbox_api P =
     \<lparr>udp_bind = (\<lambda>port u. (Done, u)),
      udp_send = (\<lambda>packet ip port u. (Done, u @ [(packet, ip, port)])),
      udp_receive = (\<lambda>u. (NotReady, (packet_new P, IpAddress_None, 0), u))\<rparr>"

record ('s, 'l, 'p) endpoint =
  host :: "('p outbox, 's, 'l, 'p) machine"
  negotiation :: "('p \<times> IpAddress) list"
  pc :: handler_pc

record ('s, 'l, 'p) network =
  ends :: "side \<Rightarrow> ('s, 'l, 'p) endpoint"
  link :: "'p transfer option"

section \<open>Steps\<close>

text \<open>The messages that are dealt with at once: tables, and those the program does not use.\<close>

definition short_message :: "('u, 's, 'l, 'p) platform \<Rightarrow> u8 \<Rightarrow> 'p UdpMessage \<Rightarrow> ('u, 's, 'l, 'p) machine \<Rightarrow>
    ('u, 's, 'l, 'p) machine result" where
  "short_message E pid message n =
     (if pid = 1
      then (case readResponseToArrival E message of Inl e \<Rightarrow> Inl e
            | Inr _ \<Rightarrow> Inr (n\<lparr>receivedTable := True, tableManagerMessage := Some message\<rparr>))
      else if pid = 2 then Inr n
      else (case unknownPacket E message of Inl e \<Rightarrow> Inl e | Inr _ \<Rightarrow> Inr n))"

text \<open>The message a handler took from its queue.\<close>

definition next_message :: "('u, 's, 'l, 'p) platform \<Rightarrow> 'p UdpMessage \<Rightarrow> ('u, 's, 'l, 'p) machine \<Rightarrow>
    (handler_pc \<times> ('u, 's, 'l, 'p) machine) result" where
  "next_message E message n =
     (case getPacketID (packets E) (msg_packet message) of Inl e \<Rightarrow> Inl e
      | Inr pid \<Rightarrow>
          if pid = 5
          then (case answer_request E message n of Inl e \<Rightarrow> Inl e
                | Inr (f, n1) \<Rightarrow> Inr (case f of None \<Rightarrow> Looping | Some file \<Rightarrow> Prepares file, n1))
          else if pid = 6
          then (case get_fileChanges (packets E) (msg_packet message) [] of Inl e \<Rightarrow> Inl e
                | Inr (fileChanges, _) \<Rightarrow> Inr (Requests (msg_ip message) fileChanges, n))
          else (case short_message E pid message n of Inl e \<Rightarrow> Inl e | Inr n1 \<Rightarrow> Inr (Looping, n1)))"

lemma handle_message_in_pieces:
  "handle_message E message n =
     run_bind (lift_result (getPacketID (packets E) (msg_packet message))) (\<lambda>pid.
       if pid = 5 then serve_request E message n
       else if pid = 6
       then run_bind (lift_result (get_fileChanges (packets E) (msg_packet message) [])) (\<lambda>(fileChanges, _).
              requestFiles E fileChanges (msg_ip message) n)
       else lift_result (short_message E pid message n))"
  by (auto simp: handle_message_def short_message_def lift_result_def run_bind_def intro!: ext split: sum.splits)

text \<open>What a handler does alone, up to its next waiting call: nothing where it waits. A handler
  that finds neither changes nor messages is about to find the same again.\<close>

definition handler_move :: "('p outbox, 's, 'l, 'p) platform \<Rightarrow> ('s, 'l, 'p) endpoint \<Rightarrow>
    ('s, 'l, 'p) endpoint result option" where
  "handler_move E e =
     (case pc e of
        Looping \<Rightarrow>
          (let n1 = flush_changes E (host e)
           in (case todoUdp n1 of
                 [] \<Rightarrow> if dirLocked (host e) \<or> changeBuf (host e) = [] then None else Some (Inr (e\<lparr>host := n1\<rparr>))
               | message # rest \<Rightarrow>
                   Some (case next_message E message (n1\<lparr>todoUdp := rest\<rparr>) of Inl x \<Rightarrow> Inl x
                         | Inr (c, n2) \<Rightarrow> Inr (e\<lparr>host := n2, pc := c\<rparr>))))
      | Requests server [] \<Rightarrow> Some (Inr (e\<lparr>pc := Looping\<rparr>))
      | Requests server (fileChange # fileChanges) \<Rightarrow>
          (case lock_dirLock (host e) of
             None \<Rightarrow> None
           | Some (Inl x) \<Rightarrow> Some (Inl x)
           | Some (Inr n1) \<Rightarrow>
               Some (case ask_next E server fileChange n1 of Inl x \<Rightarrow> Inl x
                     | Inr (wait, n2) \<Rightarrow>
                         Inr (if wait then e\<lparr>host := n2, negotiation := [], pc := Awaits server fileChanges\<rparr>
                              else e\<lparr>host := n2, pc := Requests server fileChanges\<rparr>)))
      | Awaits server fileChanges \<Rightarrow>
          (case negotiation e of
             [] \<Rightarrow> None
           | (packet, sender) # rest \<Rightarrow>
               Some (case take_answer E packet (host e) of Inl x \<Rightarrow> Inl x
                     | Inr (None, n1) \<Rightarrow> Inr (e\<lparr>host := unlock_dirLock n1, pc := Requests server fileChanges\<rparr>)
                     | Inr (Some (path, file, port), n1) \<Rightarrow>
                         Inr (e\<lparr>host := n1, pc := Connects sender port path file server fileChanges\<rparr>)))
      | Prepares file \<Rightarrow> Some (Inr (e\<lparr>host := startTcpServer E 45016 (host e), pc := Listens file\<rparr>))
      | _ \<Rightarrow> None)"

text \<open>The datagrams from address \<open>sender\<close> that reach an endpoint: those sent to it or to all. A
  socket of a negotiation exists only while its answer is awaited.\<close>

definition is_awaiting :: "handler_pc \<Rightarrow> bool" where
  "is_awaiting c = (case c of Awaits _ _ \<Rightarrow> True | _ \<Rightarrow> False)"

fun deliver :: "('u, 's, 'l, 'p) platform \<Rightarrow> IpAddress \<Rightarrow> 'p outbox \<Rightarrow> ('s, 'l, 'p) endpoint \<Rightarrow>
    ('s, 'l, 'p) endpoint" where
  "deliver E sender [] e = e"
| "deliver E sender ((packet, ip, port) # out) e =
     deliver E sender out
       (if ip \<noteq> localAddress E \<and> ip \<noteq> broadcastAddress E then e
        else if port = udpPort (host e)
        then e\<lparr>host := (host e)\<lparr>todoUdp := todoUdp (host e) @
          [\<lparr>msg_packet = packet_arrived (packets E) packet, msg_ip = sender, msg_port = udpPort (host e)\<rparr>]\<rparr>\<rparr>
        else if port = 25565 \<and> is_awaiting (pc e)
        then e\<lparr>negotiation := negotiation e @ [(packet_arrived (packets E) packet, sender)]\<rparr>
        else e)"

text \<open>End \<open>i\<close> has moved to \<open>e\<close>: what it sent is delivered to the other end.\<close>

definition post :: "(side \<Rightarrow> ('p outbox, 's, 'l, 'p) platform) \<Rightarrow> side \<Rightarrow> ('s, 'l, 'p) endpoint \<Rightarrow>
    ('s, 'l, 'p) network \<Rightarrow> ('s, 'l, 'p) network" where
  "post E i e s =
     s\<lparr>ends := (ends s)
         (i := e\<lparr>host := (host e)\<lparr>udp := []\<rparr>\<rparr>,
          other i := deliver (E (other i)) (localAddress (E i)) (udp (host e)) (ends s (other i)))\<rparr>"

text \<open>Steps in which a client connects at a time when the server listens. The rules are those of all
  steps (\<open>net_step\<close>) but for \<open>refused\<close>.\<close>

inductive timely_step :: "(side \<Rightarrow> ('p outbox, 's, 'l, 'p) platform) \<Rightarrow> ('s, 'l, 'p) network \<Rightarrow>
    ('s, 'l, 'p) network \<Rightarrow> bool" for E where
  move: "handler_move (E i) (ends s i) = Some (Inr e) \<Longrightarrow> timely_step E s (post E i e s)"
| connect: "pc (ends s i) = Connects (localAddress (E (other i))) 45016 path out server fileChanges \<Longrightarrow> pc (ends s (other i)) = Listens file \<Longrightarrow>
    timely_step E s (s\<lparr>ends := (ends s)
        (i := (ends s i)\<lparr>pc := Receives path server fileChanges\<rparr>,
         other i := (ends s (other i))\<lparr>pc := Sends (in_rest file)\<rparr>),
      link := Some (transfer_init file out)\<rparr>)"
| transfer: "link s = Some t \<Longrightarrow> transfer_step (packets (E A)) t u \<Longrightarrow> timely_step E s (s\<lparr>link := Some u\<rparr>)"
| sent: "pc (ends s i) = Sends bs \<Longrightarrow> link s = Some t \<Longrightarrow> snd_pc t = Sent \<Longrightarrow>
    timely_step E s (s\<lparr>ends := (ends s)(i := (ends s i)\<lparr>pc := Looping\<rparr>)\<rparr>)"
| received: "pc (ends s i) = Receives path server fileChanges \<Longrightarrow> link s = Some t \<Longrightarrow> rcv_pc t = Received \<Longrightarrow>
    timely_step E s (s\<lparr>ends := (ends s)(i := (ends s i)
      \<lparr>host := finish_request path (rcv_file t) (host (ends s i)), pc := Requests server fileChanges\<rparr>)\<rparr>)"

inductive_cases timely_stepE: "timely_step E s t"

text \<open>All steps of the two nodes: a client that connects before the server listens is refused. It
  does not look at the result of \<open>connect\<close> and goes on into \<open>receiveFile\<close>, which runs on the
  socket as the attempt left it; if that call ever returns, the request ends as usual.\<close>

inductive net_step :: "(side \<Rightarrow> ('p outbox, 's, 'l, 'p) platform) \<Rightarrow> ('s, 'l, 'p) network \<Rightarrow>
    ('s, 'l, 'p) network \<Rightarrow> bool" for E where
  timely: "timely_step E s t \<Longrightarrow> net_step E s t"
| refused: "pc (ends s i) = Connects ip port path out server fileChanges \<Longrightarrow>
    \<not> (\<exists>file. ip = localAddress (E (other i)) \<and> port = 45016 \<and> pc (ends s (other i)) = Listens file) \<Longrightarrow>
    startClient (E i) ip port (host (ends s i)) = (ok, n) \<Longrightarrow>
    net_step E s (s\<lparr>ends := (ends s)(i := (ends s i)\<lparr>host := n, pc := Unconnected path out server fileChanges\<rparr>)\<rparr>)"
| returned: "pc (ends s i) = Unconnected path out server fileChanges \<Longrightarrow>
    Node_receiveFile (E i) out (host (ends s i)) = Some (Inr (out', n)) \<Longrightarrow>
    net_step E s (s\<lparr>ends := (ends s)(i := (ends s i)
      \<lparr>host := finish_request path out' n, pc := Requests server fileChanges\<rparr>)\<rparr>)"

inductive_cases net_stepE: "net_step E s t"

text \<open>What can go wrong or come from outside: a datagram is lost; a user changes the disk; the
  watcher has a round, which takes \<open>dirLock\<close>.\<close>

inductive noisy_step :: "(side \<Rightarrow> ('p outbox, 's, 'l, 'p) platform) \<Rightarrow> ('s, 'l, 'p) network \<Rightarrow>
    ('s, 'l, 'p) network \<Rightarrow> bool" for E where
  normal: "net_step E s t \<Longrightarrow> noisy_step E s t"
| lost_message: "todoUdp (host (ends s i)) = ms @ m # ms' \<Longrightarrow>
    noisy_step E s (s\<lparr>ends := (ends s)(i := (ends s i)\<lparr>host := (host (ends s i))\<lparr>todoUdp := ms @ ms'\<rparr>\<rparr>)\<rparr>)"
| lost_answer: "negotiation (ends s i) = ms @ m # ms' \<Longrightarrow>
    noisy_step E s (s\<lparr>ends := (ends s)(i := (ends s i)\<lparr>negotiation := ms @ ms'\<rparr>)\<rparr>)"
| users: "noisy_step E s (s\<lparr>ends := (ends s)(i := (ends s i)\<lparr>host := (host (ends s i))\<lparr>disk := fs\<rparr>\<rparr>)\<rparr>)"
| watcher: "lock_dirLock (host (ends s i)) = Some (Inr n) \<Longrightarrow>
    watch_round (user (E i)) (disk n) (directory n) \<lparr>watchHashes = table, fileChangeBuf = changeBuf n\<rparr> = Inr w \<Longrightarrow>
    noisy_step E s (s\<lparr>ends := (ends s)(i := (ends s i)
      \<lparr>host := unlock_dirLock (n\<lparr>changeBuf := fileChangeBuf w\<rparr>)\<rparr>)\<rparr>)"

inductive_cases noisy_stepE: "noisy_step E s t"

section \<open>Moves\<close>

text \<open>The two platforms differ in their addresses and users only.\<close>

definition net_ok :: "(side \<Rightarrow> ('p outbox, 's, 'l, 'p) platform) \<Rightarrow> 'p packet_api \<Rightarrow> bool" where
  "net_ok E P \<longleftrightarrow> (\<forall>i. packets (E i) = P \<and> udps (E i) = outbox_api P \<and>
     broadcastAddress (E i) = broadcastAddress (E (other i)))"

text \<open>What the proofs follow of an endpoint whose messages have been delivered.\<close>

definition at_stage :: "wstring \<Rightarrow> fsnode \<Rightarrow> handler_pc \<Rightarrow> 'p UdpMessage list \<Rightarrow> ('p \<times> IpAddress) list \<Rightarrow>
    fileChangeData list \<Rightarrow> bool \<Rightarrow> ('s, 'l, 'p) endpoint \<Rightarrow> bool" where
  "at_stage d fs c ms ng buf lk e \<longleftrightarrow> directory (host e) = d \<and> disk (host e) = fs \<and> pc e = c \<and>
     todoUdp (host e) = ms \<and> negotiation e = ng \<and> changeBuf (host e) = buf \<and> dirLocked (host e) = lk \<and>
     udp (host e) = [] \<and> udpPort (host e) = 45773"

definition changes_message :: "'p packet_api \<Rightarrow> IpAddress \<Rightarrow> fileChangeData list \<Rightarrow> 'p UdpMessage" where
  "changes_message P ip fcs =
     \<lparr>msg_packet = packet_arrived P (put_fileChanges P (packet_new P) fcs), msg_ip = ip, msg_port = 45773\<rparr>"

definition request_message :: "'p packet_api \<Rightarrow> IpAddress \<Rightarrow> fileChangeData \<Rightarrow> 'p UdpMessage" where
  "request_message P ip fc =
     \<lparr>msg_packet = packet_arrived P (put_request P fc 25565), msg_ip = ip, msg_port = 45773\<rparr>"

lemma post_ends [simp]:
  "ends (post E i e s) i = e\<lparr>host := (host e)\<lparr>udp := []\<rparr>\<rparr>"
  "ends (post E i e s) (other i) = deliver (E (other i)) (localAddress (E i)) (udp (host e)) (ends s (other i))"
  "link (post E i e s) = link s"
  by (simp_all add: post_def)

text \<open>An endpoint whose datagrams the network has taken.\<close>

definition sent_off :: "('s, 'l, 'p) endpoint \<Rightarrow> ('s, 'l, 'p) endpoint" where
  "sent_off e = e\<lparr>host := (host e)\<lparr>udp := []\<rparr>\<rparr>"

lemma send_outbox [simp]:
  "udps E = outbox_api P \<Longrightarrow> send_udp E pk ip prt n = (True, n\<lparr>udp := udp n @ [(pk, ip, prt)]\<rparr>)"
  by (simp add: send_udp_def Udp_send_def outbox_api_def)

lemma already_have_cong:
  "disk n = disk m \<Longrightarrow> directory n = directory m \<Longrightarrow> already_have E n fc = already_have E m fc"
  by (simp add: already_have_def local_path_def cong: if_cong)

lemma deliver_queue:
  assumes "at_stage d fs c ms ng buf lk e" "packets E = P" "ip = localAddress E \<or> ip = broadcastAddress E"
  shows "at_stage d fs c (ms @ [\<lparr>msg_packet = packet_arrived P pk, msg_ip = from, msg_port = 45773\<rparr>]) ng buf lk
    (deliver E from [(pk, ip, 45773)] e)"
  using assms by (auto simp: at_stage_def)

lemma deliver_answer:
  assumes "at_stage d fs (Awaits server fcs) ms ng buf lk e" "packets E = P" "ip = localAddress E"
  shows "at_stage d fs (Awaits server fcs) ms (ng @ [(packet_arrived P pk, from)]) buf lk
    (deliver E from [(pk, ip, 25565)] e)"
  using assms by (auto simp: at_stage_def is_awaiting_def)

lemma flush_at_stage:
  assumes "net_ok E P" "\<not> dirLocked n" "udpPort n = 45773" "udp n = []"
  shows "\<exists>t. flush_changes (E i) n = n\<lparr>fileHashes := t, changeBuf := [],
    udp := (if changeBuf n = [] then []
            else [(put_fileChanges P (packet_new P) (changeBuf n), broadcastAddress (E i), 45773)])\<rparr>"
  using assms
  by (cases "changeBuf n")
    (auto simp: flush_changes_def flush_fileChangeBuf_def broadcast_def net_ok_def send_outbox [of "E i" P]
      simp del: send_outbox intro: exI [of _ "fileHashes n"])

lemma flush_idle: "changeBuf n = [] \<Longrightarrow> flush_changes E n = n"
  by (simp add: flush_changes_def flush_fileChangeBuf_def)

lemma move_announce:
  assumes net: "net_ok E P" and here: "at_stage d fs Looping [] ng buf False (ends s i)" and "buf \<noteq> []"
    and there: "at_stage d' fs' c ms ng' buf' lk (ends s (other i))"
  shows "\<exists>e. handler_move (E i) (ends s i) = Some (Inr e) \<and>
    at_stage d fs Looping [] ng [] False (ends (post E i e s) i) \<and>
    at_stage d' fs' c (ms @ [changes_message P (localAddress (E i)) buf]) ng' buf' lk (ends (post E i e s) (other i))"
proof -
  let ?e = "ends s i"
  obtain t where f: "flush_changes (E i) (host ?e) = (host ?e)\<lparr>fileHashes := t, changeBuf := [],
      udp := [(put_fileChanges P (packet_new P) buf, broadcastAddress (E i), 45773)]\<rparr>"
    using flush_at_stage [OF net, of "host ?e" i] here \<open>buf \<noteq> []\<close> by (auto simp: at_stage_def)
  let ?e' = "?e\<lparr>host := flush_changes (E i) (host ?e)\<rparr>"
  have "handler_move (E i) ?e = Some (Inr ?e')"
    using here \<open>buf \<noteq> []\<close> f by (simp add: handler_move_def at_stage_def)
  moreover have "at_stage d fs Looping [] ng [] False (ends (post E i ?e' s) i)"
    using here f by (simp add: at_stage_def)
  moreover have "at_stage d' fs' c (ms @ [changes_message P (localAddress (E i)) buf]) ng' buf' lk
      (ends (post E i ?e' s) (other i))"
    using deliver_queue [OF there, of "E (other i)" P "broadcastAddress (E i)"] net f
    by (simp add: net_ok_def changes_message_def del: deliver.simps)
  ultimately show ?thesis by blast
qed

lemma changes_message_decodes:
  assumes "packet_laws P holds" "changes_ok fcs" "packets E = P"
  shows "next_message E (changes_message P ip fcs) n = Inr (Requests ip fcs, n)"
proof -
  let ?p = "packet_arrived P (put_fileChanges P (packet_new P) fcs)"
  from get_fileChanges_sent [OF assms(1,2)] obtain p' where g: "get_fileChanges P ?p [] = Inr (fcs, p')" by blast
  have "changes_fields fcs = Uint8 6 # tl (changes_fields fcs)" by (simp add: changes_fields_def)
  with packet_laws.packet_id [OF assms(1), of 6 "tl (changes_fields fcs)"] changes_fields_ok [OF assms(2)]
  have "getPacketID P ?p = Inr 6" by (simp add: put_fileChanges_fields)
  with g assms(3) show ?thesis by (simp add: next_message_def changes_message_def)
qed

text \<open>A handler with changes of its own in the buffer announces them in the same round in which it
  takes a message.\<close>

lemma move_take_changes:
  assumes net: "net_ok E P" and laws: "packet_laws P holds" and ok: "changes_ok fcs"
    and here: "at_stage d fs Looping (changes_message P ip fcs # ms) ng buf False (ends s i)"
    and there: "at_stage d' fs' c ms' ng' buf' lk (ends s (other i))"
  shows "\<exists>e. handler_move (E i) (ends s i) = Some (Inr e) \<and>
    at_stage d fs (Requests ip fcs) ms ng [] False (ends (post E i e s) i) \<and>
    at_stage d' fs' c (if buf = [] then ms' else ms' @ [changes_message P (localAddress (E i)) buf]) ng' buf' lk
      (ends (post E i e s) (other i))"
proof -
  let ?e = "ends s i"
  obtain t where f: "flush_changes (E i) (host ?e) = (host ?e)\<lparr>fileHashes := t, changeBuf := [],
      udp := (if buf = [] then []
        else [(put_fileChanges P (packet_new P) buf, broadcastAddress (E i), 45773)])\<rparr>"
    using flush_at_stage [OF net, of "host ?e" i] here by (auto simp: at_stage_def)
  let ?e' = "?e\<lparr>host := (flush_changes (E i) (host ?e))\<lparr>todoUdp := ms\<rparr>, pc := Requests ip fcs\<rparr>"
  have "packets (E i) = P" using net by (simp add: net_ok_def)
  then have "handler_move (E i) ?e = Some (Inr ?e')"
    using here f by (simp add: handler_move_def at_stage_def changes_message_decodes [OF laws ok])
  moreover have "at_stage d fs (Requests ip fcs) ms ng [] False (ends (post E i ?e' s) i)"
    using here f by (simp add: at_stage_def)
  moreover have "at_stage d' fs' c (if buf = [] then ms' else ms' @ [changes_message P (localAddress (E i)) buf]) ng' buf' lk
      (ends (post E i ?e' s) (other i))"
    using there deliver_queue [OF there, of "E (other i)" P "broadcastAddress (E i)"] net f
    by (simp add: net_ok_def changes_message_def split: if_split)
  ultimately show ?thesis by blast
qed

text \<open>Each move is first described at the node that makes it, then with what it delivers.\<close>

lemma local_ask:
  assumes net: "net_ok E P" and here: "at_stage d fs (Requests server (fc # fcs)) ms ng buf False e"
    and need: "change fc \<noteq> Deletion" "already_have (E i) (host e) fc = Inr False"
  shows "\<exists>e'. handler_move (E i) e = Some (Inr e') \<and> at_stage d fs (Awaits server fcs) ms [] buf True (sent_off e') \<and>
    udp (host e') = [(put_request P fc 25565, server, 45773)]"
proof -
  let ?e' = "e\<lparr>host := (host e)\<lparr>dirLocked := True, opened := opened (host e) + 1,
      udp := [(put_request P fc 25565, server, 45773)]\<rparr>, negotiation := [], pc := Awaits server fcs\<rparr>"
  have P: "packets (E i) = P" "udps (E i) = outbox_api P" using net by (simp_all add: net_ok_def)
  have "already_have (E i) ((host e)\<lparr>dirLocked := True\<rparr>) fc = Inr False"
    using need(2) already_have_cong [of "(host e)\<lparr>dirLocked := True\<rparr>" "host e"] by simp
  then have "ask_next (E i) server fc ((host e)\<lparr>dirLocked := True\<rparr>) = Inr (True, host ?e')"
    using need(1) here P by (cases "change fc") (simp_all add: ask_next_def at_stage_def)
  then have "handler_move (E i) e = Some (Inr ?e')"
    using here by (simp add: handler_move_def at_stage_def lock_dirLock_def)
  moreover have "at_stage d fs (Awaits server fcs) ms [] buf True (sent_off ?e')"
    using here by (simp add: at_stage_def sent_off_def)
  ultimately show ?thesis by fastforce
qed

lemma move_ask:
  assumes net: "net_ok E P"
    and here: "at_stage d fs (Requests (localAddress (E (other i))) (fc # fcs)) ms ng buf False (ends s i)"
    and there: "at_stage d' fs' c ms' ng' buf' lk (ends s (other i))"
    and need: "change fc \<noteq> Deletion" "already_have (E i) (host (ends s i)) fc = Inr False"
  shows "\<exists>e. handler_move (E i) (ends s i) = Some (Inr e) \<and>
    at_stage d fs (Awaits (localAddress (E (other i))) fcs) ms [] buf True (ends (post E i e s) i) \<and>
    at_stage d' fs' c (ms' @ [request_message P (localAddress (E i)) fc]) ng' buf' lk
      (ends (post E i e s) (other i))"
proof -
  have P: "packets (E (other i)) = P" using net by (simp add: net_ok_def)
  from local_ask [OF net here need] obtain e where e: "handler_move (E i) (ends s i) = Some (Inr e)"
    "at_stage d fs (Awaits (localAddress (E (other i))) fcs) ms [] buf True (sent_off e)"
    "udp (host e) = [(put_request P fc 25565, localAddress (E (other i)), 45773)]" by blast
  moreover have "at_stage d' fs' c (ms' @ [request_message P (localAddress (E i)) fc]) ng' buf' lk
      (ends (post E i e s) (other i))"
    using deliver_queue [OF there P, of "localAddress (E (other i))"] e(3) by (simp add: request_message_def)
  ultimately show ?thesis unfolding sent_off_def by auto
qed

text \<open>A request for a file that is there: the details are sent, then the server prepares to listen.\<close>

lemma request_message_decodes:
  assumes "packet_laws P holds" "change_ok fc"
  shows "getPacketID P (msg_packet (request_message P ip fc)) = Inr 5"
    "get_request P (msg_packet (request_message P ip fc)) = Inr (fc, 25565)"
proof -
  have "list_all field_ok (request_fields fc 25565)"
    using change_fields_ok [OF assms(2)] by (simp add: request_fields_def)
  then show "getPacketID P (msg_packet (request_message P ip fc)) = Inr 5"
    using packet_laws.packet_id [OF assms(1), of 5 "tl (request_fields fc 25565)"]
    by (simp add: request_message_def put_request_fields request_fields_def)
  show "get_request P (msg_packet (request_message P ip fc)) = Inr (fc, 25565)"
    using packet_laws.request_arrives [OF assms] by (simp add: request_message_def)
qed

lemma local_take_request:
  assumes net: "net_ok E P" and laws: "packet_laws P holds" and fc: "change_ok fc" "filePath fc = join cs" "names_ok cs"
    and here: "at_stage d fs Looping (request_message P client fc # ms) ng [] False e"
    and has: "file_at fs (resolve d @ cs) = Some bs"
  shows "\<exists>e'. handler_move (E i) e = Some (Inr e') \<and>
    at_stage d fs (Prepares \<lparr>in_rest = bs, in_good = True\<rparr>) ms ng [] False (sent_off e') \<and>
    udp (host e') = [(put_details P False fc 45016, client, 25565)] \<and>
    host e' = (host e)\<lparr>todoUdp := ms, udp := udp (host e')\<rparr>"
proof -
  let ?msg = "request_message P client fc"
  have P: "packets (E i) = P" "udps (E i) = outbox_api P" using net by (simp_all add: net_ok_def)
  have f: "flush_changes (E i) (host e) = host e" using here by (simp add: flush_idle at_stage_def)
  let ?n = "(host e)\<lparr>todoUdp := ms\<rparr>"
  let ?n' = "?n\<lparr>udp := [(put_details P False fc 45016, client, 25565)]\<rparr>"
  let ?e' = "e\<lparr>host := ?n', pc := Prepares \<lparr>in_rest = bs, in_good = True\<rparr>\<rparr>"
  have path: "resolve (local_path n (filePath fc)) = resolve d @ cs" if "directory n = d" for n
    using that fc(2) local_path_names [OF fc(3), of n] by simp
  have "fs_exists fs (local_path ?n (filePath fc))"
    using has path [of ?n] here by (simp add: fs_exists_view at_stage_def)
  moreover have "open_ifstream fs (local_path ?n' (filePath fc)) = \<lparr>in_rest = bs, in_good = True\<rparr>"
    using has path [of ?n'] here by (simp add: open_ifstream_def open_read_file_at at_stage_def)
  ultimately have "answer_request (E i) ?msg ?n = Inr (Some \<lparr>in_rest = bs, in_good = True\<rparr>, ?n')"
    using here P request_message_decodes [OF laws fc(1)]
    by (simp add: answer_request_def at_stage_def request_message_def local_path_def)
  then have "next_message (E i) ?msg ?n = Inr (Prepares \<lparr>in_rest = bs, in_good = True\<rparr>, ?n')"
    using P request_message_decodes [OF laws fc(1)] by (simp add: next_message_def)
  then have "handler_move (E i) e = Some (Inr ?e')"
    using here f by (simp add: handler_move_def at_stage_def)
  moreover have "at_stage d fs (Prepares \<lparr>in_rest = bs, in_good = True\<rparr>) ms ng [] False (sent_off ?e')"
    using here by (simp add: at_stage_def sent_off_def)
  ultimately show ?thesis by fastforce
qed

lemma move_take_request:
  assumes net: "net_ok E P" and laws: "packet_laws P holds" and fc: "change_ok fc" "filePath fc = join cs" "names_ok cs"
    and here: "at_stage d fs Looping (request_message P (localAddress (E (other i))) fc # ms) ng [] False (ends s i)"
    and there: "at_stage d' fs' (Awaits server fcs) ms' ng' buf' lk (ends s (other i))"
    and has: "file_at fs (resolve d @ cs) = Some bs"
  shows "\<exists>e. handler_move (E i) (ends s i) = Some (Inr e) \<and>
    at_stage d fs (Prepares \<lparr>in_rest = bs, in_good = True\<rparr>) ms ng [] False (ends (post E i e s) i) \<and>
    at_stage d' fs' (Awaits server fcs) ms'
      (ng' @ [(packet_arrived P (put_details P False fc 45016), localAddress (E i))]) buf' lk
      (ends (post E i e s) (other i))"
proof -
  have P: "packets (E (other i)) = P" using net by (simp add: net_ok_def)
  from local_take_request [OF net laws fc here has] obtain e where e: "handler_move (E i) (ends s i) = Some (Inr e)"
    "at_stage d fs (Prepares \<lparr>in_rest = bs, in_good = True\<rparr>) ms ng [] False (sent_off e)"
    "udp (host e) = [(put_details P False fc 45016, localAddress (E (other i)), 25565)]" by blast
  moreover have "at_stage d' fs' (Awaits server fcs) ms'
      (ng' @ [(packet_arrived P (put_details P False fc 45016), localAddress (E i))]) buf' lk (ends (post E i e s) (other i))"
    using deliver_answer [OF there P, of "localAddress (E (other i))"] e(3) by simp
  ultimately show ?thesis unfolding sent_off_def by auto
qed

text \<open>A move that sends nothing leaves the other end alone.\<close>

lemma post_silent: "udp (host e) = [] \<Longrightarrow> ends (post E i e s) (other i) = ends s (other i)"
  by simp

lemma local_listen:
  assumes "at_stage d fs (Prepares f) ms ng buf lk e"
  shows "\<exists>e'. handler_move E e = Some (Inr e') \<and> at_stage d fs (Listens f) ms ng buf lk e'"
  using assms by (auto simp: handler_move_def at_stage_def startTcpServer_def)

lemma local_requests_end:
  assumes "at_stage d fs (Requests server []) ms ng buf lk e"
  shows "\<exists>e'. handler_move E e = Some (Inr e') \<and> at_stage d fs Looping ms ng buf lk e'"
  using assms by (auto simp: handler_move_def at_stage_def)

lemma silent_move:
  assumes "handler_move (E i) (ends s i) = Some (Inr e)" "at_stage d fs c ms ng buf lk e"
  shows "\<exists>e. handler_move (E i) (ends s i) = Some (Inr e) \<and> at_stage d fs c ms ng buf lk (ends (post E i e s) i) \<and>
    ends (post E i e s) (other i) = ends s (other i)"
  using assms by (intro exI [of _ e]) (simp add: at_stage_def)

lemma move_listen:
  assumes here: "at_stage d fs (Prepares f) ms ng buf lk (ends s i)"
  shows "\<exists>e. handler_move (E i) (ends s i) = Some (Inr e) \<and>
    at_stage d fs (Listens f) ms ng buf lk (ends (post E i e s) i) \<and>
    ends (post E i e s) (other i) = ends s (other i)"
  using local_listen [OF here, of "E i"] silent_move by blast

lemma move_requests_end:
  assumes here: "at_stage d fs (Requests server []) ms ng buf lk (ends s i)"
  shows "\<exists>e. handler_move (E i) (ends s i) = Some (Inr e) \<and>
    at_stage d fs Looping ms ng buf lk (ends (post E i e s) i) \<and>
    ends (post E i e s) (other i) = ends s (other i)"
  using local_requests_end [OF here, of "E i"] silent_move by blast

text \<open>The answer: the file is created, and closing it later stores what was received.\<close>

definition stores :: "fsnode \<Rightarrow> wstring list \<Rightarrow> fsnode \<Rightarrow> wstring \<Rightarrow> bool" where
  "stores fs p fs2 path \<longleftrightarrow>
     (\<forall>data. file_at (close_write fs2 path \<lparr>out_good = True, out_data = data\<rparr>) = (file_at fs)(p \<mapsto> data) \<and>
       (\<forall>q. dir_at (close_write fs2 path \<lparr>out_good = True, out_data = data\<rparr>) q \<longleftrightarrow>
          dir_at fs q \<or> (\<exists>k < length p. q = take k p)))"

lemma local_take_answer:
  assumes net: "net_ok E P" and laws: "packet_laws P holds" and fc: "change_ok fc" "filePath fc = join cs" "names_ok cs"
    and here: "at_stage d fs (Awaits server fcs) ms
      ((packet_arrived P (put_details P False fc 45016), sender) # ng) buf lk e"
    and place: "dir_path d" "place_ok fs (resolve d @ cs)"
  shows "\<exists>e' fs2 path. handler_move (E i) e = Some (Inr e') \<and> stores fs (resolve d @ cs) fs2 path \<and>
    at_stage d fs2 (Connects sender 45016 path \<lparr>out_good = True, out_data = []\<rparr> server fcs) ms
      ((packet_arrived P (put_details P False fc 45016), sender) # ng) buf lk e'"
proof -
  have P: "packets (E i) = P" using net by (simp add: net_ok_def)
  have dir: "directory (host e) = d" "disk (host e) = fs" using here by (simp_all add: at_stage_def)
  let ?path = "local_path (host e) (join cs)"
  have "resolve ?path = resolve d @ cs" "make_preferred ?path = ?path"
    using local_path_names [OF fc(3), of "host e"] local_path_preferred [OF _ fc(3), of "host e"] place(1) dir by simp_all
  from acquire_and_write [OF this place(2)] obtain m fs1 fs2 where
    w: "acquireDirectories fs ?path = Inr (m, fs1)" "open_write fs1 ?path = (\<lparr>out_good = True, out_data = []\<rparr>, fs2)"
    and st: "stores fs (resolve d @ cs) fs2 ?path" unfolding stores_def by blast
  let ?e' = "e\<lparr>host := (host e)\<lparr>disk := fs2\<rparr>,
      pc := Connects sender 45016 ?path \<lparr>out_good = True, out_data = []\<rparr> server fcs\<rparr>"
  have "take_answer (E i) (packet_arrived P (put_details P False fc 45016)) (host e) =
      Inr (Some (?path, \<lparr>out_good = True, out_data = []\<rparr>, 45016), (host e)\<lparr>disk := fs2\<rparr>)"
    using packet_laws.details_arrive [OF laws fc(1)] w dir P fc(2) by (simp add: take_answer_def)
  then have "handler_move (E i) e = Some (Inr ?e')"
    using here by (simp add: handler_move_def at_stage_def)
  moreover have "at_stage d fs2 (Connects sender 45016 ?path \<lparr>out_good = True, out_data = []\<rparr> server fcs) ms
      ((packet_arrived P (put_details P False fc 45016), sender) # ng) buf lk ?e'"
    using here by (simp add: at_stage_def)
  ultimately show ?thesis using st by blast
qed

lemma move_take_answer:
  assumes net: "net_ok E P" and laws: "packet_laws P holds" and fc: "change_ok fc" "filePath fc = join cs" "names_ok cs"
    and here: "at_stage d fs (Awaits server fcs) ms
      ((packet_arrived P (put_details P False fc 45016), sender) # ng) buf lk (ends s i)"
    and place: "dir_path d" "place_ok fs (resolve d @ cs)"
  shows "\<exists>e fs2 path. handler_move (E i) (ends s i) = Some (Inr e) \<and> stores fs (resolve d @ cs) fs2 path \<and>
    at_stage d fs2 (Connects sender 45016 path \<lparr>out_good = True, out_data = []\<rparr> server fcs) ms
      ((packet_arrived P (put_details P False fc 45016), sender) # ng) buf lk (ends (post E i e s) i) \<and>
    ends (post E i e s) (other i) = ends s (other i)"
  using local_take_answer [OF net laws fc here place, of i] silent_move by blast

end
