(* ===== verification/Two_Node_Sync.thy ===== *)
theory Two_Node_Sync
  imports Two_Nodes
begin

text \<open>
  Changes on one side: node A has changes to announce and the files they name, node B has
  nothing to announce. Every run, however the two handlers and the transfers interleave, is
  bounded and ends with the files at B.
\<close>

section \<open>The files to be fetched\<close>

record sync_job =
  src_dir :: wstring
  src_disk :: fsnode
  dst_dir :: wstring
  dst_disk :: fsnode
  requests :: "file_request list"

definition place :: "sync_job \<Rightarrow> file_request \<Rightarrow> wstring list" where
  "place J r = resolve (dst_dir J) @ rq_names r"

definition job_changes :: "sync_job \<Rightarrow> fileChangeData list" where
  "job_changes J = map rq_change (requests J)"

definition job_ok :: "sync_job \<Rightarrow> bool" where
  "job_ok J \<longleftrightarrow> requests J \<noteq> [] \<and> changes_ok (job_changes J) \<and> dir_path (dst_dir J) \<and>
     sorted_wrt apart (map (place J) (requests J)) \<and>
     (\<forall>r \<in> set (requests J). request_ok r \<and>
        file_at (src_disk J) (resolve (src_dir J) @ rq_names r) = Some (rq_content r) \<and>
        place_ok (dst_disk J) (place J r) \<and> file_at (dst_disk J) (place J r) = None)"

text \<open>The disk of B when the first \<open>k\<close> files have arrived.\<close>

definition filled :: "sync_job \<Rightarrow> nat \<Rightarrow> fsnode \<Rightarrow> bool" where
  "filled J k fs \<longleftrightarrow>
     file_at fs = file_at (dst_disk J) ++ map_of (map (\<lambda>r. (place J r, rq_content r)) (take k (requests J))) \<and>
     (\<forall>r \<in> set (drop k (requests J)). place_ok fs (place J r) \<and> file_at fs (place J r) = None)"

lemma filled_0: "job_ok J \<Longrightarrow> filled J 0 (dst_disk J)"
  by (simp add: filled_def job_ok_def)

lemma map_upd_last:
  "p \<notin> fst ` set xs \<Longrightarrow> (f ++ map_of xs)(p \<mapsto> c) = f ++ map_of (xs @ [(p, c)])"
  by (rule ext) (auto simp: map_add_def map_of_append split: option.splits
      simp flip: map_of_eq_None_iff)

lemma filled_Suc:
  assumes job: "job_ok J" and k: "k < length (requests J)" and f: "filled J k fs"
    and st: "stores fs (place J (requests J ! k)) fs2 path"
  shows "filled J (Suc k) (close_write fs2 path \<lparr>out_good = True, out_data = rq_content (requests J ! k)\<rparr>)"
proof -
  let ?r = "requests J ! k" and ?rs = "requests J"
  let ?fs' = "close_write fs2 path \<lparr>out_good = True, out_data = rq_content ?r\<rparr>"
  have new: "file_at ?fs' = (file_at fs)(place J ?r \<mapsto> rq_content ?r)"
    and dirs: "\<And>q. dir_at ?fs' q \<longleftrightarrow> dir_at fs q \<or> (\<exists>j < length (place J ?r). q = take j (place J ?r))"
    using st by (simp_all add: stores_def)
  have apart: "apart (place J (?rs ! i)) (place J (?rs ! j))" if "i < j" "j < length ?rs" for i j
    using job that by (auto simp: job_ok_def sorted_wrt_iff_nth_less)
  let ?xs = "map (\<lambda>r. (place J r, rq_content r)) (take k ?rs)"
  have "place J ?r \<notin> fst ` set ?xs"
  proof
    assume "place J ?r \<in> fst ` set ?xs"
    then obtain x where x: "x \<in> set (take k ?rs)" "place J x = place J ?r" by auto
    then obtain i where "i < k" "x = ?rs ! i" using k by (auto simp: in_set_conv_nth)
    with apart [of i k] k apart_neq x(2) show False by metis
  qed
  note upd = map_upd_last [OF this, of "file_at (dst_disk J)" "rq_content ?r"]
  have "?xs @ [(place J ?r, rq_content ?r)] = map (\<lambda>r. (place J r, rq_content r)) (take (Suc k) ?rs)"
    using k by (simp add: take_Suc_conv_app_nth)
  with upd have "(file_at (dst_disk J) ++ map_of ?xs)(place J ?r \<mapsto> rq_content ?r) = file_at (dst_disk J) ++
      map_of (map (\<lambda>r. (place J r, rq_content r)) (take (Suc k) ?rs))" by (simp only:)
  moreover have "file_at fs = file_at (dst_disk J) ++ map_of ?xs" using f by (simp add: filled_def)
  ultimately have view: "file_at ?fs' = file_at (dst_disk J) ++
      map_of (map (\<lambda>r. (place J r, rq_content r)) (take (Suc k) ?rs))" by (simp only: new)
  have "place_ok ?fs' (place J x) \<and> file_at ?fs' (place J x) = None" if x: "x \<in> set (drop (Suc k) ?rs)" for x
  proof -
    from x obtain m where m: "m < length ?rs - Suc k" "x = drop (Suc k) ?rs ! m" by (auto simp: in_set_conv_nth)
    define j where "j = Suc k + m"
    from m have "k < j" "j < length ?rs" "x = ?rs ! j" by (simp_all add: j_def)
    then have ap: "apart (place J ?r) (place J x)" using apart by blast
    have "x \<in> set (drop k ?rs)" using x by (metis Suc_n_not_le_n in_mono nat_le_linear set_drop_subset_set_drop)
    with f have "place_ok fs (place J x)" "file_at fs (place J x) = None" unfolding filled_def by blast+
    moreover have "place J ?r \<noteq> place J x" using ap by (rule apart_neq)
    ultimately show ?thesis using place_ok_after [OF _ ap new dirs] new by simp
  qed
  with view show ?thesis by (simp add: filled_def)
qed

section \<open>The transfer in the network\<close>

lemma sent_is_quiet:
  assumes "transfer_inv holds bs t" "snd_pc t = Sent"
  shows "\<not> transfer_step P t u" "rcv_pc t = Received"
proof -
  from assms obtain k where ph: "phase holds bs k t" by (auto simp: transfer_inv_def)
  show "rcv_pc t = Received" using ph assms(2) by (cases rule: phase.cases) simp_all
  have "to_client t = []" "to_server t = []" using ph assms(2) by (cases rule: phase.cases; simp)+
  with assms(2) show "\<not> transfer_step P t u" by (auto elim: transfer_step.cases)
qed

lemma received_file:
  assumes "transfer_inv holds bs t" "rcv_pc t = Received" "length bs < 2 ^ 32"
  shows "rcv_file t = \<lparr>out_good = True, out_data = bs\<rparr>"
proof -
  from assms obtain k where ph: "phase holds bs k t" by (auto simp: transfer_inv_def)
  then show ?thesis using assms(2) small_sent_length [OF assms(3)] by (cases rule: phase.cases) simp_all
qed

lemma received_stays: "transfer_step P t u \<Longrightarrow> rcv_pc t = Received \<Longrightarrow> rcv_pc u = Received"
  by (auto elim: transfer_step.cases)

lemma transfer_moves:
  assumes "packet_laws P holds" "transfer_inv holds bs t" "transfer_step P t u"
  shows "transfer_inv holds bs u" "transfer_weight bs u < transfer_weight bs t"
proof -
  obtain k where k: "no_wrap bs" "phase holds bs k t" using assms(2) by (auto simp: transfer_inv_def)
  from packet_laws.step_phase [OF assms(1) k(2) assms(3) k(1)] k(1)
  show "transfer_inv holds bs u" "transfer_weight bs u < transfer_weight bs t"
    by (auto simp: transfer_inv_def)
qed

lemma transfer_goes_on:
  assumes "packet_laws P holds" "transfer_inv holds bs t" "snd_pc t \<noteq> Sent"
  shows "\<exists>u. transfer_step P t u"
  using assms packet_laws.progress by (fastforce simp: transfer_inv_def)

lemma transfer_begins:
  assumes "packet_laws P holds" "length bs < 2 ^ 32"
  shows "transfer_inv holds bs (transfer_init \<lparr>in_rest = bs, in_good = True\<rparr> \<lparr>out_good = True, out_data = []\<rparr>)"
    "transfer_weight bs (transfer_init \<lparr>in_rest = bs, in_good = True\<rparr> \<lparr>out_good = True, out_data = []\<rparr>) =
       3 * chunks (length bs) + 3"
proof -
  let ?t = "transfer_init \<lparr>in_rest = bs, in_good = True\<rparr> \<lparr>out_good = True, out_data = []\<rparr>"
  have st: "transfer_start bs ?t" using small_sent_length [OF assms(2)] by (simp add: transfer_start_def)
  from packet_laws.start_phase [OF assms(1) st] show "transfer_inv holds bs ?t" .
  from transfer_env.start_weight [OF transfer_env.intro [OF assms(1)] st] small_sent_length [OF assms(2)]
  show "transfer_weight bs ?t = 3 * chunks (length bs) + 3" by simp
qed

section \<open>The phases of a run\<close>

definition quiet_link :: "'p packet_api \<Rightarrow> ('s, 'l, 'p) network \<Rightarrow> bool" where
  "quiet_link P s \<longleftrightarrow> (\<forall>t u. link s = Some t \<longrightarrow> \<not> transfer_step P t u)"

definition src_at :: "sync_job \<Rightarrow> handler_pc \<Rightarrow> 'p UdpMessage list \<Rightarrow> ('s, 'l, 'p) network \<Rightarrow> bool" where
  "src_at J c ms s \<longleftrightarrow> at_stage (src_dir J) (src_disk J) c ms [] [] False (ends s A)"

definition dst_at :: "sync_job \<Rightarrow> fsnode \<Rightarrow> handler_pc \<Rightarrow> 'p UdpMessage list \<Rightarrow> ('p \<times> IpAddress) list \<Rightarrow> bool \<Rightarrow>
    ('s, 'l, 'p) network \<Rightarrow> bool" where
  "dst_at J fs c ms ng lk s \<longleftrightarrow> at_stage (dst_dir J) fs c ms ng [] lk (ends s B)"

text \<open>A waits in its loop, or it has still to see the end of the last transfer; in both cases with
  the messages \<open>ms\<close> before it.\<close>

definition src_free :: "'p packet_api \<Rightarrow> ('p \<Rightarrow> field list \<Rightarrow> field list \<Rightarrow> bool) \<Rightarrow> sync_job \<Rightarrow>
    'p UdpMessage list \<Rightarrow> ('s, 'l, 'p) network \<Rightarrow> bool" where
  "src_free P holds J ms s \<longleftrightarrow>
     (src_at J Looping ms s \<and> quiet_link P s) \<or>
     (\<exists>bs t. src_at J (Sends bs) ms s \<and> link s = Some t \<and> transfer_inv holds bs t \<and> rcv_pc t = Received)"

definition src_serves :: "'p packet_api \<Rightarrow> sync_job \<Rightarrow> bytes \<Rightarrow> ('s, 'l, 'p) network \<Rightarrow> bool" where
  "src_serves P J bs s \<longleftrightarrow> (\<exists>c \<in> {Prepares, Listens}. src_at J (c \<lparr>in_rest = bs, in_good = True\<rparr>) [] s) \<and> quiet_link P s"

definition src_moves :: "sync_job \<Rightarrow> bytes \<Rightarrow> 'p transfer \<Rightarrow> ('s, 'l, 'p) network \<Rightarrow> bool" where
  "src_moves J bs t s \<longleftrightarrow> src_at J (Sends bs) [] s \<or> (src_at J Looping [] s \<and> snd_pc t = Sent)"

text \<open>B fetches the files; \<open>k\<close> is the number of those that have arrived.\<close>

inductive fetch_phase :: "(side \<Rightarrow> ('p outbox, 's, 'l, 'p) platform) \<Rightarrow> 'p packet_api \<Rightarrow>
    ('p \<Rightarrow> field list \<Rightarrow> field list \<Rightarrow> bool) \<Rightarrow> sync_job \<Rightarrow> ('s, 'l, 'p) network \<Rightarrow> bool" for E P holds J where
  asking: "src_free P holds J [] s \<Longrightarrow> k \<le> length (requests J) \<Longrightarrow> filled J k fs \<Longrightarrow>
    dst_at J fs (Requests (localAddress (E A)) (drop k (job_changes J))) [] ng False s \<Longrightarrow>
    fetch_phase E P holds J s"
| asked: "k < length (requests J) \<Longrightarrow> filled J k fs \<Longrightarrow>
    src_free P holds J [request_message P (localAddress (E B)) (rq_change (requests J ! k))] s \<Longrightarrow>
    dst_at J fs (Awaits (localAddress (E A)) (drop (Suc k) (job_changes J))) [] [] True s \<Longrightarrow>
    fetch_phase E P holds J s"
| answering: "k < length (requests J) \<Longrightarrow> filled J k fs \<Longrightarrow> src_serves P J (rq_content (requests J ! k)) s \<Longrightarrow>
    dst_at J fs (Awaits (localAddress (E A)) (drop (Suc k) (job_changes J))) []
      [(packet_arrived P (put_details P False (rq_change (requests J ! k)) 45016), localAddress (E A))] True s \<Longrightarrow>
    fetch_phase E P holds J s"
| connecting: "k < length (requests J) \<Longrightarrow> filled J k fs \<Longrightarrow> src_serves P J (rq_content (requests J ! k)) s \<Longrightarrow>
    stores fs (place J (requests J ! k)) fs2 path \<Longrightarrow>
    dst_at J fs2 (Connects (localAddress (E A)) 45016 path \<lparr>out_good = True, out_data = []\<rparr> (localAddress (E A)) (drop (Suc k) (job_changes J)))
      [] ng True s \<Longrightarrow> fetch_phase E P holds J s"
| moving: "k < length (requests J) \<Longrightarrow> filled J k fs \<Longrightarrow> stores fs (place J (requests J ! k)) fs2 path \<Longrightarrow>
    link s = Some t \<Longrightarrow> transfer_inv holds (rq_content (requests J ! k)) t \<Longrightarrow>
    src_moves J (rq_content (requests J ! k)) t s \<Longrightarrow>
    dst_at J fs2 (Receives path (localAddress (E A)) (drop (Suc k) (job_changes J))) [] ng True s \<Longrightarrow>
    fetch_phase E P holds J s"
| finished: "src_free P holds J [] s \<Longrightarrow> filled J (length (requests J)) fs \<Longrightarrow>
    dst_at J fs Looping [] ng False s \<Longrightarrow> fetch_phase E P holds J s"

inductive sync_phase :: "(side \<Rightarrow> ('p outbox, 's, 'l, 'p) platform) \<Rightarrow> 'p packet_api \<Rightarrow>
    ('p \<Rightarrow> field list \<Rightarrow> field list \<Rightarrow> bool) \<Rightarrow> sync_job \<Rightarrow> ('s, 'l, 'p) network \<Rightarrow> bool" for E P holds J where
  announcing: "at_stage (src_dir J) (src_disk J) Looping [] [] (job_changes J) False (ends s A) \<Longrightarrow>
    quiet_link P s \<Longrightarrow> dst_at J (dst_disk J) Looping [] [] False s \<Longrightarrow> sync_phase E P holds J s"
| noticing: "src_at J Looping [] s \<Longrightarrow> quiet_link P s \<Longrightarrow>
    dst_at J (dst_disk J) Looping [changes_message P (localAddress (E A)) (job_changes J)] [] False s \<Longrightarrow>
    sync_phase E P holds J s"
| fetching: "fetch_phase E P holds J s \<Longrightarrow> sync_phase E P holds J s"

section \<open>A bound on the number of steps\<close>

definition file_cost :: "file_request \<Rightarrow> nat" where
  "file_cost r = 3 * chunks (length (rq_content r)) + 12"

text \<open>The cost of the last \<open>m\<close> files, and of the one before them.\<close>

definition rest_cost :: "sync_job \<Rightarrow> nat \<Rightarrow> nat" where
  "rest_cost J m = sum_list (map file_cost (drop (length (requests J) - m) (requests J)))"

definition next_cost :: "sync_job \<Rightarrow> nat \<Rightarrow> nat" where
  "next_cost J m = file_cost (requests J ! (length (requests J) - Suc m))"

definition dst_weight :: "sync_job \<Rightarrow> ('s, 'l, 'p) endpoint \<Rightarrow> nat" where
  "dst_weight J e =
     (case pc e of
        Looping \<Rightarrow> if todoUdp (host e) = [] then 0 else 2 + rest_cost J (length (requests J))
      | Requests _ fcs \<Rightarrow> 1 + rest_cost J (length fcs)
      | Awaits _ fcs \<Rightarrow> rest_cost J (length fcs) + next_cost J (length fcs) - 3
      | Connects _ _ _ _ _ fcs \<Rightarrow> rest_cost J (length fcs) + next_cost J (length fcs) - 4
      | Receives _ _ fcs \<Rightarrow> 2 + rest_cost J (length fcs)
      | _ \<Rightarrow> 0)"

definition src_weight :: "sync_job \<Rightarrow> ('s, 'l, 'p) network \<Rightarrow> nat" where
  "src_weight J s =
     (case pc (ends s A) of
        Looping \<Rightarrow> if changeBuf (host (ends s A)) = [] then 0 else 3 + rest_cost J (length (requests J))
      | Prepares _ \<Rightarrow> 2
      | Listens _ \<Rightarrow> 1
      | Sends bs \<Rightarrow> 1 + (case link s of Some t \<Rightarrow> transfer_weight bs t | None \<Rightarrow> 0)
      | _ \<Rightarrow> 0) + 3 * length (todoUdp (host (ends s A)))"

definition net_weight :: "sync_job \<Rightarrow> ('s, 'l, 'p) network \<Rightarrow> nat" where
  "net_weight J s = src_weight J s + dst_weight J (ends s B)"

lemma rest_cost_Suc:
  assumes "k < length (requests J)"
  shows "rest_cost J (length (requests J) - k) =
    file_cost (requests J ! k) + rest_cost J (length (requests J) - Suc k)"
    "next_cost J (length (requests J) - Suc k) = file_cost (requests J ! k)"
proof -
  have "drop k (requests J) = requests J ! k # drop (Suc k) (requests J)"
    using assms by (rule Cons_nth_drop_Suc [symmetric])
  with assms show "rest_cost J (length (requests J) - k) =
      file_cost (requests J ! k) + rest_cost J (length (requests J) - Suc k)"
    by (simp add: rest_cost_def)
  have "length (requests J) - Suc (length (requests J) - Suc k) = k" using assms by simp
  then show "next_cost J (length (requests J) - Suc k) = file_cost (requests J ! k)"
    by (simp add: next_cost_def)
qed

section \<open>Steps, by the side that takes them\<close>

lemma net_step_sides:
  assumes "timely_step E s t"
  obtains
    (src_move) e where "handler_move (E A) (ends s A) = Some (Inr e)" "t = post E A e s"
  | (dst_move) e where "handler_move (E B) (ends s B) = Some (Inr e)" "t = post E B e s"
  | (dst_connects) path out server fcs f where "pc (ends s B) = Connects (localAddress (E A)) 45016 path out server fcs"
      "pc (ends s A) = Listens f" "ends t A = (ends s A)\<lparr>pc := Sends (in_rest f)\<rparr>"
      "ends t B = (ends s B)\<lparr>pc := Receives path server fcs\<rparr>" "link t = Some (transfer_init f out)"
  | (src_connects) ip port path out server fcs where "pc (ends s A) = Connects ip port path out server fcs"
  | (transfers) x u where "link s = Some x" "transfer_step (packets (E A)) x u" "ends t = ends s" "link t = Some u"
  | (src_sent) bs x where "pc (ends s A) = Sends bs" "link s = Some x" "snd_pc x = Sent"
      "ends t A = (ends s A)\<lparr>pc := Looping\<rparr>" "ends t B = ends s B" "link t = link s"
  | (dst_sent) bs where "pc (ends s B) = Sends bs"
  | (dst_received) path server fcs x where "pc (ends s B) = Receives path server fcs" "link s = Some x"
      "rcv_pc x = Received" "ends t A = ends s A" "link t = link s"
      "ends t B = (ends s B)\<lparr>host := finish_request path (rcv_file x) (host (ends s B)), pc := Requests server fcs\<rparr>"
  | (src_received) path server fcs where "pc (ends s A) = Receives path server fcs"
  using assms
proof (cases rule: timely_step.cases)
  case (move i e)
  then show ?thesis by (cases i) (use src_move dst_move in auto)
next
  case (connect i path out server fcs f)
  then show ?thesis
  proof (cases i)
    case A
    with connect show ?thesis by (intro src_connects) simp
  next
    case B
    with connect show ?thesis by (intro dst_connects) simp_all
  qed
next
  case (transfer x u)
  then show ?thesis by (intro transfers) simp_all
next
  case (sent i bs x)
  then show ?thesis
  proof (cases i)
    case A
    with sent show ?thesis by (intro src_sent) simp_all
  next
    case B
    with sent show ?thesis by (intro dst_sent) simp
  qed
next
  case (received i path server fcs x)
  then show ?thesis
  proof (cases i)
    case A
    with received show ?thesis by (intro src_received) simp
  next
    case B
    with received show ?thesis by (intro dst_received) simp_all
  qed
qed

lemma loop_waits:
  assumes net: "net_ok E P" and e: "at_stage d fs Looping [] ng [] False e"
  shows "handler_move (E i) e = None"
proof -
  obtain t where "flush_changes (E i) (host e) = (host e)\<lparr>fileHashes := t, changeBuf := [], udp := []\<rparr>"
    using flush_at_stage [OF net, of "host e" i] e by (auto simp: at_stage_def)
  with e show ?thesis by (simp add: handler_move_def at_stage_def)
qed

lemma src_free_waits:
  assumes "net_ok E P" "src_free P holds J [] s"
  shows "handler_move (E A) (ends s A) = None"
  using assms(2) loop_waits [OF assms(1), of "src_dir J" "src_disk J" "[]" "ends s A" A]
  by (auto simp: src_free_def src_at_def handler_move_def at_stage_def)

lemma src_free_pc:
  assumes "src_free P holds J ms s"
  shows "pc (ends s A) \<noteq> Connects ip port path out server fcs" "pc (ends s A) \<noteq> Listens f"
    "pc (ends s A) \<noteq> Receives path server fcs"
  using assms by (auto simp: src_free_def src_at_def at_stage_def)

text \<open>The end of an old transfer goes on beside everything else.\<close>

lemma src_free_transfers:
  assumes laws: "packet_laws P holds" and free: "src_free P holds J ms s"
    and st: "link s = Some x" "transfer_step P x u" "ends t = ends s" "link t = Some u"
  shows "src_free P holds J ms t \<and> src_weight J t < src_weight J s"
proof -
  from free st(1,2) obtain bs where bs: "src_at J (Sends bs) ms s" "transfer_inv holds bs x" "rcv_pc x = Received"
    by (auto simp: src_free_def quiet_link_def)
  have "transfer_inv holds bs u" "transfer_weight bs u < transfer_weight bs x" "rcv_pc u = Received"
    using transfer_moves [OF laws bs(2) st(2)] received_stays [OF st(2) bs(3)] by simp_all
  with bs st show ?thesis by (auto simp: src_free_def src_weight_def src_at_def at_stage_def)
qed

lemma src_free_sent:
  assumes free: "src_free P holds J ms s"
    and st: "pc (ends s A) = Sends bs" "link s = Some x" "snd_pc x = Sent"
      "ends t A = (ends s A)\<lparr>pc := Looping\<rparr>" "link t = link s"
  shows "src_free P holds J ms t \<and> src_weight J t < src_weight J s"
proof -
  from free st(1,2) have bs: "src_at J (Sends bs) ms s" "transfer_inv holds bs x"
    by (auto simp: src_free_def src_at_def at_stage_def)
  have "quiet_link P t" using sent_is_quiet(1) [OF bs(2) st(3)] st(2,5) by (simp add: quiet_link_def)
  moreover have "src_at J Looping ms t" using bs(1) st(4) by (simp add: src_at_def at_stage_def)
  moreover have "src_weight J t < src_weight J s"
    using bs(1) st by (simp add: src_weight_def src_at_def at_stage_def)
  ultimately show ?thesis by (simp add: src_free_def)
qed

lemma src_serves_pc:
  assumes "src_serves P J bs s"
  shows "pc (ends s A) \<noteq> Connects ip port path out server fcs" "pc (ends s A) \<noteq> Receives path server fcs"
    "pc (ends s A) \<noteq> Sends bs'"
  using assms by (auto simp: src_serves_def src_at_def at_stage_def)

lemma src_serves_move:
  assumes "src_serves P J bs s" "handler_move (E A) (ends s A) = Some (Inr e)"
  shows "src_serves P J bs (post E A e s) \<and> src_weight J (post E A e s) < src_weight J s \<and>
    ends (post E A e s) B = ends s B"
proof -
  let ?f = "\<lparr>in_rest = bs, in_good = True\<rparr>"
  have "src_at J (Prepares ?f) [] s"
    using assms by (auto simp: src_serves_def src_at_def at_stage_def handler_move_def)
  then have here: "at_stage (src_dir J) (src_disk J) (Prepares ?f) [] [] [] False (ends s A)"
    by (simp add: src_at_def)
  from move_listen [OF this, of E] assms(2) have
    "at_stage (src_dir J) (src_disk J) (Listens ?f) [] [] [] False (ends (post E A e s) A)"
    "ends (post E A e s) (other A) = ends s (other A)" by auto
  with assms(1) here show ?thesis
    by (auto simp: src_serves_def src_at_def src_weight_def at_stage_def quiet_link_def simp del: post_ends(1,2))
qed

end
