(* ===== verification/Two_Node_Runs.thy ===== *)
theory Two_Node_Runs
  imports Two_Node_Sync
begin

text \<open>
  Every step of a run with changes on one side leads from one phase of Two\_Node\_Sync to
  another and costs weight, and until the end there is a step: so every run is bounded and
  ends with the files at B.
\<close>

section \<open>Every step leads to a phase and costs weight\<close>

lemma job_changes_length [simp]: "length (job_changes J) = length (requests J)"
  by (simp add: job_changes_def)

lemma src_weight_same: "ends t A = ends s A \<Longrightarrow> link t = link s \<Longrightarrow> src_weight J t = src_weight J s"
  by (cases "pc (ends s A)") (simp_all add: src_weight_def)

lemma step_announcing:
  assumes net: "net_ok E P" and job: "job_ok J"
    and src: "at_stage (src_dir J) (src_disk J) Looping [] [] (job_changes J) False (ends s A)"
    and quiet: "quiet_link P s" and dst: "dst_at J (dst_disk J) Looping [] [] False s"
    and step: "timely_step E s t"
  shows "sync_phase E P holds J t \<and> net_weight J t < net_weight J s"
  using step
proof (cases rule: net_step_sides)
  case (src_move e)
  have "job_changes J \<noteq> []" using job by (simp add: job_ok_def job_changes_def)
  with move_announce [OF net src _ dst [unfolded dst_at_def other.simps(1) [symmetric]]] src_move
  have "src_at J Looping [] t" "dst_at J (dst_disk J) Looping [changes_message P (localAddress (E A)) (job_changes J)] [] False t"
    by (auto simp: src_at_def dst_at_def simp del: post_ends(1,2))
  moreover from this have "net_weight J t < net_weight J s"
    using src dst \<open>job_changes J \<noteq> []\<close> by (simp add: net_weight_def src_weight_def dst_weight_def src_at_def dst_at_def at_stage_def)
  moreover have "quiet_link P t" using quiet src_move by (simp add: quiet_link_def)
  ultimately show ?thesis using sync_phase.noticing by blast
next
  case (dst_move e)
  then show ?thesis using loop_waits [OF net dst [unfolded dst_at_def], of B] by simp
next
  case (transfers x u)
  then show ?thesis using quiet net by (simp add: quiet_link_def net_ok_def)
qed (use src dst in \<open>simp_all add: at_stage_def dst_at_def\<close>)

lemma step_noticing:
  assumes net: "net_ok E P" and laws: "packet_laws P holds" and job: "job_ok J"
    and src: "src_at J Looping [] s" and quiet: "quiet_link P s"
    and dst: "dst_at J (dst_disk J) Looping [changes_message P (localAddress (E A)) (job_changes J)] [] False s"
    and step: "timely_step E s t"
  shows "sync_phase E P holds J t \<and> net_weight J t < net_weight J s"
  using step
proof (cases rule: net_step_sides)
  case (src_move e)
  then show ?thesis using loop_waits [OF net src [unfolded src_at_def], of A] by simp
next
  case (dst_move e)
  have "changes_ok (job_changes J)" using job by (simp add: job_ok_def)
  from move_take_changes [OF net laws this, where i = B, unfolded other.simps, OF dst [unfolded dst_at_def]
      src [unfolded src_at_def]] dst_move
  have d: "dst_at J (dst_disk J) (Requests (localAddress (E A)) (job_changes J)) [] [] False t"
    and s: "src_at J Looping [] t"
    by (auto simp: src_at_def dst_at_def simp del: post_ends(1,2))
  then have "net_weight J t < net_weight J s"
    using src dst by (simp add: net_weight_def src_weight_def dst_weight_def src_at_def dst_at_def at_stage_def)
  moreover have "src_free P holds J [] t" using s quiet dst_move by (simp add: src_free_def quiet_link_def)
  ultimately show ?thesis using sync_phase.fetching [OF fetch_phase.asking [of P holds J t 0]] d filled_0 [OF job] by simp
next
  case (transfers x u)
  then show ?thesis using quiet net by (simp add: quiet_link_def net_ok_def)
qed (use src dst in \<open>simp_all add: at_stage_def src_at_def dst_at_def\<close>)

lemma job_request:
  assumes "job_ok J" "k < length (requests J)"
  shows "request_ok (requests J ! k)"
    "file_at (src_disk J) (resolve (src_dir J) @ rq_names (requests J ! k)) = Some (rq_content (requests J ! k))"
  using assms by (simp_all add: job_ok_def)

lemma job_drop:
  assumes "k < length (requests J)"
  shows "drop k (job_changes J) = rq_change (requests J ! k) # drop (Suc k) (job_changes J)"
  using assms by (simp add: job_changes_def drop_map Cons_nth_drop_Suc [symmetric])

lemma filled_next:
  assumes "filled J k fs" "k < length (requests J)"
  shows "place_ok fs (place J (requests J ! k))" "file_at fs (place J (requests J ! k)) = None"
proof -
  have "requests J ! k \<in> set (drop k (requests J))"
    using assms(2) by (metis Cons_nth_drop_Suc list.set_intros(1))
  with assms(1) show "place_ok fs (place J (requests J ! k))" "file_at fs (place J (requests J ! k)) = None"
    unfolding filled_def by blast+
qed

lemma src_free_at: "src_free P holds J ms s \<Longrightarrow> \<exists>c. src_at J c ms s"
  by (auto simp: src_free_def)

text \<open>A message that arrives at A adds three steps.\<close>

lemma src_free_more:
  assumes "src_free P holds J [] s" "src_at J c [] s" "src_at J c ms t" "link t = link s"
  shows "src_free P holds J ms t" "src_weight J t = src_weight J s + 3 * length ms"
proof -
  show "src_free P holds J ms t"
    using assms by (auto simp: src_free_def src_at_def at_stage_def quiet_link_def)
  show "src_weight J t = src_weight J s + 3 * length ms"
    using assms(2-) by (cases c) (simp_all add: src_weight_def src_at_def at_stage_def)
qed

lemma step_asking:
  assumes net: "net_ok E P" and laws: "packet_laws P holds" and job: "job_ok J"
    and src: "src_free P holds J [] s" and k: "k \<le> length (requests J)" "filled J k fs"
    and dst: "dst_at J fs (Requests (localAddress (E A)) (drop k (job_changes J))) [] ng False s"
    and step: "timely_step E s t"
  shows "fetch_phase E P holds J t \<and> net_weight J t < net_weight J s"
  using step
proof (cases rule: net_step_sides)
  case (src_move e)
  then show ?thesis using src_free_waits [OF net src] by simp
next
  case (dst_move e)
  show ?thesis
  proof (cases "k = length (requests J)")
    case True
    then have "at_stage (dst_dir J) fs (Requests (localAddress (E A)) []) [] ng [] False (ends s B)"
      using dst by (simp add: dst_at_def)
    from move_requests_end [OF this, of E] dst_move have
      "dst_at J fs Looping [] ng False t" "ends t A = ends s A"
      by (auto simp: dst_at_def simp del: post_ends(1,2))
    moreover from this have "net_weight J t < net_weight J s"
      using dst dst_move src_weight_same [of t s J]
      by (simp add: net_weight_def dst_weight_def dst_at_def at_stage_def)
    moreover have "src_free P holds J [] t"
      using src \<open>ends t A = ends s A\<close> dst_move by (simp add: src_free_def src_at_def quiet_link_def)
    ultimately show ?thesis using fetch_phase.finished k(2) True by blast
  next
    case False
    with k have lt: "k < length (requests J)" by simp
    let ?r = "requests J ! k"
    note d = dst [unfolded dst_at_def job_drop [OF lt]]
    have r: "change_ok (rq_change ?r)" "change (rq_change ?r) \<noteq> Deletion" "filePath (rq_change ?r) = join (rq_names ?r)"
      "names_ok (rq_names ?r)" using job_request(1) [OF job lt] by (simp_all add: request_ok_def)
    have "already_have (E B) (host (ends s B)) (rq_change ?r) = Inr False"
      using filled_next [OF k(2) lt] d
      by (intro already_have_new [OF r(3,4)]) (simp_all add: place_def place_ok_def at_stage_def)
    note ask = move_ask [OF net, where i = B, unfolded other.simps, OF d _ r(2) this]
    from src_free_at [OF src] obtain c where c: "src_at J c [] s" by blast
    from ask [OF c [unfolded src_at_def]] dst_move have
      n: "dst_at J fs (Awaits (localAddress (E A)) (drop (Suc k) (job_changes J))) [] [] True t"
        "src_at J c [request_message P (localAddress (E B)) (rq_change ?r)] t"
      by (auto simp: dst_at_def src_at_def simp del: post_ends(1,2))
    have "link t = link s" using dst_move by simp
    note free = src_free_more [OF src c n(2) this]
    have "dst_weight J (ends t B) + 3 < dst_weight J (ends s B)"
      using d n(1) lt rest_cost_Suc [OF lt] Suc_diff_Suc [OF lt]
      by (simp add: dst_weight_def dst_at_def at_stage_def file_cost_def)
    then have "net_weight J t < net_weight J s" using free(2) by (simp add: net_weight_def)
    then show ?thesis using fetch_phase.asked [where E = E, OF lt k(2) free(1) n(1)] by blast
  qed
next
  case (transfers x u)
  have "packets (E A) = P" using net by (simp add: net_ok_def)
  with src_free_transfers [OF laws src] transfers have
    "src_free P holds J [] t" "src_weight J t < src_weight J s" "dst_at J fs (Requests (localAddress (E A)) (drop k (job_changes J))) [] ng False t"
    using dst by (auto simp: dst_at_def)
  then show ?thesis using fetch_phase.asking k transfers by (fastforce simp: net_weight_def)
next
  case (src_sent bs x)
  with src_free_sent [OF src src_sent(1-4,6)] have
    "src_free P holds J [] t" "src_weight J t < src_weight J s" "dst_at J fs (Requests (localAddress (E A)) (drop k (job_changes J))) [] ng False t"
    using dst by (auto simp: dst_at_def)
  then show ?thesis using fetch_phase.asking k src_sent by (fastforce simp: net_weight_def)
qed (use src_free_pc [OF src] dst in \<open>simp_all add: at_stage_def dst_at_def\<close>)

lemma step_asked:
  assumes net: "net_ok E P" and laws: "packet_laws P holds" and job: "job_ok J"
    and k: "k < length (requests J)" "filled J k fs"
    and src: "src_free P holds J [request_message P (localAddress (E B)) (rq_change (requests J ! k))] s"
    and dst: "dst_at J fs (Awaits (localAddress (E A)) (drop (Suc k) (job_changes J))) [] [] True s"
    and step: "timely_step E s t"
  shows "fetch_phase E P holds J t \<and> net_weight J t < net_weight J s"
  using step
proof (cases rule: net_step_sides)
  case (src_move e)
  let ?r = "requests J ! k"
  have r: "change_ok (rq_change ?r)" "filePath (rq_change ?r) = join (rq_names ?r)" "names_ok (rq_names ?r)"
    using job_request(1) [OF job k(1)] by (simp_all add: request_ok_def)
  from src src_move have a: "src_at J Looping [request_message P (localAddress (E B)) (rq_change ?r)] s" "quiet_link P s"
    by (auto simp: src_free_def src_at_def at_stage_def handler_move_def)
  from move_take_request [OF net laws r, where i = A, unfolded other.simps, OF a(1) [unfolded src_at_def]
      dst [unfolded dst_at_def] job_request(2) [OF job k(1)]] src_move
  have n: "src_at J (Prepares \<lparr>in_rest = rq_content ?r, in_good = True\<rparr>) [] t"
    "dst_at J fs (Awaits (localAddress (E A)) (drop (Suc k) (job_changes J))) []
      [(packet_arrived P (put_details P False (rq_change ?r) 45016), localAddress (E A))] True t"
    by (auto simp: src_at_def dst_at_def simp del: post_ends(1,2))
  then have "net_weight J t < net_weight J s"
    using a dst by (simp add: net_weight_def src_weight_def dst_weight_def src_at_def dst_at_def at_stage_def)
  moreover have "src_serves P J (rq_content ?r) t"
    using n(1) a(2) src_move by (auto simp: src_serves_def quiet_link_def)
  ultimately show ?thesis using fetch_phase.answering [where E = E, OF k _ n(2)] by blast
next
  case (dst_move e)
  then show ?thesis using dst by (simp add: dst_at_def at_stage_def handler_move_def)
next
  case (transfers x u)
  have "packets (E A) = P" using net by (simp add: net_ok_def)
  with src_free_transfers [OF laws src] transfers have n:
    "src_free P holds J [request_message P (localAddress (E B)) (rq_change (requests J ! k))] t"
    "src_weight J t < src_weight J s"
    "dst_at J fs (Awaits (localAddress (E A)) (drop (Suc k) (job_changes J))) [] [] True t"
    using dst by (auto simp: dst_at_def)
  then show ?thesis using fetch_phase.asked [where E = E, OF k n(1,3)] transfers by (simp add: net_weight_def)
next
  case (src_sent bs x)
  with src_free_sent [OF src src_sent(1-4,6)] have n:
    "src_free P holds J [request_message P (localAddress (E B)) (rq_change (requests J ! k))] t"
    "src_weight J t < src_weight J s"
    "dst_at J fs (Awaits (localAddress (E A)) (drop (Suc k) (job_changes J))) [] [] True t"
    using dst by (auto simp: dst_at_def)
  then show ?thesis using fetch_phase.asked [where E = E, OF k n(1,3)] src_sent by (simp add: net_weight_def)
qed (use src_free_pc [OF src] dst in \<open>simp_all add: at_stage_def dst_at_def\<close>)

lemma step_answering:
  assumes net: "net_ok E P" and laws: "packet_laws P holds" and job: "job_ok J"
    and k: "k < length (requests J)" "filled J k fs" and src: "src_serves P J (rq_content (requests J ! k)) s"
    and dst: "dst_at J fs (Awaits (localAddress (E A)) (drop (Suc k) (job_changes J))) []
      [(packet_arrived P (put_details P False (rq_change (requests J ! k)) 45016), localAddress (E A))] True s"
    and step: "timely_step E s t"
  shows "fetch_phase E P holds J t \<and> net_weight J t < net_weight J s"
  using step
proof (cases rule: net_step_sides)
  case (src_move e)
  with src_serves_move [where E = E, OF src src_move(1)] dst have
    "src_serves P J (rq_content (requests J ! k)) t" "src_weight J t < src_weight J s" "ends t B = ends s B"
    "dst_at J fs (Awaits (localAddress (E A)) (drop (Suc k) (job_changes J))) []
      [(packet_arrived P (put_details P False (rq_change (requests J ! k)) 45016), localAddress (E A))] True t"
    by (auto simp: dst_at_def)
  then show ?thesis using fetch_phase.answering [where E = E, OF k] by (simp add: net_weight_def)
next
  case (dst_move e)
  let ?r = "requests J ! k"
  have r: "change_ok (rq_change ?r)" "filePath (rq_change ?r) = join (rq_names ?r)" "names_ok (rq_names ?r)"
    using job_request(1) [OF job k(1)] by (simp_all add: request_ok_def)
  have d: "dir_path (dst_dir J)" "place_ok fs (resolve (dst_dir J) @ rq_names ?r)"
    using job filled_next(1) [OF k(2,1)] by (simp_all add: job_ok_def place_def)
  from move_take_answer [OF net laws r dst [unfolded dst_at_def] d] dst_move obtain fs2 path where
    st: "stores fs (place J ?r) fs2 path" and
    n: "dst_at J fs2 (Connects (localAddress (E A)) 45016 path \<lparr>out_good = True, out_data = []\<rparr> (localAddress (E A)) (drop (Suc k) (job_changes J)))
      [] [(packet_arrived P (put_details P False (rq_change ?r) 45016), localAddress (E A))] True t"
      "ends t A = ends s A"
    by (auto simp: dst_at_def place_def simp del: post_ends(1,2))
  have "link t = link s" using dst_move by simp
  moreover from this have "src_serves P J (rq_content ?r) t"
    using src n(2) by (simp add: src_serves_def src_at_def quiet_link_def)
  moreover have "dst_weight J (ends t B) < dst_weight J (ends s B)"
    using dst n(1) rest_cost_Suc [OF k(1)] by (simp add: dst_weight_def dst_at_def at_stage_def file_cost_def)
  ultimately show ?thesis
    using fetch_phase.connecting [where E = E, OF k _ st n(1)] src_weight_same [OF n(2)] by (simp add: net_weight_def)
next
  case (transfers x u)
  then show ?thesis using src net by (simp add: src_serves_def quiet_link_def net_ok_def)
qed (use src_serves_pc [OF src] dst in \<open>simp_all add: at_stage_def dst_at_def\<close>)

lemma step_connecting:
  assumes net: "net_ok E P" and laws: "packet_laws P holds" and job: "job_ok J"
    and k: "k < length (requests J)" "filled J k fs" and src: "src_serves P J (rq_content (requests J ! k)) s"
    and st: "stores fs (place J (requests J ! k)) fs2 path"
    and dst: "dst_at J fs2 (Connects (localAddress (E A)) 45016 path \<lparr>out_good = True, out_data = []\<rparr> (localAddress (E A))
      (drop (Suc k) (job_changes J))) [] ng True s"
    and step: "timely_step E s t"
  shows "fetch_phase E P holds J t \<and> net_weight J t < net_weight J s"
  using step
proof (cases rule: net_step_sides)
  case (src_move e)
  with src_serves_move [where E = E, OF src src_move(1)] dst have n:
    "src_serves P J (rq_content (requests J ! k)) t" "src_weight J t < src_weight J s" "ends t B = ends s B"
    "dst_at J fs2 (Connects (localAddress (E A)) 45016 path \<lparr>out_good = True, out_data = []\<rparr> (localAddress (E A))
      (drop (Suc k) (job_changes J))) [] ng True t"
    by (auto simp: dst_at_def)
  then show ?thesis using fetch_phase.connecting [where E = E, OF k n(1) st n(4)] by (simp add: net_weight_def)
next
  case (dst_move e)
  then show ?thesis using dst by (simp add: dst_at_def at_stage_def handler_move_def)
next
  case (dst_connects path' out server fcs f)
  let ?bs = "rq_content (requests J ! k)"
  have len: "length ?bs < 2 ^ 32" using job_request(1) [OF job k(1)] by (simp add: request_ok_def)
  from src dst_connects(2) have "src_at J (Listens \<lparr>in_rest = ?bs, in_good = True\<rparr>) [] s"
    by (auto simp: src_serves_def src_at_def at_stage_def)
  with dst_connects have f: "f = \<lparr>in_rest = ?bs, in_good = True\<rparr>" and a: "src_at J (Sends ?bs) [] t"
    by (auto simp: src_at_def at_stage_def)
  have b: "path' = path" "out = \<lparr>out_good = True, out_data = []\<rparr>"
    "dst_at J fs2 (Receives path (localAddress (E A)) (drop (Suc k) (job_changes J))) [] ng True t"
    using dst dst_connects by (auto simp: dst_at_def at_stage_def)
  have "src_weight J s = 1"
    using \<open>src_at J (Listens \<lparr>in_rest = ?bs, in_good = True\<rparr>) [] s\<close> by (simp add: src_weight_def src_at_def at_stage_def)
  moreover have "src_weight J t = 4 + 3 * chunks (length ?bs)"
    using a dst_connects(5) f b(2) by (simp add: src_weight_def src_at_def at_stage_def transfer_begins(2) [OF laws len])
  moreover have "dst_weight J (ends t B) + 6 + 3 * chunks (length ?bs) = dst_weight J (ends s B)"
    using dst b(3) rest_cost_Suc [OF k(1)] by (simp add: dst_weight_def dst_at_def at_stage_def file_cost_def)
  ultimately have "net_weight J t < net_weight J s" by (simp add: net_weight_def)
  moreover have "fetch_phase E P holds J t"
    using fetch_phase.moving [where E = E, OF k st _ _ _ b(3)] transfer_begins(1) [OF laws len] dst_connects(5) f b(2) a
    by (simp add: src_moves_def)
  ultimately show ?thesis by simp
next
  case (transfers x u)
  then show ?thesis using src net by (simp add: src_serves_def quiet_link_def net_ok_def)
qed (use src_serves_pc [OF src] dst in \<open>simp_all add: at_stage_def dst_at_def\<close>)

lemma src_moves_pc:
  assumes "src_moves J bs x s"
  shows "pc (ends s A) \<noteq> Connects ip port path out server fcs" "pc (ends s A) \<noteq> Receives path server fcs"
    "pc (ends s A) \<noteq> Listens f"
  using assms by (auto simp: src_moves_def src_at_def at_stage_def)

lemma step_moving:
  assumes net: "net_ok E P" and laws: "packet_laws P holds" and job: "job_ok J"
    and k: "k < length (requests J)" "filled J k fs" and st: "stores fs (place J (requests J ! k)) fs2 path"
    and l: "link s = Some x" "transfer_inv holds (rq_content (requests J ! k)) x"
    and src: "src_moves J (rq_content (requests J ! k)) x s"
    and dst: "dst_at J fs2 (Receives path (localAddress (E A)) (drop (Suc k) (job_changes J))) [] ng True s"
    and step: "timely_step E s t"
  shows "fetch_phase E P holds J t \<and> net_weight J t < net_weight J s"
  using step
proof (cases rule: net_step_sides)
  case (src_move e)
  then show ?thesis
    using src loop_waits [OF net, of "src_dir J" "src_disk J" "[]" "ends s A" A]
    by (auto simp: src_moves_def src_at_def at_stage_def handler_move_def)
next
  case (dst_move e)
  then show ?thesis using dst by (simp add: dst_at_def at_stage_def handler_move_def)
next
  case (transfers y u)
  have step: "transfer_step P x u" "y = x" using transfers l(1) net by (simp_all add: net_ok_def)
  with sent_is_quiet(1) [OF l(2)] have "snd_pc x \<noteq> Sent" by blast
  with src have a: "src_at J (Sends (rq_content (requests J ! k))) [] s" by (auto simp: src_moves_def)
  note u = transfer_moves [OF laws l(2) step(1)]
  have "src_moves J (rq_content (requests J ! k)) u t" using a transfers(3) by (simp add: src_moves_def src_at_def)
  moreover have "net_weight J t < net_weight J s"
    using a transfers l(1) u(2) step(2)
    by (simp add: net_weight_def src_weight_def src_at_def at_stage_def)
  ultimately show ?thesis
    using fetch_phase.moving [where E = E, OF k st transfers(4) u(1)] dst transfers(3) by (simp add: dst_at_def)
next
  case (src_sent bs y)
  then have "src_at J Looping [] t" "snd_pc x = Sent" "net_weight J t < net_weight J s"
    using src l(1) by (auto simp: src_moves_def src_at_def at_stage_def net_weight_def src_weight_def)
  moreover have "dst_at J fs2 (Receives path (localAddress (E A)) (drop (Suc k) (job_changes J))) [] ng True t"
    using dst src_sent(5) by (simp add: dst_at_def)
  ultimately show ?thesis
    using fetch_phase.moving [where E = E, OF k st _ l(2)] src_sent(6) l(1) by (simp add: src_moves_def)
next
  case (dst_received path' server fcs y)
  let ?bs = "rq_content (requests J ! k)"
  have len: "length ?bs < 2 ^ 32" using job_request(1) [OF job k(1)] by (simp add: request_ok_def)
  have y: "y = x" "rcv_pc x = Received" "path' = path" using dst_received l(1) dst by (auto simp: dst_at_def at_stage_def)
  from received_file [OF l(2) y(2) len] have rf: "rcv_file x = \<lparr>out_good = True, out_data = ?bs\<rparr>" .
  have d: "dst_at J (close_write fs2 path \<lparr>out_good = True, out_data = ?bs\<rparr>)
      (Requests (localAddress (E A)) (drop (Suc k) (job_changes J))) [] ng False t"
    using dst dst_received y rf by (auto simp: dst_at_def at_stage_def finish_request_def unlock_dirLock_def)
  have "src_free P holds J [] t"
    using src sent_is_quiet(1) [OF l(2)] dst_received(4,5) l y(2)
    by (auto simp: src_moves_def src_free_def src_at_def quiet_link_def)
  moreover have "net_weight J t < net_weight J s"
    using dst d src_weight_same [OF dst_received(4,5)]
    by (simp add: net_weight_def dst_weight_def dst_at_def at_stage_def)
  ultimately show ?thesis
    using fetch_phase.asking [where E = E, OF _ _ filled_Suc [OF job k st] d] k(1) by simp
qed (use src_moves_pc [OF src] dst in \<open>simp_all add: at_stage_def dst_at_def\<close>)

lemma step_finished:
  assumes net: "net_ok E P" and laws: "packet_laws P holds"
    and src: "src_free P holds J [] s" and full: "filled J (length (requests J)) fs"
    and dst: "dst_at J fs Looping [] ng False s" and step: "timely_step E s t"
  shows "fetch_phase E P holds J t \<and> net_weight J t < net_weight J s"
  using step
proof (cases rule: net_step_sides)
  case (src_move e)
  then show ?thesis using src_free_waits [OF net src] by simp
next
  case (dst_move e)
  then show ?thesis using loop_waits [OF net dst [unfolded dst_at_def], of B] by simp
next
  case (transfers x u)
  have "packets (E A) = P" using net by (simp add: net_ok_def)
  with src_free_transfers [OF laws src] transfers have n:
    "src_free P holds J [] t" "src_weight J t < src_weight J s" "dst_at J fs Looping [] ng False t"
    using dst by (auto simp: dst_at_def)
  then show ?thesis using fetch_phase.finished [OF n(1) full n(3)] transfers by (simp add: net_weight_def)
next
  case (src_sent bs x)
  with src_free_sent [OF src src_sent(1-4,6)] have n:
    "src_free P holds J [] t" "src_weight J t < src_weight J s" "dst_at J fs Looping [] ng False t"
    using dst by (auto simp: dst_at_def)
  then show ?thesis using fetch_phase.finished [OF n(1) full n(3)] src_sent by (simp add: net_weight_def)
qed (use src_free_pc [OF src] dst in \<open>simp_all add: at_stage_def dst_at_def\<close>)

lemma fetch_phase_step:
  assumes net: "net_ok E P" and laws: "packet_laws P holds" and job: "job_ok J"
    and ph: "fetch_phase E P holds J s" and step: "timely_step E s t"
  shows "fetch_phase E P holds J t \<and> net_weight J t < net_weight J s"
  using ph
proof (cases rule: fetch_phase.cases)
  case (asking k fs ng)
  then show ?thesis using step_asking [OF net laws job] step by blast
next
  case (asked k fs)
  then show ?thesis using step_asked [OF net laws job] step by blast
next
  case (answering k fs)
  then show ?thesis using step_answering [OF net laws job] step by blast
next
  case (connecting k fs fs2 path ng)
  then show ?thesis using step_connecting [OF net laws job] step by blast
next
  case (moving k fs fs2 path x ng)
  then show ?thesis using step_moving [OF net laws job] step by blast
next
  case (finished fs ng)
  then show ?thesis using step_finished [OF net laws] step by blast
qed

lemma sync_phase_step:
  assumes net: "net_ok E P" and laws: "packet_laws P holds" and job: "job_ok J"
    and ph: "sync_phase E P holds J s" and step: "timely_step E s t"
  shows "sync_phase E P holds J t \<and> net_weight J t < net_weight J s"
  using ph
proof (cases rule: sync_phase.cases)
  case announcing
  then show ?thesis using step_announcing [OF net job] step by blast
next
  case noticing
  then show ?thesis using step_noticing [OF net laws job] step by blast
next
  case fetching
  then show ?thesis using fetch_phase_step [OF net laws job _ step] sync_phase.fetching by blast
qed

section \<open>A step is possible until the end\<close>

lemma sender_progress:
  assumes "net_ok E P" "packet_laws P holds" "pc (ends s A) = Sends bs" "link s = Some x" "transfer_inv holds bs x"
  shows "\<exists>t. timely_step E s t"
proof (cases "snd_pc x = Sent")
  case True
  then show ?thesis using timely_step.sent [OF assms(3,4)] by blast
next
  case False
  with transfer_goes_on [OF assms(2,5)] assms(1) obtain u where "transfer_step (packets (E A)) x u"
    by (auto simp: net_ok_def)
  then show ?thesis using timely_step.transfer [OF assms(4)] by blast
qed

lemma src_free_progress:
  assumes net: "net_ok E P" and laws: "packet_laws P holds" and src: "src_free P holds J ms s"
    and idle: "src_at J Looping ms s \<Longrightarrow> \<exists>t. timely_step E s t"
  shows "\<exists>t. timely_step E s t"
  using src idle sender_progress [OF net laws] by (auto simp: src_free_def src_at_def at_stage_def)

lemma move_progress: "handler_move (E i) (ends s i) = Some (Inr e) \<Longrightarrow> \<exists>t. timely_step E s t"
  using timely_step.move by blast

lemma asking_progress:
  assumes net: "net_ok E P" and job: "job_ok J" and src: "src_free P holds J [] s"
    and k: "k \<le> length (requests J)" "filled J k fs"
    and dst: "dst_at J fs (Requests (localAddress (E A)) (drop k (job_changes J))) [] ng False s"
  shows "\<exists>t. timely_step E s t"
proof (cases "k = length (requests J)")
  case True
  with dst have "at_stage (dst_dir J) fs (Requests (localAddress (E A)) []) [] ng [] False (ends s B)"
    by (simp add: dst_at_def)
  from move_requests_end [OF this, of E] move_progress show ?thesis by blast
next
  case False
  with k have lt: "k < length (requests J)" by simp
  let ?r = "requests J ! k"
  note d = dst [unfolded dst_at_def job_drop [OF lt]]
  have r: "change (rq_change ?r) \<noteq> Deletion" "filePath (rq_change ?r) = join (rq_names ?r)" "names_ok (rq_names ?r)"
    using job_request(1) [OF job lt] by (simp_all add: request_ok_def)
  have "already_have (E B) (host (ends s B)) (rq_change ?r) = Inr False"
    using filled_next [OF k(2) lt] d
    by (intro already_have_new [OF r(2,3)]) (simp_all add: place_def place_ok_def at_stage_def)
  moreover from src_free_at [OF src] obtain c where "src_at J c [] s" by blast
  ultimately show ?thesis
    using move_ask [OF net, where i = B, unfolded other.simps, OF d _ r(1)] move_progress
    unfolding src_at_def by blast
qed

lemma fetch_progress:
  assumes net: "net_ok E P" and laws: "packet_laws P holds" and job: "job_ok J" and ph: "fetch_phase E P holds J s"
    and stop: "\<nexists>t. timely_step E s t"
  shows "\<exists>fs ng. src_at J Looping [] s \<and> dst_at J fs Looping [] ng False s \<and> filled J (length (requests J)) fs"
  using ph
proof (cases rule: fetch_phase.cases)
  case (asking k fs ng)
  with asking_progress [OF net job] stop show ?thesis by blast
next
  case (asked k fs)
  let ?r = "requests J ! k"
  have r: "change_ok (rq_change ?r)" "filePath (rq_change ?r) = join (rq_names ?r)" "names_ok (rq_names ?r)"
    using job_request(1) [OF job asked(1)] by (simp_all add: request_ok_def)
  from src_free_progress [OF net laws asked(3)] stop have "src_at J Looping
      [request_message P (localAddress (E B)) (rq_change ?r)] s" using asked(3) by blast
  from move_take_request [OF net laws r, where i = A, unfolded other.simps, OF this [unfolded src_at_def]
      asked(4) [unfolded dst_at_def] job_request(2) [OF job asked(1)]] move_progress stop show ?thesis by blast
next
  case (answering k fs)
  let ?r = "requests J ! k"
  have r: "change_ok (rq_change ?r)" "filePath (rq_change ?r) = join (rq_names ?r)" "names_ok (rq_names ?r)"
    using job_request(1) [OF job answering(1)] by (simp_all add: request_ok_def)
  have d: "dir_path (dst_dir J)" "place_ok fs (resolve (dst_dir J) @ rq_names ?r)"
    using job filled_next(1) [OF answering(2,1)] by (simp_all add: job_ok_def place_def)
  from move_take_answer [OF net laws r answering(4) [unfolded dst_at_def] d] move_progress stop show ?thesis by blast
next
  case (connecting k fs fs2 path ng)
  let ?f = "\<lparr>in_rest = rq_content (requests J ! k), in_good = True\<rparr>"
  from connecting(3) consider "src_at J (Prepares ?f) [] s" | "src_at J (Listens ?f) [] s" by (auto simp: src_serves_def)
  then have "\<exists>t. timely_step E s t"
  proof cases
    case 1
    from move_listen [OF this [unfolded src_at_def], of E] move_progress show ?thesis by blast
  next
    case 2
    with connecting(5) timely_step.connect [of s B] show ?thesis
      by (fastforce simp: src_at_def dst_at_def at_stage_def)
  qed
  with stop show ?thesis by blast
next
  case (moving k fs fs2 path x ng)
  from moving(6) consider "src_at J (Sends (rq_content (requests J ! k))) [] s" | "snd_pc x = Sent"
    by (auto simp: src_moves_def)
  then have "\<exists>t. timely_step E s t"
  proof cases
    case 1
    then show ?thesis using sender_progress [OF net laws _ moving(4,5)] by (simp add: src_at_def at_stage_def)
  next
    case 2
    from sent_is_quiet(2) [OF moving(5) this] moving(4,7) timely_step.received [of s B] show ?thesis
      by (fastforce simp: dst_at_def at_stage_def)
  qed
  with stop show ?thesis by blast
next
  case (finished fs ng)
  from src_free_progress [OF net laws finished(1)] stop have "src_at J Looping [] s" using finished(1) by blast
  with finished show ?thesis by blast
qed

lemma sync_progress:
  assumes net: "net_ok E P" and laws: "packet_laws P holds" and job: "job_ok J" and ph: "sync_phase E P holds J s"
    and stop: "\<nexists>t. timely_step E s t"
  shows "\<exists>fs ng. src_at J Looping [] s \<and> dst_at J fs Looping [] ng False s \<and> filled J (length (requests J)) fs"
  using ph
proof (cases rule: sync_phase.cases)
  case announcing
  have "job_changes J \<noteq> []" using job by (simp add: job_ok_def job_changes_def)
  with move_announce [OF net announcing(1) _ announcing(3) [unfolded dst_at_def other.simps(1) [symmetric]]]
    move_progress stop show ?thesis by blast
next
  case noticing
  have "changes_ok (job_changes J)" using job by (simp add: job_ok_def)
  from move_take_changes [OF net laws this, where i = B, unfolded other.simps, OF noticing(3) [unfolded dst_at_def]
      noticing(1) [unfolded src_at_def]] move_progress stop show ?thesis by blast
next
  case fetching
  with fetch_progress [OF net laws job _ stop] show ?thesis by blast
qed

section \<open>The run as a terminating system\<close>

definition sync_start :: "(side \<Rightarrow> ('p outbox, 's, 'l, 'p) platform) \<Rightarrow> 'p packet_api \<Rightarrow>
    ('p \<Rightarrow> field list \<Rightarrow> field list \<Rightarrow> bool) \<Rightarrow> sync_job \<Rightarrow> ('s, 'l, 'p) network \<Rightarrow> bool" where
  "sync_start E P holds J s \<longleftrightarrow> net_ok E P \<and> packet_laws P holds \<and> job_ok J \<and> link s = None \<and>
     at_stage (src_dir J) (src_disk J) Looping [] [] (job_changes J) False (ends s A) \<and>
     at_stage (dst_dir J) (dst_disk J) Looping [] [] [] False (ends s B)"

definition sync_run :: "(side \<Rightarrow> ('p outbox, 's, 'l, 'p) platform) \<Rightarrow> 'p packet_api \<Rightarrow>
    ('p \<Rightarrow> field list \<Rightarrow> field list \<Rightarrow> bool) \<Rightarrow> sync_job \<Rightarrow> ('s, 'l, 'p) network \<Rightarrow> bool" where
  "sync_run E P holds J s \<longleftrightarrow> net_ok E P \<and> packet_laws P holds \<and> job_ok J \<and> sync_phase E P holds J s"

lemma sync_start_run: "sync_start E P holds J s \<Longrightarrow> sync_run E P holds J s"
  unfolding sync_run_def sync_start_def
  by (auto simp: dst_at_def quiet_link_def intro!: sync_phase.announcing)

interpretation two_nodes: terminating_system "sync_start E P holds J" "timely_step E" "sync_run E P holds J" "net_weight J"
  for E P holds J
proof
  show "sync_start E P holds J s \<Longrightarrow> sync_run E P holds J s" for s by (rule sync_start_run)
  fix s t
  assume st: "sync_run E P holds J s" "timely_step E s t"
  then show "sync_run E P holds J t" using sync_phase_step unfolding sync_run_def by blast
  show "net_weight J t < net_weight J s" using st sync_phase_step unfolding sync_run_def by blast
qed

text \<open>Both nodes are idle, and B has the files.\<close>

definition synced :: "sync_job \<Rightarrow> ('s, 'l, 'p) network \<Rightarrow> bool" where
  "synced J s \<longleftrightarrow> (\<forall>i. pc (ends s i) = Looping \<and> todoUdp (host (ends s i)) = [] \<and> \<not> dirLocked (host (ends s i))) \<and>
     disk (host (ends s A)) = src_disk J \<and>
     file_at (disk (host (ends s B))) = file_at (dst_disk J) ++
       map_of (map (\<lambda>r. (resolve (dst_dir J) @ rq_names r, rq_content r)) (requests J))"

end
