(* ===== verification/Two_Node_Hazards.thy ===== *)
theory Two_Node_Hazards
  imports Two_Node_Runs
begin

text \<open>
  How two running nodes come to a standstill: both announce changes at the same time; a
  datagram is lost; a client connects before the server listens. In each case the handler
  waits for ever with \<open>dirLock\<close> taken, so that the watcher of the node stops, too.
\<close>

section \<open>States without a way on\<close>

lemma move_in_steps:
  assumes "(timely_step E)\<^sup>*\<^sup>* s t" "handler_move (E i) (ends t i) = Some (Inr e)"
  shows "(timely_step E)\<^sup>*\<^sup>* s (post E i e t)"
  using assms move by (metis rtranclp.rtrancl_into_rtrancl)

lemma net_steps: "(timely_step E)\<^sup>*\<^sup>* s t \<Longrightarrow> (net_step E)\<^sup>*\<^sup>* s t"
  using timely mono_rtranclp [of "timely_step E" "net_step E"] by blast

lemma noisy_steps: "(timely_step E)\<^sup>*\<^sup>* s t \<Longrightarrow> (noisy_step E)\<^sup>*\<^sup>* s t"
  using normal timely mono_rtranclp [of "timely_step E" "noisy_step E"] by blast

lemma handler_move_Awaits: "pc e = Awaits server fcs \<Longrightarrow> negotiation e = [] \<Longrightarrow> handler_move E e = None"
  by (simp add: handler_move_def)

lemma handler_move_Unconnected: "pc e = Unconnected path out server fcs \<Longrightarrow> handler_move E e = None"
  by (simp add: handler_move_def)

lemma watcher_waits: "dirLocked n \<Longrightarrow> lock_dirLock n = None"
  by (simp add: lock_dirLock_def)

text \<open>A node whose handler waits for an answer that nobody sends.\<close>

definition waits_in_vain :: "('s, 'l, 'p) endpoint \<Rightarrow> bool" where
  "waits_in_vain e \<longleftrightarrow> is_awaiting (pc e) \<and> negotiation e = [] \<and> dirLocked (host e)"

lemma waits_in_vain_move: "waits_in_vain e \<Longrightarrow> handler_move E e = None"
  by (auto simp: waits_in_vain_def is_awaiting_def handler_move_def split: handler_pc.splits)

lemma waits_in_vain_pc:
  "waits_in_vain e \<Longrightarrow> pc e \<noteq> Connects ip port path out server fcs \<and> pc e \<noteq> Listens file \<and> pc e \<noteq> Sends bs \<and>
     pc e \<noteq> Receives path server fcs \<and> pc e \<noteq> Unconnected path out server fcs"
  by (auto simp: waits_in_vain_def is_awaiting_def)

lemma both_wait_timely:
  assumes wait: "\<forall>i. waits_in_vain (ends s i)" and "timely_step E s t"
  shows "ends t = ends s"
  using assms(2)
proof (cases rule: timely_step.cases)
  case (move i e)
  then show ?thesis using waits_in_vain_move [OF wait [rule_format], of "E i" i] by simp
next
  case (connect i path out server fcs f)
  then show ?thesis using waits_in_vain_pc [OF wait [rule_format], of i] by simp
next
  case (sent i bs t)
  then show ?thesis using waits_in_vain_pc [OF wait [rule_format], of i] by simp
next
  case (received i path server fcs t)
  then show ?thesis using waits_in_vain_pc [OF wait [rule_format], of i] by simp
qed simp

lemma both_wait_net:
  assumes wait: "\<forall>i. waits_in_vain (ends s i)" and "net_step E s t"
  shows "ends t = ends s"
  using assms(2)
proof (cases rule: net_step.cases)
  case timely
  then show ?thesis by (rule both_wait_timely [OF wait])
next
  case (refused i ip port path out server fcs)
  then show ?thesis using waits_in_vain_pc [OF wait [rule_format], of i] by simp
next
  case (returned i path out server fcs)
  then show ?thesis using waits_in_vain_pc [OF wait [rule_format], of i] by simp
qed

lemma both_wait_step:
  assumes wait: "\<forall>i. waits_in_vain (ends s i)" and "noisy_step E s t"
  shows "(\<forall>i. waits_in_vain (ends t i)) \<and> (\<forall>i. pc (ends t i) = pc (ends s i))"
  using assms(2)
proof (cases rule: noisy_step.cases)
  case normal
  then show ?thesis using both_wait_net [OF wait] wait by simp
next
  case (watcher i n table w)
  then show ?thesis
    using wait [rule_format, of i] watcher_waits [of "host (ends s i)"] by (simp add: waits_in_vain_def)
qed (use wait in \<open>simp_all add: waits_in_vain_def\<close>)

lemma both_wait_for_ever:
  assumes "(noisy_step E)\<^sup>*\<^sup>* s t" "\<forall>i. waits_in_vain (ends s i)"
  shows "(\<forall>i. waits_in_vain (ends t i)) \<and> (\<forall>i. pc (ends t i) = pc (ends s i))"
  using assms(1) by (induction rule: rtranclp_induct) (use assms(2) both_wait_step in \<open>simp, metis\<close>)

text \<open>Five moves lead there when both nodes have changes.\<close>

lemma both_nodes_ask:
  fixes E :: "side \<Rightarrow> ('p outbox, 's, 'l, 'p) platform"
  assumes net: "net_ok E P" and laws: "packet_laws P holds"
    and start: "\<And>i. at_stage (d i) (fs i) Looping [] [] (c i # cs i) False (ends s i)"
    and changes: "\<And>i. changes_ok (c i # cs i)" "\<And>i. change (c i) \<noteq> Deletion"
    and missing: "\<And>i. already_have (E i) (host (ends s i)) (c (other i)) = Inr False"
  shows "\<exists>t. (timely_step E)\<^sup>*\<^sup>* s t \<and>
    (\<forall>i. waits_in_vain (ends t i) \<and> pc (ends t i) = Awaits (localAddress (E (other i))) (cs (other i)))"
proof -
  let ?ip = "\<lambda>i. localAddress (E i)" and ?all = "\<lambda>i. c i # cs i"
  have need: "already_have (E i) (host (ends t i)) (c (other i)) = Inr False"
    if "at_stage (d i) (fs i) pc' ms ng buf lk (ends t i)" for i t pc' ms ng buf lk
    using that start [of i] missing [of i] already_have_cong [of "host (ends t i)" "host (ends s i)"]
    by (simp add: at_stage_def)
  from move_announce [OF net, where i = A, unfolded other.simps, OF start _ start] obtain e1 where
    m1: "handler_move (E A) (ends s A) = Some (Inr e1)"
    and s1: "at_stage (d A) (fs A) Looping [] [] [] False (ends (post E A e1 s) A)"
      "at_stage (d B) (fs B) Looping [changes_message P (?ip A) (?all A)] [] (?all B) False (ends (post E A e1 s) B)"
    by auto
  let ?s1 = "post E A e1 s"
  from move_take_changes [OF net laws changes(1), where i = B, unfolded other.simps, OF s1(2,1)] obtain e2 where
    m2: "handler_move (E B) (ends ?s1 B) = Some (Inr e2)"
    and s2: "at_stage (d B) (fs B) (Requests (?ip A) (?all A)) [] [] [] False (ends (post E B e2 ?s1) B)"
      "at_stage (d A) (fs A) Looping [changes_message P (?ip B) (?all B)] [] [] False (ends (post E B e2 ?s1) A)"
    by auto
  let ?s2 = "post E B e2 ?s1"
  from move_take_changes [OF net laws changes(1), where i = A, unfolded other.simps, OF s2(2,1)] obtain e3 where
    m3: "handler_move (E A) (ends ?s2 A) = Some (Inr e3)"
    and s3: "at_stage (d A) (fs A) (Requests (?ip B) (?all B)) [] [] [] False (ends (post E A e3 ?s2) A)"
      "at_stage (d B) (fs B) (Requests (?ip A) (?all A)) [] [] [] False (ends (post E A e3 ?s2) B)"
    by auto
  let ?s3 = "post E A e3 ?s2"
  from move_ask [OF net, where i = A, unfolded other.simps, OF s3 changes(2) need [OF s3(1), unfolded other.simps]] obtain e4 where
    m4: "handler_move (E A) (ends ?s3 A) = Some (Inr e4)"
    and s4: "at_stage (d A) (fs A) (Awaits (?ip B) (cs B)) [] [] [] True (ends (post E A e4 ?s3) A)"
      "at_stage (d B) (fs B) (Requests (?ip A) (?all A)) [request_message P (?ip A) (c B)] [] [] False (ends (post E A e4 ?s3) B)"
    by auto
  let ?s4 = "post E A e4 ?s3"
  from move_ask [OF net, where i = B, unfolded other.simps, OF s4(2,1) changes(2) need [OF s4(2), unfolded other.simps]] obtain e5 where
    m5: "handler_move (E B) (ends ?s4 B) = Some (Inr e5)"
    and s5: "at_stage (d B) (fs B) (Awaits (?ip A) (cs A)) [request_message P (?ip A) (c B)] [] [] True (ends (post E B e5 ?s4) B)"
      "at_stage (d A) (fs A) (Awaits (?ip B) (cs B)) [request_message P (?ip B) (c A)] [] [] True (ends (post E B e5 ?s4) A)"
    by auto
  let ?t = "post E B e5 ?s4"
  have "(timely_step E)\<^sup>*\<^sup>* s ?s1" using move_in_steps [where E = E and i = A, OF _ m1] by simp
  from move_in_steps [where E = E and i = B, OF this m2] have "(timely_step E)\<^sup>*\<^sup>* s ?s2" .
  from move_in_steps [where E = E and i = A, OF this m3] have "(timely_step E)\<^sup>*\<^sup>* s ?s3" .
  from move_in_steps [where E = E and i = A, OF this m4] have "(timely_step E)\<^sup>*\<^sup>* s ?s4" .
  from move_in_steps [where E = E and i = B, OF this m5] have "(timely_step E)\<^sup>*\<^sup>* s ?t" .
  moreover have "\<forall>i. waits_in_vain (ends ?t i) \<and> pc (ends ?t i) = Awaits (?ip (other i)) (cs (other i))"
    using s5 unfolding all_sides by (simp add: at_stage_def waits_in_vain_def is_awaiting_def)
  ultimately show ?thesis by blast
qed

section \<open>One node stands still\<close>

lemma deliver_keeps:
  "pc (deliver E ip out e) = pc e \<and> dirLocked (host (deliver E ip out e)) = dirLocked (host e) \<and>
   udpPort (host (deliver E ip out e)) = udpPort (host e) \<and> udp (host (deliver E ip out e)) = udp (host e) \<and>
   tcpClient (host (deliver E ip out e)) = tcpClient (host e)"
  by (induction E ip out e rule: deliver.induct) (simp_all split: if_splits)

lemma deliver_no_answer:
  "\<forall>x \<in> set out. snd (snd x) \<noteq> 25565 \<Longrightarrow> negotiation (deliver E ip out e) = negotiation e"
  by (induction E ip out e rule: deliver.induct) (simp_all split: if_splits)

lemma post_pc:
  "pc (ends (post E i e s) j) = (if j = i then pc e else pc (ends s j)) \<and>
   dirLocked (host (ends (post E i e s) j)) = dirLocked (host (if j = i then e else ends s j)) \<and>
   tcpClient (host (ends (post E i e s) j)) = tcpClient (host (if j = i then e else ends s j))"
proof (cases "j = i")
  case False
  then have "j = other i" by (cases i; cases j) simp_all
  then show ?thesis by (simp add: deliver_keeps)
qed simp

text \<open>\<open>receiveFile\<close> on a socket whose \<open>connect\<close> failed: on such a socket, and after further calls
  on it, nothing is ever received.\<close>

definition refuses :: "('s, 'p) tcp_api \<Rightarrow> ('s \<Rightarrow> bool) \<Rightarrow> bool" where
  "refuses T gone \<longleftrightarrow> peer_gone T gone \<and> (\<forall>ip port timeout s. gone (snd (tcp_connect T ip port timeout s)))"

definition stranded :: "('s \<Rightarrow> bool) \<Rightarrow> handler_pc \<Rightarrow> ('s, 'l, 'p) endpoint \<Rightarrow> bool" where
  "stranded gone c e \<longleftrightarrow> (\<exists>path out server fcs. c = Unconnected path out server fcs) \<and> pc e = c \<and>
     dirLocked (host e) \<and> gone (cl_socket (tcpClient (host e)))"

lemma stranded_receives:
  "peer_gone (tcp E) gone \<Longrightarrow> stranded gone c e \<Longrightarrow> Node_receiveFile E out (host e) = None"
  using receive_loop_gone [of "tcp E" gone "tcpClient (host e)"]
  by (simp add: stranded_def Node_receiveFile_def receiveFile_def run_bind_def)

lemma startClient_refused:
  "refuses (tcp E) gone \<Longrightarrow> startClient E ip port n = (ok, n') \<Longrightarrow>
   \<exists>c. n' = n\<lparr>tcpClient := c\<rparr> \<and> gone (cl_socket c)"
  by (auto simp: refuses_def startClient_def Client_connect_def split_def Let_def)

lemma stranded_timely:
  assumes st: "stranded gone c (ends s j)" and "timely_step E s t"
  shows "stranded gone c (ends t j)"
  using assms(2)
proof (cases rule: timely_step.cases)
  case (move i e)
  then have "j \<noteq> i" using st by (auto simp: stranded_def handler_move_def)
  then show ?thesis using move(1) st post_pc [of E i e s j] by (simp add: stranded_def)
next
  case (connect i path out server fcs f)
  then have "j \<noteq> i" "j \<noteq> other i" using st by (auto simp: stranded_def)
  then show ?thesis using connect(1) st by simp
next
  case (sent i bs t)
  then have "j \<noteq> i" using st by (auto simp: stranded_def)
  then show ?thesis using sent(1) st by simp
next
  case (received i path server fcs t)
  then have "j \<noteq> i" using st by (auto simp: stranded_def)
  then show ?thesis using received(1) st by simp
qed (use st in simp)

lemma stranded_net:
  assumes gone: "peer_gone (tcp (E j)) gone" and st: "stranded gone c (ends s j)" and "net_step E s t"
  shows "stranded gone c (ends t j)"
  using assms(3)
proof (cases rule: net_step.cases)
  case timely
  then show ?thesis by (rule stranded_timely [OF st])
next
  case (refused i ip port path out server fcs)
  then have "j \<noteq> i" using st by (auto simp: stranded_def)
  then show ?thesis using refused(1) st by simp
next
  case (returned i path out server fcs out' n)
  then have "j \<noteq> i" using stranded_receives [OF gone st, of out] by auto
  then show ?thesis using returned(1) st by simp
qed

lemma stranded_step:
  assumes gone: "peer_gone (tcp (E j)) gone" and st: "stranded gone c (ends s j)" and "noisy_step E s t"
  shows "stranded gone c (ends t j)"
  using assms(3)
proof (cases rule: noisy_step.cases)
  case normal
  then show ?thesis by (rule stranded_net [where E = E, OF gone st])
next
  case (watcher i n table w)
  then have "j \<noteq> i" using st watcher_waits [of "host (ends s j)"] by (auto simp: stranded_def)
  then show ?thesis using watcher(1) st by simp
qed (use st in \<open>auto simp: stranded_def\<close>)

lemma stranded_for_ever:
  assumes "(noisy_step E)\<^sup>*\<^sup>* s t" "peer_gone (tcp (E j)) gone" "stranded gone c (ends s j)"
  shows "stranded gone c (ends t j)"
  using assms(1) by (induction rule: rtranclp_induct) (use assms(2,3) stranded_step [where E = E] in \<open>simp, blast\<close>)

section \<open>The first request\<close>

text \<open>The first request of a job, up to the answer: five moves.\<close>

lemma sync_first_request:
  fixes E :: "side \<Rightarrow> ('p outbox, 's, 'l, 'p) platform"
  assumes start: "sync_start E P holds J s"
  shows "\<exists>t. (timely_step E)\<^sup>*\<^sup>* s t \<and>
    src_at J Looping [request_message P (localAddress (E B)) (rq_change (requests J ! 0))] t \<and>
    dst_at J (dst_disk J) (Awaits (localAddress (E A)) (drop (Suc 0) (job_changes J))) [] [] True t"
proof -
  let ?ip = "\<lambda>i. localAddress (E i)" and ?r = "requests J ! 0"
  from start have net: "net_ok E P" and laws: "packet_laws P holds" and job: "job_ok J"
    and at: "at_stage (src_dir J) (src_disk J) Looping [] [] (job_changes J) False (ends s A)"
      "at_stage (dst_dir J) (dst_disk J) Looping [] [] [] False (ends s B)"
    by (simp_all add: sync_start_def)
  have lt: "0 < length (requests J)" and ok: "changes_ok (job_changes J)" "job_changes J \<noteq> []"
    using job by (simp_all add: job_ok_def job_changes_def)
  have r: "change (rq_change ?r) \<noteq> Deletion" "filePath (rq_change ?r) = join (rq_names ?r)" "names_ok (rq_names ?r)"
    using job_request(1) [OF job lt] by (simp_all add: request_ok_def)
  from move_announce [OF net, where i = A, unfolded other.simps, OF at(1) ok(2) at(2)] obtain e1 where
    m1: "handler_move (E A) (ends s A) = Some (Inr e1)"
    and s1: "at_stage (src_dir J) (src_disk J) Looping [] [] [] False (ends (post E A e1 s) A)"
      "at_stage (dst_dir J) (dst_disk J) Looping [changes_message P (?ip A) (job_changes J)] [] [] False
         (ends (post E A e1 s) B)"
    by auto
  let ?s1 = "post E A e1 s"
  from move_take_changes [OF net laws ok(1), where i = B, unfolded other.simps, OF s1(2,1)] obtain e2 where
    m2: "handler_move (E B) (ends ?s1 B) = Some (Inr e2)"
    and s2: "at_stage (dst_dir J) (dst_disk J) (Requests (?ip A) (drop 0 (job_changes J))) [] [] [] False
         (ends (post E B e2 ?s1) B)"
      "at_stage (src_dir J) (src_disk J) Looping [] [] [] False (ends (post E B e2 ?s1) A)"
    by auto
  let ?s2 = "post E B e2 ?s1"
  have "already_have (E B) (host (ends ?s2 B)) (rq_change ?r) = Inr False"
    using filled_next [OF filled_0 [OF job] lt] s2(1)
    by (intro already_have_new [OF r(2,3)]) (simp_all add: place_def place_ok_def at_stage_def)
  from move_ask [OF net, where i = B, unfolded other.simps, OF s2(1) [unfolded job_drop [OF lt]] s2(2) r(1) this] obtain e3 where
    m3: "handler_move (E B) (ends ?s2 B) = Some (Inr e3)"
    and s3: "at_stage (dst_dir J) (dst_disk J) (Awaits (?ip A) (drop (Suc 0) (job_changes J))) [] [] [] True
         (ends (post E B e3 ?s2) B)"
      "at_stage (src_dir J) (src_disk J) Looping [request_message P (?ip B) (rq_change ?r)] [] [] False
         (ends (post E B e3 ?s2) A)"
    by auto
  let ?t = "post E B e3 ?s2"
  have "(timely_step E)\<^sup>*\<^sup>* s ?s1" using move_in_steps [where E = E and i = A, OF _ m1] by simp
  from move_in_steps [where E = E and i = B, OF this m2] have "(timely_step E)\<^sup>*\<^sup>* s ?s2" .
  from move_in_steps [where E = E and i = B, OF this m3] have "(timely_step E)\<^sup>*\<^sup>* s ?t" .
  with s3 show ?thesis unfolding src_at_def dst_at_def by blast
qed

lemma sync_first_answer:
  fixes E :: "side \<Rightarrow> ('p outbox, 's, 'l, 'p) platform"
  assumes start: "sync_start E P holds J s"
  shows "\<exists>t file ip port path out server fcs. (timely_step E)\<^sup>*\<^sup>* s t \<and> pc (ends t A) = Prepares file \<and>
    pc (ends t B) = Connects ip port path out server fcs \<and> dirLocked (host (ends t B))"
proof -
  let ?ip = "\<lambda>i. localAddress (E i)" and ?r = "requests J ! 0"
  from start have net: "net_ok E P" and laws: "packet_laws P holds" and job: "job_ok J"
    by (simp_all add: sync_start_def)
  have lt: "0 < length (requests J)" and dir: "dir_path (dst_dir J)" using job by (simp_all add: job_ok_def)
  have r: "change_ok (rq_change ?r)" "filePath (rq_change ?r) = join (rq_names ?r)" "names_ok (rq_names ?r)"
    using job_request(1) [OF job lt] by (simp_all add: request_ok_def)
  from sync_first_request [OF start] obtain t0 where
    t0: "(timely_step E)\<^sup>*\<^sup>* s t0" "src_at J Looping [request_message P (?ip B) (rq_change ?r)] t0"
      "dst_at J (dst_disk J) (Awaits (?ip A) (drop (Suc 0) (job_changes J))) [] [] True t0" by blast
  from move_take_request [OF net laws r, where i = A, unfolded other.simps, OF t0(2) [unfolded src_at_def]
      t0(3) [unfolded dst_at_def] job_request(2) [OF job lt]] obtain e4 where
    m4: "handler_move (E A) (ends t0 A) = Some (Inr e4)"
    and s4: "at_stage (src_dir J) (src_disk J) (Prepares \<lparr>in_rest = rq_content ?r, in_good = True\<rparr>) [] [] [] False
        (ends (post E A e4 t0) A)"
      "at_stage (dst_dir J) (dst_disk J) (Awaits (?ip A) (drop (Suc 0) (job_changes J))) []
        [(packet_arrived P (put_details P False (rq_change ?r) 45016), ?ip A)] [] True (ends (post E A e4 t0) B)"
    by auto
  let ?s4 = "post E A e4 t0"
  from move_take_answer [OF net laws r, where i = B, unfolded other.simps, OF s4(2) dir]
    filled_next(1) [OF filled_0 [OF job] lt] obtain e5 fs2 path where
    m5: "handler_move (E B) (ends ?s4 B) = Some (Inr e5)"
    and s5: "at_stage (dst_dir J) fs2 (Connects (?ip A) 45016 path \<lparr>out_good = True, out_data = []\<rparr> (?ip A) (drop (Suc 0) (job_changes J)))
        [] [(packet_arrived P (put_details P False (rq_change ?r) 45016), ?ip A)] [] True (ends (post E B e5 ?s4) B)"
      "ends (post E B e5 ?s4) A = ends ?s4 A"
    unfolding place_def by blast
  let ?s5 = "post E B e5 ?s4"
  from move_in_steps [where E = E and i = A, OF t0(1) m4] have "(timely_step E)\<^sup>*\<^sup>* s ?s4" .
  from move_in_steps [where E = E and i = B, OF this m5] have "(timely_step E)\<^sup>*\<^sup>* s ?s5" .
  moreover have "pc (ends ?s5 A) = Prepares \<lparr>in_rest = rq_content ?r, in_good = True\<rparr>"
    using s5(2) s4(1) by (simp add: at_stage_def)
  ultimately show ?thesis using s5(1) unfolding at_stage_def by metis
qed

section \<open>A lost datagram\<close>

text \<open>B waits for an answer, and A, with nothing before it, never sends one.\<close>

definition nobody_answers :: "(side \<Rightarrow> ('p outbox, 's, 'l, 'p) platform) \<Rightarrow> ('s, 'l, 'p) network \<Rightarrow> bool" where
  "nobody_answers E s \<longleftrightarrow> waits_in_vain (ends s B) \<and> pc (ends s A) = Looping \<and>
     todoUdp (host (ends s A)) = [] \<and> udp (host (ends s A)) = [] \<and> udpPort (host (ends s A)) = 45773"

lemma nobody_answers_timely:
  assumes net: "net_ok E P" and inv: "nobody_answers E s" and "timely_step E s t"
  shows "nobody_answers E t"
  using assms(3)
proof (cases rule: timely_step.cases)
  case (move i e)
  show ?thesis
  proof (cases i)
    case A
    show ?thesis
    proof (cases "dirLocked (host (ends s A)) \<or> changeBuf (host (ends s A)) = []")
      case True
      then have "flush_changes (E A) (host (ends s A)) = host (ends s A) \<or>
          (\<exists>tb. flush_changes (E A) (host (ends s A)) = (host (ends s A))\<lparr>fileHashes := tb, changeBuf := [], udp := []\<rparr>)"
        using flush_at_stage [OF net, of "host (ends s A)" A] inv
        by (cases "dirLocked (host (ends s A))") (auto simp: nobody_answers_def flush_changes_def)
      with move(2) True inv A show ?thesis by (auto simp: handler_move_def nobody_answers_def)
    next
      case False
      then obtain tb where f: "flush_changes (E A) (host (ends s A)) = (host (ends s A))\<lparr>fileHashes := tb, changeBuf := [],
          udp := [(put_fileChanges P (packet_new P) (changeBuf (host (ends s A))), broadcastAddress (E A), 45773)]\<rparr>"
        using flush_at_stage [OF net, of "host (ends s A)" A] inv by (auto simp: nobody_answers_def)
      with move(2) False inv A have e: "e = (ends s A)\<lparr>host := flush_changes (E A) (host (ends s A))\<rparr>"
        by (simp add: handler_move_def nobody_answers_def)
      have "udp (host e) = [(put_fileChanges P (packet_new P) (changeBuf (host (ends s A))), broadcastAddress (E A), 45773)]"
        using e f by simp
      then have "negotiation (ends t B) = negotiation (ends s B)"
        using move(1) A post_ends(2) [of E A e s] by (simp add: deliver_no_answer del: post_ends)
      moreover have "pc (ends t j) = (if j = A then pc e else pc (ends s j)) \<and>
          dirLocked (host (ends t j)) = dirLocked (host (if j = A then e else ends s j))" for j
        unfolding move(1) A using post_pc [of E A e s j] by (elim conjE, intro conjI)
      from this [of B] have "pc (ends t B) = pc (ends s B)" "dirLocked (host (ends t B)) = dirLocked (host (ends s B))"
        by simp_all
      moreover have "ends t A = e\<lparr>host := (host e)\<lparr>udp := []\<rparr>\<rparr>" using move(1) A by simp
      ultimately show ?thesis using inv e f by (simp add: nobody_answers_def waits_in_vain_def)
    qed
  next
    case B
    with move(2) inv waits_in_vain_move [of "ends s B" "E B"] show ?thesis by (simp add: nobody_answers_def)
  qed
next
  case (connect i path out server fcs f)
  with inv waits_in_vain_pc [of "ends s B"] show ?thesis by (cases i) (simp_all add: nobody_answers_def)
next
  case (sent i bs t)
  with inv waits_in_vain_pc [of "ends s B"] show ?thesis by (cases i) (simp_all add: nobody_answers_def)
next
  case (received i path server fcs t)
  with inv waits_in_vain_pc [of "ends s B"] show ?thesis by (cases i) (simp_all add: nobody_answers_def)
qed (use inv in \<open>simp add: nobody_answers_def\<close>)

lemma nobody_answers_net:
  assumes net: "net_ok E P" and inv: "nobody_answers E s" and "net_step E s t"
  shows "nobody_answers E t"
  using assms(3)
proof (cases rule: net_step.cases)
  case timely
  then show ?thesis by (rule nobody_answers_timely [OF net inv])
next
  case (refused i ip port path out server fcs)
  with inv waits_in_vain_pc [of "ends s B"] show ?thesis by (cases i) (simp_all add: nobody_answers_def)
next
  case (returned i path out server fcs)
  with inv waits_in_vain_pc [of "ends s B"] show ?thesis by (cases i) (simp_all add: nobody_answers_def)
qed

lemma nobody_answers_step:
  assumes net: "net_ok E P" and inv: "nobody_answers E s" and "noisy_step E s t"
  shows "nobody_answers E t"
  using assms(3)
proof (cases rule: noisy_step.cases)
  case normal
  then show ?thesis using nobody_answers_net [OF net inv] by simp
next
  case (lost_message i ms m ms')
  with inv show ?thesis by (cases i) (simp_all add: nobody_answers_def waits_in_vain_def)
next
  case (lost_answer i ms m ms')
  with inv show ?thesis by (cases i) (simp_all add: nobody_answers_def waits_in_vain_def)
next
  case (users i fs)
  with inv show ?thesis by (cases i) (simp_all add: nobody_answers_def waits_in_vain_def)
next
  case (watcher i n table w)
  with inv watcher_waits [of "host (ends s B)"] show ?thesis
    by (cases i) (auto simp: nobody_answers_def waits_in_vain_def lock_dirLock_def unlock_dirLock_def split: if_splits)
qed

lemma nobody_answers_for_ever:
  assumes "(noisy_step E)\<^sup>*\<^sup>* s t" "net_ok E P" "nobody_answers E s"
  shows "nobody_answers E t"
  using assms(1) by (induction rule: rtranclp_induct) (use assms(2,3) nobody_answers_step in \<open>simp, blast\<close>)

end
