(* ===== verification/Threaded_Nodes.thy ===== *)
theory Threaded_Nodes
  imports Two_Node_Hazards Disk_Shape
begin

text \<open>
  Two computers with all their threads. The discover thread, the handler thread and the
  table manager of a computer share its node; each goes from one waiting call to the next, and
  each requests files by the same function. What a computer sends waits in the socket of the
  other one until the discover thread there collects it; datagrams to oneself, which that
  thread drops, are left out, and so are the rounds of the watcher where nothing changes. A connection
  is made once the server listens; what happens before that is in Two\_Node\_Hazards.
\<close>

section \<open>The pieces of the other threads\<close>

text \<open>A datagram the discover thread takes from the socket: what it then requests, and from whom.\<close>

definition collect_piece :: "('u, 's, 'l, 'p) platform \<Rightarrow> 'p \<Rightarrow> IpAddress \<Rightarrow> ('u, 's, 'l, 'p) machine \<Rightarrow>
    ((IpAddress \<times> fileChangeData list) option \<times> ('u, 's, 'l, 'p) machine) result" where
  "collect_piece E packet sender n =
     (if isMyOwn E sender then Inr (None, n)
      else (case getPacketID (packets E) packet of Inl e \<Rightarrow> Inl e
        | Inr pid \<Rightarrow>
            if pid = 0
            then (case (case get_u8 (packets E) packet of Inl e \<Rightarrow> Inl e
                    | Inr (pid, p1) \<Rightarrow> get_hashTable (packets E) p1 []) of Inl e \<Rightarrow> Inl e
                | Inr (foreignHashes, _) \<Rightarrow>
                    (let n1 = snd (respondToArrival E sender n)
                     in Inr (Some (sender, requested_changes (fileHashes n1) foreignHashes True), n1)))
            else Inr (None, n\<lparr>todoUdp := todoUdp n @
              [\<lparr>msg_packet = packet, msg_ip = sender, msg_port = udpPort n\<rparr>]\<rparr>)))"

text \<open>The table the manager finds.\<close>

definition manager_piece :: "('u, 's, 'l, 'p) platform \<Rightarrow> ('u, 's, 'l, 'p) machine \<Rightarrow>
    ((IpAddress \<times> fileChangeData list) \<times> ('u, 's, 'l, 'p) machine) result" where
  "manager_piece E n =
     (case tableManagerMessage n of
        None \<Rightarrow> Inl Null_dereference
      | Some message \<Rightarrow>
          (case (case get_u8 (packets E) (msg_packet message) of Inl e \<Rightarrow> Inl e
                  | Inr (pid, p1) \<Rightarrow> get_hashTable (packets E) p1 []) of Inl e \<Rightarrow> Inl e
           | Inr (table, _) \<Rightarrow>
               Inr ((msg_ip message, requested_changes (fileHashes n) table False),
                 n\<lparr>receivedTable := False, tableManagerMessage := None\<rparr>)))"

lemma collect_in_pieces:
  assumes "Udp_receive (udps E) (udp n) = (True, (packet, sender, sp), u)"
  shows "collect_packet E n =
    run_bind (lift_result (collect_piece E packet sender (n\<lparr>udp := u\<rparr>))) (\<lambda>(r, n1).
      case r of None \<Rightarrow> Some (Inr n1) | Some (server, fileChanges) \<Rightarrow> requestFiles E fileChanges server n1)"
  using assms
  by (simp add: collect_packet_def collect_piece_def dealWithHashTable_def lift_result_def run_bind_def Let_def split_def
      split: sum.splits)

lemma manager_in_pieces:
  "tableManager_round E n =
     (if receivedTable n
      then run_bind (lift_result (manager_piece E n)) (\<lambda>((server, fileChanges), n1). requestFiles E fileChanges server n1)
      else Some (Inr n))"
  by (simp add: tableManager_round_def manager_piece_def dealWithHashTable_def lift_result_def run_bind_def Let_def
      split_def split: sum.splits option.splits)

section \<open>State\<close>

text \<open>\<open>arrived\<close> are the datagrams in the socket of the node, \<open>replies\<close> those in the socket of a
  negotiation, which at most one thread has open, the one that holds \<open>dirLock\<close>; \<open>greeted\<close>
  tells that the discover thread has broadcast the table.\<close>

record ('s, 'l, 'p) computer =
  core :: "('p outbox, 's, 'l, 'p) machine"
  arrived :: "('p \<times> IpAddress) list"
  replies :: "('p \<times> IpAddress) list"
  pcs :: "thread \<Rightarrow> handler_pc"
  greeted :: bool

text \<open>\<open>links s i\<close> is the connection that the server of computer \<open>i\<close> has accepted.\<close>

record ('s, 'l, 'p) lan =
  computers :: "side \<Rightarrow> ('s, 'l, 'p) computer"
  links :: "side \<Rightarrow> 'p transfer option"

definition seen_by :: "thread \<Rightarrow> ('s, 'l, 'p) computer \<Rightarrow> ('s, 'l, 'p) endpoint" where
  "seen_by th c = \<lparr>host = core c, negotiation = replies c, pc = pcs c th\<rparr>"

definition put_back :: "thread \<Rightarrow> ('s, 'l, 'p) endpoint \<Rightarrow> ('s, 'l, 'p) computer \<Rightarrow> ('s, 'l, 'p) computer" where
  "put_back th e c = c\<lparr>core := host e, replies := negotiation e, pcs := (pcs c)(th := pc e)\<rparr>"

section \<open>Steps\<close>

definition discover_move :: "('p outbox, 's, 'l, 'p) platform \<Rightarrow> ('s, 'l, 'p) computer \<Rightarrow>
    ('s, 'l, 'p) computer result option" where
  "discover_move E c =
     (if \<not> greeted c
      then Some (Inr (c\<lparr>core := snd (broadcast E (table_packet (packets E) 0 (fileHashes (core c))) (core c)),
        greeted := True\<rparr>))
      else (case arrived c of
              [] \<Rightarrow> None
            | (packet, sender) # rest \<Rightarrow>
                Some (case collect_piece E packet sender (core c) of Inl x \<Rightarrow> Inl x
                      | Inr (None, n) \<Rightarrow> Inr (c\<lparr>arrived := rest, core := n\<rparr>)
                      | Inr (Some (server, fileChanges), n) \<Rightarrow>
                          Inr (c\<lparr>arrived := rest, core := n, pcs := (pcs c)(Discoverer := Requests server fileChanges)\<rparr>))))"

definition manager_move :: "('p outbox, 's, 'l, 'p) platform \<Rightarrow> ('s, 'l, 'p) computer \<Rightarrow>
    ('s, 'l, 'p) computer result option" where
  "manager_move E c =
     (if receivedTable (core c)
      then Some (case manager_piece E (core c) of Inl x \<Rightarrow> Inl x
             | Inr ((server, fileChanges), n) \<Rightarrow>
                 Inr (c\<lparr>core := n, pcs := (pcs c)(Table_manager := Requests server fileChanges)\<rparr>))
      else None)"

text \<open>Outside of the heads of their loops the threads are where a handler can be, too.\<close>

definition thread_move :: "('p outbox, 's, 'l, 'p) platform \<Rightarrow> thread \<Rightarrow> ('s, 'l, 'p) computer \<Rightarrow>
    ('s, 'l, 'p) computer result option" where
  "thread_move E th c =
     (if th = Directory_watcher then None
      else if th = Discoverer \<and> pcs c th = Looping then discover_move E c
      else if th = Table_manager \<and> pcs c th = Looping then manager_move E c
      else (case handler_move E (seen_by th c) of
              None \<Rightarrow> None
            | Some (Inl x) \<Rightarrow> Some (Inl x)
            | Some (Inr e) \<Rightarrow> Some (Inr (put_back th e c))))"

fun take_in :: "('u, 's, 'l, 'p) platform \<Rightarrow> IpAddress \<Rightarrow> 'p outbox \<Rightarrow> ('s, 'l, 'p) computer \<Rightarrow>
    ('s, 'l, 'p) computer" where
  "take_in E sender [] c = c"
| "take_in E sender ((packet, ip, port) # out) c =
     take_in E sender out
       (if ip \<noteq> localAddress E \<and> ip \<noteq> broadcastAddress E then c
        else if port = udpPort (core c)
        then c\<lparr>arrived := arrived c @ [(packet_arrived (packets E) packet, sender)]\<rparr>
        else if port = 25565 \<and> list_ex (\<lambda>th. is_awaiting (pcs c th)) main_threads
        then c\<lparr>replies := replies c @ [(packet_arrived (packets E) packet, sender)]\<rparr>
        else c)"

definition hand_over :: "(side \<Rightarrow> ('p outbox, 's, 'l, 'p) platform) \<Rightarrow> side \<Rightarrow> ('s, 'l, 'p) computer \<Rightarrow>
    ('s, 'l, 'p) lan \<Rightarrow> ('s, 'l, 'p) lan" where
  "hand_over E i c s =
     s\<lparr>computers := (computers s)
         (i := c\<lparr>core := (core c)\<lparr>udp := []\<rparr>\<rparr>,
          other i := take_in (E (other i)) (localAddress (E i)) (udp (core c)) (computers s (other i)))\<rparr>"

definition set_pc :: "thread \<Rightarrow> handler_pc \<Rightarrow> ('s, 'l, 'p) computer \<Rightarrow> ('s, 'l, 'p) computer" where
  "set_pc th p c = c\<lparr>pcs := (pcs c)(th := p)\<rparr>"

inductive lan_step :: "(side \<Rightarrow> ('p outbox, 's, 'l, 'p) platform) \<Rightarrow> ('s, 'l, 'p) lan \<Rightarrow>
    ('s, 'l, 'p) lan \<Rightarrow> bool" for E where
  thread: "thread_move (E i) th (computers s i) = Some (Inr c) \<Longrightarrow> lan_step E s (hand_over E i c s)"
| connects: "pcs (computers s i) th = Connects (localAddress (E (other i))) 45016 path out server fileChanges \<Longrightarrow>
    pcs (computers s (other i)) Handler = Listens f \<Longrightarrow>
    lan_step E s (s\<lparr>computers := (computers s)
        (i := set_pc th (Receives path server fileChanges) (computers s i),
         other i := set_pc Handler (Sends (in_rest f)) (computers s (other i))),
      links := (links s)(other i := Some (transfer_init f out))\<rparr>)"
| transfers: "links s i = Some t \<Longrightarrow> transfer_step (packets (E A)) t u \<Longrightarrow>
    lan_step E s (s\<lparr>links := (links s)(i := Some u)\<rparr>)"
| sends: "pcs (computers s i) Handler = Sends bs \<Longrightarrow> links s i = Some t \<Longrightarrow> snd_pc t = Sent \<Longrightarrow>
    lan_step E s (s\<lparr>computers := (computers s)(i := set_pc Handler Looping (computers s i))\<rparr>)"
| receives: "pcs (computers s i) th = Receives path server fileChanges \<Longrightarrow> links s (other i) = Some t \<Longrightarrow>
    rcv_pc t = Received \<Longrightarrow>
    lan_step E s (s\<lparr>computers := (computers s)(i := set_pc th (Requests server fileChanges)
      ((computers s i)\<lparr>core := finish_request path (rcv_file t) (core (computers s i))\<rparr>))\<rparr>)"

text \<open>What comes from outside: lost datagrams, changes of users, rounds of the watcher.\<close>

inductive disturbed_step :: "(side \<Rightarrow> ('p outbox, 's, 'l, 'p) platform) \<Rightarrow> ('s, 'l, 'p) lan \<Rightarrow>
    ('s, 'l, 'p) lan \<Rightarrow> bool" for E where
  ordinary: "lan_step E s t \<Longrightarrow> disturbed_step E s t"
| lost: "arrived (computers s i) = ms @ m # ms' \<Longrightarrow>
    disturbed_step E s (s\<lparr>computers := (computers s)(i := (computers s i)\<lparr>arrived := ms @ ms'\<rparr>)\<rparr>)"
| edited: "disturbed_step E s (s\<lparr>computers := (computers s)(i := (computers s i)
    \<lparr>core := (core (computers s i))\<lparr>disk := fs\<rparr>\<rparr>)\<rparr>)"
| watched: "lock_dirLock (core (computers s i)) = Some (Inr n) \<Longrightarrow>
    watch_round (user (E i)) (disk n) (directory n) \<lparr>watchHashes = table, fileChangeBuf = changeBuf n\<rparr> = Inr w \<Longrightarrow>
    disturbed_step E s (s\<lparr>computers := (computers s)(i := (computers s i)
      \<lparr>core := unlock_dirLock (n\<lparr>changeBuf := fileChangeBuf w\<rparr>)\<rparr>)\<rparr>)"

section \<open>Handing datagrams over\<close>

lemma hand_over_computers [simp]:
  "computers (hand_over E i c s) i = c\<lparr>core := (core c)\<lparr>udp := []\<rparr>\<rparr>"
  "computers (hand_over E i c s) (other i) =
     take_in (E (other i)) (localAddress (E i)) (udp (core c)) (computers s (other i))"
  "links (hand_over E i c s) = links s"
  by (simp_all add: hand_over_def)

lemma seen_by_sel [simp]:
  "host (seen_by th c) = core c" "negotiation (seen_by th c) = replies c" "pc (seen_by th c) = pcs c th"
  by (simp_all add: seen_by_def)

lemma put_back_sel [simp]:
  "core (put_back th e c) = host e" "replies (put_back th e c) = negotiation e"
  "pcs (put_back th e c) = (pcs c)(th := pc e)" "arrived (put_back th e c) = arrived c"
  "greeted (put_back th e c) = greeted c"
  by (simp_all add: put_back_def)

lemma take_in_arrive:
  assumes "packets E = P" "ip = localAddress E \<or> ip = broadcastAddress E" "udpPort (core c) = 45773"
  shows "take_in E from [(pk, ip, 45773)] c = c\<lparr>arrived := arrived c @ [(packet_arrived P pk, from)]\<rparr>"
  using assms by auto

lemma take_in_reply:
  assumes "packets E = P" "udpPort (core c) = 45773" "is_awaiting (pcs c th)" "th \<in> set main_threads"
  shows "take_in E from [(pk, localAddress E, 25565)] c = c\<lparr>replies := replies c @ [(packet_arrived P pk, from)]\<rparr>"
  using assms by (auto simp: list_ex_iff)

lemma all_threads: "set main_threads = UNIV"
  by (auto simp: main_threads_def intro: thread.exhaust)

text \<open>A thread that is not at the head of a loop of its own moves as a handler does.\<close>

lemma thread_move_seen:
  assumes "th \<noteq> Directory_watcher" "th = Handler \<or> pcs c th \<noteq> Looping" "handler_move E (seen_by th c) = Some (Inr e)"
  shows "thread_move E th c = Some (Inr (put_back th e c))"
  using assms by (auto simp: thread_move_def)

text \<open>What the moves of the requests leave alone: the tables and the mailbox.\<close>

definition tables_of :: "('u, 's, 'l, 'p) machine \<Rightarrow> hash_table \<times> bool \<times> 'p UdpMessage option" where
  "tables_of n = (fileHashes n, receivedTable n, tableManagerMessage n)"

lemma tables_of_updates [simp]:
  "tables_of (n\<lparr>disk := fs\<rparr>) = tables_of n" "tables_of (n\<lparr>udp := u\<rparr>) = tables_of n"
  "tables_of (n\<lparr>dirLocked := b\<rparr>) = tables_of n" "tables_of (n\<lparr>opened := k\<rparr>) = tables_of n"
  "tables_of (n\<lparr>tcpServer := srv\<rparr>) = tables_of n" "tables_of (n\<lparr>todoUdp := ms\<rparr>) = tables_of n"
  by (simp_all add: tables_of_def)

lemma ask_next_tables: "ask_next E server fc n = Inr (b, n') \<Longrightarrow> tables_of n' = tables_of n"
  by (cases "change fc") (auto simp: ask_next_def unlock_dirLock_def send_udp_def split_def Let_def
      split: sum.splits if_splits)

lemma take_answer_tables: "take_answer E packet n = Inr (r, n') \<Longrightarrow> tables_of n' = tables_of n"
  by (auto simp: take_answer_def Let_def split_def split: sum.splits if_splits)

lemma handler_move_tables:
  assumes "handler_move E e = Some (Inr e')" "pc e \<noteq> Looping"
  shows "tables_of (host e') = tables_of (host e)"
  using assms
  by (auto simp: handler_move_def unlock_dirLock_def startTcpServer_def lock_dirLock_def
      dest!: ask_next_tables take_answer_tables
      split: handler_pc.splits list.splits sum.splits option.splits prod.splits if_splits)

lemma finish_request_tables [simp]: "tables_of (finish_request path f n) = tables_of n"
  by (simp add: finish_request_def unlock_dirLock_def)

end
