(* ===== verification/Threaded_Start.thy ===== *)
theory Threaded_Start
  imports Threaded_Nodes
begin

text \<open>
  Two computers that start at the same time. Each discover thread processes the table of the
  other one itself: it asks for a file and waits for the answer, and as long as it waits
  nobody collects the datagrams of the node, neither the request of the other nor its table.
\<close>

section \<open>A discover thread among idle threads\<close>

definition disc_at :: "wstring \<Rightarrow> fsnode \<Rightarrow> hash_table \<Rightarrow> bool \<Rightarrow> ('p \<times> IpAddress) list \<Rightarrow> handler_pc \<Rightarrow> bool \<Rightarrow>
    ('s, 'l, 'p) computer \<Rightarrow> bool" where
  "disc_at d fs tb g arr dpc lk c \<longleftrightarrow> at_stage d fs dpc [] [] [] lk (seen_by Discoverer c) \<and>
     fileHashes (core c) = tb \<and> greeted c = g \<and> arrived c = arr \<and>
     pcs c = (\<lambda>_. Looping)(Discoverer := dpc) \<and> \<not> receivedTable (core c)"

definition table_arrived :: "'p packet_api \<Rightarrow> u8 \<Rightarrow> hash_table \<Rightarrow> 'p" where
  "table_arrived P pid tb = packet_arrived P (table_packet P pid tb)"

lemma disc_at_arrive:
  assumes "disc_at d fs tb g arr dpc lk c" "packets E = P" "ip = localAddress E \<or> ip = broadcastAddress E"
  shows "disc_at d fs tb g (arr @ [(packet_arrived P pk, from)]) dpc lk (take_in E from [(pk, ip, 45773)] c)"
proof -
  have "udpPort (core c) = 45773" using assms(1) by (simp add: disc_at_def at_stage_def)
  from take_in_arrive [OF assms(2,3) this] show ?thesis
    using assms(1) by (simp add: disc_at_def at_stage_def)
qed

lemma disc_greet:
  assumes net: "net_ok E P" and here: "disc_at d fs tb False arr Looping False (computers s i)"
    and there: "disc_at d' fs' tb' g' arr' dpc' lk' (computers s (other i))"
  shows "\<exists>c. thread_move (E i) Discoverer (computers s i) = Some (Inr c) \<and>
    disc_at d fs tb True arr Looping False (computers (hand_over E i c s) i) \<and>
    disc_at d' fs' tb' g' (arr' @ [(table_arrived P 0 tb, localAddress (E i))]) dpc' lk'
      (computers (hand_over E i c s) (other i))"
proof -
  let ?c = "computers s i"
  let ?c' = "?c\<lparr>core := (core ?c)\<lparr>udp := [(table_packet P 0 tb, broadcastAddress (E i), 45773)]\<rparr>, greeted := True\<rparr>"
  have P: "packets (E i) = P" "udps (E i) = outbox_api P" "packets (E (other i)) = P"
    "broadcastAddress (E i) = broadcastAddress (E (other i))" using net by (simp_all add: net_ok_def)
  have "thread_move (E i) Discoverer ?c = Some (Inr ?c')"
    using here P by (simp add: thread_move_def discover_move_def disc_at_def at_stage_def broadcast_def)
  moreover have "disc_at d fs tb True arr Looping False (computers (hand_over E i ?c' s) i)"
    using here by (simp add: disc_at_def at_stage_def)
  moreover have "disc_at d' fs' tb' g' (arr' @ [(table_arrived P 0 tb, localAddress (E i))]) dpc' lk'
      (computers (hand_over E i ?c' s) (other i))"
    using disc_at_arrive [OF there P(3), of "broadcastAddress (E i)"] P(4) by (simp add: table_arrived_def)
  ultimately show ?thesis by blast
qed

lemma table_arrived_reads:
  assumes "packet_laws P holds" "paths_ok tb" "map_ok tb" "length tb < 65536"
  shows "getPacketID P (table_arrived P pid tb) = Inr pid"
    "\<exists>p1 p2. get_u8 P (table_arrived P pid tb) = Inr (pid, p1) \<and> get_hashTable P p1 [] = Inr (tb, p2)"
  using packet_laws.packet_id [OF assms(1), of pid "table_fields tb"] table_fields_ok [OF assms(2)]
    packet_laws.table_packet_arrives [OF assms(1-3), of pid] assms(4)
  by (simp_all add: table_arrived_def table_packet_fields)

lemma collect_greeting:
  assumes net: "net_ok E P" and laws: "packet_laws P holds" and tbx: "paths_ok tbx" "map_ok tbx" "length tbx < 65536"
    and other: "\<not> isMyOwn (E i) sender" and port: "udp n = []" "udpPort n = 45773"
  shows "collect_piece (E i) (table_arrived P 0 tbx) sender n =
    Inr (Some (sender, requested_changes (fileHashes n) tbx True),
      n\<lparr>udp := [(table_packet P 1 (fileHashes n), sender, 45773)]\<rparr>)"
proof -
  have "packets (E i) = P" "udps (E i) = outbox_api P" using net by (simp_all add: net_ok_def)
  then show ?thesis
    using other port table_arrived_reads [OF laws tbx, of 0]
    by (auto simp: collect_piece_def respondToArrival_def)
qed

lemma disc_collect:
  assumes net: "net_ok E P" and laws: "packet_laws P holds" and tbx: "paths_ok tbx" "map_ok tbx" "length tbx < 65536"
    and other: "\<not> isMyOwn (E i) (localAddress (E (other i)))"
    and here: "disc_at d fs tb True ((table_arrived P 0 tbx, localAddress (E (other i))) # arr) Looping False (computers s i)"
    and there: "disc_at d' fs' tb' g' arr' dpc' lk' (computers s (other i))"
  shows "\<exists>c. thread_move (E i) Discoverer (computers s i) = Some (Inr c) \<and>
    disc_at d fs tb True arr (Requests (localAddress (E (other i))) (requested_changes tb tbx True)) False
      (computers (hand_over E i c s) i) \<and>
    disc_at d' fs' tb' g' (arr' @ [(table_arrived P 1 tb, localAddress (E i))]) dpc' lk'
      (computers (hand_over E i c s) (other i))"
proof -
  let ?c = "computers s i" and ?ip = "localAddress (E (other i))"
  let ?c' = "?c\<lparr>arrived := arr, core := (core ?c)\<lparr>udp := [(table_packet P 1 tb, ?ip, 45773)]\<rparr>,
      pcs := (pcs ?c)(Discoverer := Requests ?ip (requested_changes tb tbx True))\<rparr>"
  have P: "packets (E (other i)) = P" using net by (simp add: net_ok_def)
  have "thread_move (E i) Discoverer ?c = Some (Inr ?c')"
    using here collect_greeting [OF net laws tbx other, of "core ?c"]
    by (simp add: thread_move_def discover_move_def disc_at_def at_stage_def)
  moreover have "disc_at d fs tb True arr (Requests ?ip (requested_changes tb tbx True)) False
      (computers (hand_over E i ?c' s) i)"
    using here by (simp add: disc_at_def at_stage_def)
  moreover have "disc_at d' fs' tb' g' (arr' @ [(table_arrived P 1 tb, localAddress (E i))]) dpc' lk'
      (computers (hand_over E i ?c' s) (other i))"
    using disc_at_arrive [OF there P, of ?ip] by (simp add: table_arrived_def)
  ultimately show ?thesis by blast
qed

text \<open>The request reaches the socket of the other node.\<close>

definition request_arrived :: "'p packet_api \<Rightarrow> fileChangeData \<Rightarrow> 'p" where
  "request_arrived P fc = packet_arrived P (put_request P fc 25565)"

lemma disc_ask:
  assumes net: "net_ok E P"
    and here: "disc_at d fs tb True arr (Requests (localAddress (E (other i))) (fc # fcs)) False (computers s i)"
    and there: "disc_at d' fs' tb' g' arr' dpc' lk' (computers s (other i))"
    and need: "change fc \<noteq> Deletion" "already_have (E i) (core (computers s i)) fc = Inr False"
  shows "\<exists>c. thread_move (E i) Discoverer (computers s i) = Some (Inr c) \<and>
    disc_at d fs tb True arr (Awaits (localAddress (E (other i))) fcs) True (computers (hand_over E i c s) i) \<and>
    disc_at d' fs' tb' g' (arr' @ [(request_arrived P fc, localAddress (E i))]) dpc' lk'
      (computers (hand_over E i c s) (other i))"
proof -
  let ?c = "computers s i" and ?ip = "localAddress (E (other i))"
  have P: "packets (E (other i)) = P" using net by (simp add: net_ok_def)
  have at: "at_stage d fs (Requests ?ip (fc # fcs)) [] [] [] False (seen_by Discoverer ?c)"
    using here by (simp add: disc_at_def)
  from local_ask [OF net at need(1)] need(2) obtain e where e: "handler_move (E i) (seen_by Discoverer ?c) = Some (Inr e)"
    "at_stage d fs (Awaits ?ip fcs) [] [] [] True (sent_off e)" "udp (host e) = [(put_request P fc 25565, ?ip, 45773)]"
    by auto
  have pc: "pcs ?c Discoverer \<noteq> Looping" using at by (simp add: at_stage_def)
  have "tables_of (host e) = tables_of (core ?c)" using handler_move_tables [OF e(1)] pc by simp
  moreover have "thread_move (E i) Discoverer ?c = Some (Inr (put_back Discoverer e ?c))"
    using thread_move_seen [OF _ _ e(1)] pc by simp
  moreover have "disc_at d' fs' tb' g' (arr' @ [(request_arrived P fc, localAddress (E i))]) dpc' lk'
      (computers (hand_over E i (put_back Discoverer e ?c) s) (other i))"
    using disc_at_arrive [OF there P, of ?ip] e(3) by (simp add: request_arrived_def)
  ultimately show ?thesis
    using here e(2) by (intro exI [of _ "put_back Discoverer e ?c"])
      (simp add: disc_at_def at_stage_def sent_off_def tables_of_def)
qed

section \<open>Nobody collects\<close>

definition nobody_collects :: "('s, 'l, 'p) computer \<Rightarrow> bool" where
  "nobody_collects c \<longleftrightarrow> is_awaiting (pcs c Discoverer) \<and> replies c = [] \<and> dirLocked (core c) \<and>
     todoUdp (core c) = [] \<and> \<not> receivedTable (core c) \<and> (\<forall>th. th \<noteq> Discoverer \<longrightarrow> pcs c th = Looping)"

lemma nobody_moves: "nobody_collects c \<Longrightarrow> thread_move E th c = None"
  by (cases th)
    (auto simp: nobody_collects_def thread_move_def manager_move_def handler_move_def is_awaiting_def flush_changes_def
      split: handler_pc.splits)

lemma nobody_pc: "nobody_collects c \<Longrightarrow> is_awaiting (pcs c th) \<or> pcs c th = Looping"
  by (cases "th = Discoverer") (auto simp: nobody_collects_def)

lemma nobody_at:
  assumes "nobody_collects c"
  shows "pcs c th \<noteq> Connects ip port path out server fcs" "pcs c th \<noteq> Sends bs" "pcs c th \<noteq> Receives path server fcs"
  using nobody_pc [OF assms, of th] by (auto simp: is_awaiting_def)

lemma nobody_lan_step:
  assumes inv: "\<forall>i. nobody_collects (computers s i)" and "lan_step E s t"
  shows "computers t = computers s"
  using assms(2)
proof (cases rule: lan_step.cases)
  case (thread i th c)
  then show ?thesis using nobody_moves [OF inv [rule_format]] by simp
next
  case (connects i th path out server fcs f)
  then show ?thesis using nobody_at(1) [OF inv [rule_format]] by simp
next
  case (sends i bs t)
  then show ?thesis using nobody_at(2) [OF inv [rule_format]] by simp
next
  case (receives i th path server fcs t)
  then show ?thesis using nobody_at(3) [OF inv [rule_format]] by simp
qed simp

lemma nobody_disturbed_step:
  assumes inv: "\<forall>i. nobody_collects (computers s i)" and "disturbed_step E s t"
  shows "(\<forall>i. nobody_collects (computers t i)) \<and> (\<forall>i. pcs (computers t i) = pcs (computers s i))"
  using assms(2)
proof (cases rule: disturbed_step.cases)
  case ordinary
  then show ?thesis using nobody_lan_step [OF inv] inv by simp
next
  case (watched i n table w)
  then show ?thesis using inv [rule_format, of i] watcher_waits [of "core (computers s i)"] by (simp add: nobody_collects_def)
qed (use inv in \<open>simp_all add: nobody_collects_def\<close>)

lemma nobody_for_ever:
  assumes "(disturbed_step E)\<^sup>*\<^sup>* s t" "\<forall>i. nobody_collects (computers s i)"
  shows "(\<forall>i. nobody_collects (computers t i)) \<and> (\<forall>i. pcs (computers t i) = pcs (computers s i))"
  using assms(1) by (induction rule: rtranclp_induct) (use assms(2) nobody_disturbed_step in \<open>simp, metis\<close>)

section \<open>The way there\<close>

lemma thread_in_steps:
  assumes "(lan_step E)\<^sup>*\<^sup>* s t" "thread_move (E i) th (computers t i) = Some (Inr c)"
  shows "(lan_step E)\<^sup>*\<^sup>* s (hand_over E i c t)"
  using assms thread by (metis rtranclp.rtrancl_into_rtrancl)

text \<open>A computer whose threads have just been started, with its table.\<close>

definition just_started :: "wstring \<Rightarrow> fsnode \<Rightarrow> hash_table \<Rightarrow> ('s, 'l, 'p) computer \<Rightarrow> bool" where
  "just_started d fs tb c \<longleftrightarrow> disc_at d fs tb False [] Looping False c \<and> paths_ok tb \<and> map_ok tb \<and> length tb < 65536"

text \<open>The discover threads of both computers at the same place of their loops.\<close>

definition discs_at :: "(side \<Rightarrow> wstring) \<Rightarrow> (side \<Rightarrow> fsnode) \<Rightarrow> (side \<Rightarrow> hash_table) \<Rightarrow> bool \<Rightarrow>
    (side \<Rightarrow> ('p \<times> IpAddress) list) \<Rightarrow> (side \<Rightarrow> handler_pc) \<Rightarrow> bool \<Rightarrow> ('s, 'l, 'p) lan \<Rightarrow> bool" where
  "discs_at d fs tb g arr dpc lk s \<longleftrightarrow> (\<forall>i. disc_at (d i) (fs i) (tb i) g (arr i) (dpc i) lk (computers s i))"

lemma discs_at_both:
  "discs_at d fs tb g arr dpc lk s \<longleftrightarrow> disc_at (d A) (fs A) (tb A) g (arr A) (dpc A) lk (computers s A) \<and>
     disc_at (d B) (fs B) (tb B) g (arr B) (dpc B) lk (computers s B)"
  by (simp add: discs_at_def all_sides)

lemma two_threads:
  assumes "thread_move (E A) th (computers s A) = Some (Inr c)"
    "thread_move (E B) th' (computers (hand_over E A c s) B) = Some (Inr c')"
  shows "(lan_step E)\<^sup>*\<^sup>* s (hand_over E B c' (hand_over E A c s))"
  by (rule thread_in_steps [where E = E and i = B, OF thread_in_steps [where E = E and i = A, OF rtranclp.rtrancl_refl assms(1)]
      assms(2)])

lemma both_greet:
  assumes net: "net_ok E P" and s: "discs_at d fs tb False (\<lambda>_. []) (\<lambda>_. Looping) False s"
  shows "\<exists>t. (lan_step E)\<^sup>*\<^sup>* s t \<and> discs_at d fs tb True
    (\<lambda>i. [(table_arrived P 0 (tb (other i)), localAddress (E (other i)))]) (\<lambda>_. Looping) False t"
proof -
  note here = s [unfolded discs_at_both]
  from disc_greet [OF net, where i = A, unfolded other.simps, OF conjunct1 [OF here] conjunct2 [OF here]] obtain c where
    c: "thread_move (E A) Discoverer (computers s A) = Some (Inr c)"
    "disc_at (d A) (fs A) (tb A) True [] Looping False (computers (hand_over E A c s) A)"
    "disc_at (d B) (fs B) (tb B) False [(table_arrived P 0 (tb A), localAddress (E A))] Looping False
       (computers (hand_over E A c s) B)" by auto
  from disc_greet [OF net, where i = B, unfolded other.simps, OF c(3,2)] obtain c' where
    "thread_move (E B) Discoverer (computers (hand_over E A c s) B) = Some (Inr c')"
    "discs_at d fs tb True (\<lambda>i. [(table_arrived P 0 (tb (other i)), localAddress (E (other i)))]) (\<lambda>_. Looping) False
       (hand_over E B c' (hand_over E A c s))" unfolding discs_at_both by auto
  with two_threads [OF c(1) this(1)] show ?thesis by blast
qed

text \<open>The second of the two to answer finds the answer of the first behind the greeting.\<close>

lemma both_collect:
  assumes net: "net_ok E P" and laws: "packet_laws P holds" and own: "\<And>i. \<not> isMyOwn (E i) (localAddress (E (other i)))"
    and tb: "\<And>i. paths_ok (tb i)" "\<And>i. map_ok (tb i)" "\<And>i. length (tb i) < 65536"
    and s: "discs_at d fs tb True (\<lambda>i. [(table_arrived P 0 (tb (other i)), localAddress (E (other i)))]) (\<lambda>_. Looping) False s"
  shows "\<exists>t. (lan_step E)\<^sup>*\<^sup>* s t \<and> discs_at d fs tb True
    (\<lambda>i. [(table_arrived P 1 (tb (other i)), localAddress (E (other i)))])
    (\<lambda>i. Requests (localAddress (E (other i))) (requested_changes (tb i) (tb (other i)) True)) False t"
proof -
  note here = s [unfolded discs_at_both other.simps] and collect = disc_collect [OF net laws tb own]
  from collect [where i = A, unfolded other.simps, OF conjunct1 [OF here] conjunct2 [OF here]] obtain c where
    c: "thread_move (E A) Discoverer (computers s A) = Some (Inr c)"
    "disc_at (d A) (fs A) (tb A) True [] (Requests (localAddress (E B)) (requested_changes (tb A) (tb B) True)) False
       (computers (hand_over E A c s) A)"
    "disc_at (d B) (fs B) (tb B) True [(table_arrived P 0 (tb A), localAddress (E A)), (table_arrived P 1 (tb A), localAddress (E A))]
       Looping False (computers (hand_over E A c s) B)" by auto
  from collect [where i = B, unfolded other.simps, OF c(3,2)] obtain c' where
    c': "thread_move (E B) Discoverer (computers (hand_over E A c s) B) = Some (Inr c')"
    "discs_at d fs tb True (\<lambda>i. [(table_arrived P 1 (tb (other i)), localAddress (E (other i)))])
       (\<lambda>i. Requests (localAddress (E (other i))) (requested_changes (tb i) (tb (other i)) True)) False
       (hand_over E B c' (hand_over E A c s))" unfolding discs_at_both by auto
  with two_threads [OF c(1) c'(1)] show ?thesis by blast
qed

lemma both_ask:
  assumes net: "net_ok E P" and fc: "\<And>i. change (fc i) \<noteq> Deletion"
    and missing: "\<And>i c arr dpc lk. disc_at (d i) (fs i) (tb i) True arr dpc lk c \<Longrightarrow>
      already_have (E i) (core c) (fc i) = Inr False"
    and s: "discs_at d fs tb True arr (\<lambda>i. Requests (localAddress (E (other i))) (fc i # fcs i)) False s"
  shows "\<exists>t arr'. (lan_step E)\<^sup>*\<^sup>* s t \<and> discs_at d fs tb True arr' (\<lambda>i. Awaits (localAddress (E (other i))) (fcs i)) True t"
proof -
  note here = s [unfolded discs_at_both other.simps]
  from disc_ask [OF net, where i = A, unfolded other.simps, OF conjunct1 [OF here] conjunct2 [OF here] fc
      missing [OF conjunct1 [OF here]]] obtain c arrB where
    c: "thread_move (E A) Discoverer (computers s A) = Some (Inr c)"
    "disc_at (d A) (fs A) (tb A) True (arr A) (Awaits (localAddress (E B)) (fcs A)) True (computers (hand_over E A c s) A)"
    "disc_at (d B) (fs B) (tb B) True arrB (Requests (localAddress (E A)) (fc B # fcs B)) False
       (computers (hand_over E A c s) B)" by blast
  from disc_ask [OF net, where i = B, unfolded other.simps, OF c(3,2) fc missing [OF c(3)]] obtain c' arrA where
    c': "thread_move (E B) Discoverer (computers (hand_over E A c s) B) = Some (Inr c')"
    "disc_at (d B) (fs B) (tb B) True arrB (Awaits (localAddress (E A)) (fcs B)) True
       (computers (hand_over E B c' (hand_over E A c s)) B)"
    "disc_at (d A) (fs A) (tb A) True arrA (Awaits (localAddress (E B)) (fcs A)) True
       (computers (hand_over E B c' (hand_over E A c s)) A)" by blast
  have "discs_at d fs tb True (\<lambda>i. case i of A \<Rightarrow> arrA | B \<Rightarrow> arrB) (\<lambda>i. Awaits (localAddress (E (other i))) (fcs i)) True
      (hand_over E B c' (hand_over E A c s))" unfolding discs_at_both using c'(2,3) by simp
  with two_threads [OF c(1) c'(1)] show ?thesis by blast
qed

lemma both_discoverers_ask:
  fixes E :: "side \<Rightarrow> ('p outbox, 's, 'l, 'p) platform"
  assumes net: "net_ok E P" and laws: "packet_laws P holds"
    and own: "\<And>i. \<not> isMyOwn (E i) (localAddress (E (other i)))"
    and start: "\<And>i. just_started (d i) (fs i) (tb i) (computers s i)"
    and wanted: "\<And>i. requested_changes (tb i) (tb (other i)) True = fc i # fcs i" "\<And>i. change (fc i) \<noteq> Deletion"
    and missing: "\<And>i. already_have (E i) (core (computers s i)) (fc i) = Inr False"
  shows "\<exists>t. (lan_step E)\<^sup>*\<^sup>* s t \<and> (\<forall>i. nobody_collects (computers t i) \<and>
    pcs (computers t i) Discoverer = Awaits (localAddress (E (other i))) (fcs i))"
proof -
  have tb: "paths_ok (tb i)" "map_ok (tb i)" "length (tb i) < 65536"
    and st: "disc_at (d i) (fs i) (tb i) False [] Looping False (computers s i)" for i
    using start by (simp_all add: just_started_def)
  have need: "already_have (E i) (core c) (fc i) = Inr False"
    if "disc_at (d i) (fs i) (tb i) True arr dpc lk c" for i arr dpc lk and c :: "('s, 'l, 'p) computer"
    using that st [of i] missing [of i] already_have_cong [of "core c" "core (computers s i)"]
    by (simp add: disc_at_def at_stage_def)
  from st have "discs_at d fs tb False (\<lambda>_. []) (\<lambda>_. Looping) False s" by (simp add: discs_at_def)
  from both_greet [OF net this] obtain t1 where t1: "(lan_step E)\<^sup>*\<^sup>* s t1"
    "discs_at d fs tb True (\<lambda>i. [(table_arrived P 0 (tb (other i)), localAddress (E (other i)))]) (\<lambda>_. Looping) False t1"
    by blast
  from both_collect [OF net laws own tb t1(2)] obtain t2 where t2: "(lan_step E)\<^sup>*\<^sup>* t1 t2"
    "discs_at d fs tb True (\<lambda>i. [(table_arrived P 1 (tb (other i)), localAddress (E (other i)))])
       (\<lambda>i. Requests (localAddress (E (other i))) (fc i # fcs i)) False t2" unfolding wanted(1) by blast
  have "\<exists>t arr. (lan_step E)\<^sup>*\<^sup>* t2 t \<and> discs_at d fs tb True arr (\<lambda>i. Awaits (localAddress (E (other i))) (fcs i)) True t"
    by (rule both_ask [OF net wanted(2) _ t2(2)]) (rule need)
  then obtain t arr where t: "(lan_step E)\<^sup>*\<^sup>* t2 t"
    "discs_at d fs tb True arr (\<lambda>i. Awaits (localAddress (E (other i))) (fcs i)) True t" by blast
  have "nobody_collects (computers t i) \<and> pcs (computers t i) Discoverer = Awaits (localAddress (E (other i))) (fcs i)" for i
    using t(2) by (simp add: discs_at_def disc_at_def at_stage_def nobody_collects_def is_awaiting_def)
  with t1(1) t2(1) t(1) show ?thesis by (meson rtranclp_trans)
qed

end
