(* ===== verification/Threaded_Sync.thy ===== *)
theory Threaded_Sync
  imports Threaded_Start
begin

text \<open>
  A newcomer B meets a running node A, both with all their threads. From the point where B
  requests the files the two computers refine the two nodes of Two\_Nodes: the handler of A and
  the table manager of B are its handlers, and the discover thread of A, which only moves
  datagrams from the socket to the queue, is invisible.
\<close>

section \<open>The abstraction\<close>

definition message_of :: "'p \<times> IpAddress \<Rightarrow> 'p UdpMessage" where
  "message_of m = \<lparr>msg_packet = fst m, msg_ip = snd m, msg_port = 45773\<rparr>"

text \<open>What is in the socket counts as queued.\<close>

definition abs_end :: "thread \<Rightarrow> ('s, 'l, 'p) computer \<Rightarrow> ('s, 'l, 'p) endpoint" where
  "abs_end th c =
     \<lparr>host = (core c)\<lparr>todoUdp := todoUdp (core c) @ map message_of (arrived c)\<rparr>, negotiation = replies c, pc = pcs c th\<rparr>"

definition role :: "side \<Rightarrow> thread" where
  "role i = (case i of A \<Rightarrow> Handler | B \<Rightarrow> Table_manager)"

definition abs_net :: "('s, 'l, 'p) lan \<Rightarrow> ('s, 'l, 'p) network" where
  "abs_net s = \<lparr>ends = (\<lambda>i. abs_end (role i) (computers s i)), link = links s A\<rparr>"

lemma role_simps [simp]: "role A = Handler" "role B = Table_manager"
  by (simp_all add: role_def)

lemma abs_end_sel [simp]:
  "host (abs_end th c) = (core c)\<lparr>todoUdp := todoUdp (core c) @ map message_of (arrived c)\<rparr>"
  "negotiation (abs_end th c) = replies c" "pc (abs_end th c) = pcs c th"
  by (simp_all add: abs_end_def)

lemma abs_net_sel [simp]: "ends (abs_net s) i = abs_end (role i) (computers s i)" "link (abs_net s) = links s A"
  by (simp_all add: abs_net_def)

lemma abs_end_seen: "arrived c = [] \<Longrightarrow> abs_end th c = seen_by th c"
  by (simp add: abs_end_def seen_by_def)

lemma take_in_one:
  assumes port: "udpPort (core c) = 45773" and waits: "\<forall>th'. is_awaiting (pcs c th') \<longrightarrow> th' = th"
  shows "\<exists>c'. take_in E from ((packet, ip, prt) # out) c = take_in E from out c' \<and>
    deliver E from ((packet, ip, prt) # out) (abs_end th c) = deliver E from out (abs_end th c') \<and>
    udpPort (core c') = 45773 \<and> pcs c' = pcs c"
proof -
  have ex: "list_ex (\<lambda>th'. is_awaiting (pcs c th')) main_threads \<longleftrightarrow> is_awaiting (pcs c th)"
    using waits by (auto simp: list_ex_iff all_threads)
  let ?m = "(packet_arrived (packets E) packet, from)"
  consider (lost) "ip \<noteq> localAddress E \<and> ip \<noteq> broadcastAddress E \<or> prt \<noteq> 45773 \<and> \<not> (prt = 25565 \<and> is_awaiting (pcs c th))"
    | (socket) "ip = localAddress E \<or> ip = broadcastAddress E" "prt = 45773"
    | (reply) "ip = localAddress E \<or> ip = broadcastAddress E" "prt = 25565" "is_awaiting (pcs c th)" by blast
  then show ?thesis
  proof cases
    case lost
    then show ?thesis using port by (intro exI [of _ c]) (auto simp: ex)
  next
    case socket
    have "(abs_end th c)\<lparr>host := (host (abs_end th c))\<lparr>todoUdp := todoUdp (host (abs_end th c)) @
        [\<lparr>msg_packet = fst ?m, msg_ip = snd ?m, msg_port = 45773\<rparr>]\<rparr>\<rparr> = abs_end th (c\<lparr>arrived := arrived c @ [?m]\<rparr>)"
      by (simp add: abs_end_def message_of_def)
    with socket port show ?thesis by (intro exI [of _ "c\<lparr>arrived := arrived c @ [?m]\<rparr>"]) auto
  next
    case reply
    have r: "(abs_end th c)\<lparr>negotiation := replies c @ [?m]\<rparr> = abs_end th (c\<lparr>replies := replies c @ [?m]\<rparr>)"
      by (simp add: abs_end_def)
    from reply port show ?thesis by (intro exI [of _ "c\<lparr>replies := replies c @ [?m]\<rparr>"]) (auto simp: ex r)
  qed
qed

lemma abs_end_take_in:
  "udpPort (core c) = 45773 \<Longrightarrow> \<forall>th'. is_awaiting (pcs c th') \<longrightarrow> th' = th \<Longrightarrow>
   abs_end th (take_in E from out c) = deliver E from out (abs_end th c)"
proof (induction out arbitrary: c)
  case (Cons x out)
  obtain packet ip prt where x: "x = (packet, ip, prt)" by (cases x)
  from take_in_one [OF Cons.prems, of E "from" packet ip prt out] Cons.IH Cons.prems(2) show ?case
    unfolding x by metis
qed simp

lemma take_in_keeps:
  "core (take_in E from out c) = core c \<and> pcs (take_in E from out c) = pcs c \<and>
   greeted (take_in E from out c) = greeted c"
  by (induction E "from" out c rule: take_in.induct) (simp_all split: if_splits)

text \<open>The other threads while B fetches. The discover thread of A may still have to find that it
  wants nothing of B.\<close>

definition bystanders :: "(side \<Rightarrow> ('p outbox, 's, 'l, 'p) platform) \<Rightarrow> ('s, 'l, 'p) lan \<Rightarrow> bool" where
  "bystanders E s \<longleftrightarrow> links s B = None \<and> (\<forall>i. greeted (computers s i) \<and> \<not> receivedTable (core (computers s i)) \<and>
     (\<forall>th. th \<noteq> role i \<longrightarrow> pcs (computers s i) th = Looping \<or>
        i = A \<and> th = Discoverer \<and> pcs (computers s i) th = Requests (localAddress (E B)) []))"

definition pending :: "('s, 'l, 'p) lan \<Rightarrow> nat" where
  "pending s = length (arrived (computers s A)) + (if pcs (computers s A) Discoverer = Looping then 0 else 1)"

lemma bystander_pc:
  assumes "bystanders E s" "th \<noteq> role i"
  shows "\<not> is_awaiting (pcs (computers s i) th)" "pcs (computers s i) th \<noteq> Connects ip port path out server fcs"
    "pcs (computers s i) th \<noteq> Sends bs" "pcs (computers s i) th \<noteq> Receives path server fcs"
    "pcs (computers s i) th \<noteq> Listens f"
proof -
  have "pcs (computers s i) th = Looping \<or> (\<exists>ip. pcs (computers s i) th = Requests ip [])"
    using assms unfolding bystanders_def by blast
  then show "\<not> is_awaiting (pcs (computers s i) th)" "pcs (computers s i) th \<noteq> Connects ip port path out server fcs"
    "pcs (computers s i) th \<noteq> Sends bs" "pcs (computers s i) th \<noteq> Receives path server fcs"
    "pcs (computers s i) th \<noteq> Listens f" by (auto simp: is_awaiting_def)
qed

lemma bystanders_discoverer:
  assumes "bystanders E s"
  shows "greeted (computers s A)"
    "pcs (computers s A) Discoverer = Looping \<or> pcs (computers s A) Discoverer = Requests (localAddress (E B)) []"
  using assms unfolding bystanders_def by (metis role_simps(1) thread.distinct(1))+

section \<open>What a state of fetching looks like\<close>

lemma fetch_phase_ends:
  assumes "fetch_phase E P holds J s"
  shows "\<exists>c ms. src_at J c ms s \<and> (ms = [] \<or> (c = Looping \<or> (\<exists>bs. c = Sends bs)) \<and>
      (\<exists>k < length (requests J). ms = [request_message P (localAddress (E B)) (rq_change (requests J ! k))]))"
    "\<exists>fs c ng lk. dst_at J fs c [] ng lk s \<and> (c = Looping \<longrightarrow> \<not> lk)"
  using assms by (cases rule: fetch_phase.cases;
    fastforce simp: src_free_def src_serves_def src_moves_def)+

text \<open>The parts of the computers that the phases of fetching determine.\<close>

lemma fetching_computers:
  assumes "fetch_phase E P holds J (abs_net s)"
  shows "udpPort (core (computers s i)) = 45773" "udp (core (computers s i)) = []" "changeBuf (core (computers s i)) = []"
    "arrived (computers s B) = []" "todoUdp (core (computers s B)) = []" "\<not> dirLocked (core (computers s A))"
    "todoUdp (core (computers s A)) @ map message_of (arrived (computers s A)) = [] \<or>
     (pcs (computers s A) Handler = Looping \<or> (\<exists>bs. pcs (computers s A) Handler = Sends bs)) \<and>
     (\<exists>k < length (requests J). todoUdp (core (computers s A)) @ map message_of (arrived (computers s A)) =
       [request_message P (localAddress (E B)) (rq_change (requests J ! k))])"
proof -
  from fetch_phase_ends [OF assms] obtain c ms fs c' ng lk where
    src: "src_at J c ms (abs_net s)"
      "ms = [] \<or> (c = Looping \<or> (\<exists>bs. c = Sends bs)) \<and>
        (\<exists>k < length (requests J). ms = [request_message P (localAddress (E B)) (rq_change (requests J ! k))])"
    and dst: "dst_at J fs c' [] ng lk (abs_net s)" by blast
  show "udpPort (core (computers s i)) = 45773" "udp (core (computers s i)) = []" "changeBuf (core (computers s i)) = []"
    using src(1) dst by (cases i; simp add: src_at_def dst_at_def at_stage_def)+
  show "arrived (computers s B) = []" "todoUdp (core (computers s B)) = []" "\<not> dirLocked (core (computers s A))"
    using src(1) dst by (simp_all add: src_at_def dst_at_def at_stage_def)
  show "todoUdp (core (computers s A)) @ map message_of (arrived (computers s A)) = [] \<or>
     (pcs (computers s A) Handler = Looping \<or> (\<exists>bs. pcs (computers s A) Handler = Sends bs)) \<and>
     (\<exists>k < length (requests J). todoUdp (core (computers s A)) @ map message_of (arrived (computers s A)) =
       [request_message P (localAddress (E B)) (rq_change (requests J ! k))])"
    using src by (simp add: src_at_def at_stage_def)
qed

section \<open>Threads that cannot move\<close>

lemma idle_handler:
  "pcs c Handler = Looping \<Longrightarrow> todoUdp (core c) = [] \<Longrightarrow> changeBuf (core c) = [] \<Longrightarrow> thread_move E Handler c = None"
  by (simp add: thread_move_def handler_move_def flush_idle)

lemma idle_manager: "pcs c Table_manager = Looping \<Longrightarrow> \<not> receivedTable (core c) \<Longrightarrow> thread_move E Table_manager c = None"
  by (simp add: thread_move_def manager_move_def)

lemma idle_discoverer: "pcs c Discoverer = Looping \<Longrightarrow> greeted c \<Longrightarrow> arrived c = [] \<Longrightarrow> thread_move E Discoverer c = None"
  by (simp add: thread_move_def discover_move_def)

lemma watcher_rests: "thread_move E Directory_watcher c = None"
  by (simp add: thread_move_def)

text \<open>The discover thread of A when it is done with the greeting.\<close>

lemma discoverer_done:
  assumes "pcs c Discoverer = Requests ip []" "thread_move E Discoverer c = Some (Inr c')"
  shows "c' = c\<lparr>pcs := (pcs c)(Discoverer := Looping)\<rparr>"
  using assms by (auto simp: thread_move_def handler_move_def seen_by_def put_back_def)

lemma discoverer_can_finish: "pcs c Discoverer = Requests ip [] \<Longrightarrow> \<exists>c'. thread_move E Discoverer c = Some (Inr c')"
  by (simp add: thread_move_def handler_move_def)

section \<open>The discover thread of A is invisible\<close>

lemma request_not_greeting:
  assumes "packet_laws P holds" "change_ok fc"
  shows "getPacketID P (request_arrived P fc) = Inr 5"
  using request_message_decodes(1) [OF assms] by (simp add: request_message_def request_arrived_def)

lemma collect_request:
  assumes net: "net_ok E P" and laws: "packet_laws P holds" and fc: "change_ok fc"
    and own: "\<not> isMyOwn (E i) ip" and port: "udpPort n = 45773"
  shows "collect_piece (E i) (request_arrived P fc) ip n =
    Inr (None, n\<lparr>todoUdp := todoUdp n @ [message_of (request_arrived P fc, ip)]\<rparr>)"
  using net own port request_not_greeting [OF laws fc]
  by (simp add: collect_piece_def net_ok_def message_of_def)

lemma message_of_request: "message_of (request_arrived P fc, ip) = request_message P ip fc"
  by (simp add: message_of_def request_arrived_def request_message_def)

lemma message_of_eq: "message_of m = request_message P ip fc \<longleftrightarrow> m = (request_arrived P fc, ip)"
  by (cases m) (simp add: message_of_def request_message_def request_arrived_def)

end
