(* ===== verification/Threaded_Simulation.thy ===== *)
theory Threaded_Simulation
  imports Threaded_Sync
begin

text \<open>
  The simulation: a step of the two computers while B fetches is a step of the two nodes, or
  it is invisible and uses up what is pending.
\<close>

lemma abs_net_eqI:
  "(\<And>i. abs_end (role i) (computers s i) = abs_end (role i) (computers t i)) \<Longrightarrow> links s A = links t A \<Longrightarrow>
   abs_net s = abs_net t"
  by (simp add: abs_net_def)

lemma side_cases: "P i \<Longrightarrow> P (other i) \<Longrightarrow> P j"
  by (cases i; cases j) simp_all

lemma hand_over_silent:
  "udp (core c) = [] \<Longrightarrow> computers (hand_over E i c s) j = (if j = i then c else computers s j)"
  by (cases i; cases j) (simp_all add: hand_over_def)

lemma bystanders_silent:
  assumes "bystanders E s" "udp (core c) = []" "greeted c" "receivedTable (core c) = receivedTable (core (computers s i))"
    "\<And>th. th \<noteq> role i \<Longrightarrow> pcs c th = pcs (computers s i) th \<or> pcs c th = Looping"
  shows "bystanders E (hand_over E i c s)"
  using assms unfolding bystanders_def by (simp add: hand_over_silent) metis

lemma discoverer_invisible:
  assumes net: "net_ok E P" and laws: "packet_laws P holds" and job: "job_ok J"
    and own: "\<not> isMyOwn (E A) (localAddress (E B))"
    and ph: "fetch_phase E P holds J (abs_net s)" and bys: "bystanders E s"
    and move: "thread_move (E A) Discoverer (computers s A) = Some (Inr c)"
  shows "abs_net (hand_over E A c s) = abs_net s \<and> bystanders E (hand_over E A c s) \<and>
    pending (hand_over E A c s) < pending s"
proof -
  let ?c = "computers s A"
  note f = fetching_computers [OF ph]
  have g: "greeted ?c" and d: "pcs ?c Discoverer = Looping \<or> pcs ?c Discoverer = Requests (localAddress (E B)) []"
    using bystanders_discoverer [OF bys] by simp_all
  show ?thesis
  proof (cases "pcs ?c Discoverer = Looping")
    case False
    with d have "pcs ?c Discoverer = Requests (localAddress (E B)) []" by simp
    from discoverer_done [OF this move] have c: "c = ?c\<lparr>pcs := (pcs ?c)(Discoverer := Looping)\<rparr>" .
    have "abs_end (role A) c = abs_end (role A) ?c" by (simp add: c abs_end_def)
    then have "abs_net (hand_over E A c s) = abs_net s"
      using f(2) [of A] by (intro abs_net_eqI) (simp_all add: hand_over_silent c)
    moreover have "bystanders E (hand_over E A c s)"
      using bys g f(2) [of A] by (intro bystanders_silent) (simp_all add: c)
    ultimately show ?thesis using False f(2) [of A] by (simp add: pending_def hand_over_silent c)
  next
    case True
    with move g have "arrived ?c \<noteq> []" using idle_discoverer by fastforce
    with f(7) obtain k where k: "k < length (requests J)" "todoUdp (core ?c) = []"
      "map message_of (arrived ?c) = [request_message P (localAddress (E B)) (rq_change (requests J ! k))]"
      by (auto simp: append_eq_Cons_conv)
    let ?fc = "rq_change (requests J ! k)"
    from k(3) have arr: "arrived ?c = [(request_arrived P ?fc, localAddress (E B))]" by (auto simp: message_of_eq)
    have "change_ok ?fc" using job_request(1) [OF job k(1)] by (simp add: request_ok_def)
    from collect_request [OF net laws this own f(1) [of A]] move True g k(2) arr have
      c: "c = ?c\<lparr>arrived := [], core := (core ?c)\<lparr>todoUdp := [message_of (request_arrived P ?fc, localAddress (E B))]\<rparr>\<rparr>"
      by (simp add: thread_move_def discover_move_def)
    have "abs_end (role A) c = abs_end (role A) ?c" using k(2) arr by (simp add: c abs_end_def)
    then have "abs_net (hand_over E A c s) = abs_net s"
      using f(2) [of A] by (intro abs_net_eqI) (simp_all add: hand_over_silent c)
    moreover have "bystanders E (hand_over E A c s)"
      using bys g f(2) [of A] by (intro bystanders_silent) (simp_all add: c)
    ultimately show ?thesis using True arr f(2) [of A] by (simp add: pending_def hand_over_silent c)
  qed
qed

section \<open>The threads that fetch and serve\<close>

lemma abs_end_put_back: "arrived c = [] \<Longrightarrow> abs_end th ((put_back th e c)\<lparr>core := (host e)\<lparr>udp := []\<rparr>\<rparr>) = sent_off e"
  by (simp add: abs_end_def put_back_def sent_off_def)

lemma abs_post:
  assumes bys: "bystanders E s" and port: "udpPort (core (computers s (other i))) = 45773" and arr: "arrived (computers s i) = []"
  shows "abs_net (hand_over E i (put_back (role i) e (computers s i)) s) = post E i e (abs_net s)"
proof -
  let ?t = "hand_over E i (put_back (role i) e (computers s i)) s"
  have here: "ends (abs_net ?t) i = ends (post E i e (abs_net s)) i"
    using abs_end_put_back [OF arr] by (simp add: sent_off_def)
  have "\<forall>th'. is_awaiting (pcs (computers s (other i)) th') \<longrightarrow> th' = role (other i)"
    using bystander_pc(1) [OF bys] by metis
  from abs_end_take_in [OF port this] have there: "ends (abs_net ?t) (other i) = ends (post E i e (abs_net s)) (other i)"
    by simp
  have "ends (abs_net ?t) j = ends (post E i e (abs_net s)) j" for j
    using here there by (rule side_cases [where P = "\<lambda>j. ends (abs_net ?t) j = ends (post E i e (abs_net s)) j"])
  then have "ends (abs_net ?t) = ends (post E i e (abs_net s))" by (rule ext)
  moreover have "link (abs_net ?t) = link (post E i e (abs_net s))" by simp
  ultimately show ?thesis by (simp del: post_ends abs_net_sel)
qed

lemma pending_more: "length (arrived (computers t A)) \<le> 1 \<Longrightarrow>
    pcs (computers t A) Discoverer = pcs (computers s A) Discoverer \<Longrightarrow> pending t \<le> pending s + 1"
  by (simp add: pending_def)

lemma arrived_short: "fetch_phase E P holds J (abs_net t) \<Longrightarrow> length (arrived (computers t A)) \<le> 1"
  using fetching_computers(7) [of E P holds J t]
  by (cases "arrived (computers t A)") (auto simp: append_eq_Cons_conv)

lemma answer_request_tables: "answer_request E m n = Inr (r, n') \<Longrightarrow> tables_of n' = tables_of n"
  by (auto simp: answer_request_def Let_def send_udp_def split_def split: sum.splits)

lemma loop_request_tables:
  assumes "pc e = Looping" "changeBuf (host e) = []" "todoUdp (host e) = m # ms"
    "getPacketID (packets E) (msg_packet m) = Inr 5" "handler_move E e = Some (Inr e')"
  shows "tables_of (host e') = tables_of (host e)"
  using assms
  by (auto simp: handler_move_def flush_idle next_message_def dest!: answer_request_tables split: sum.splits)

text \<open>A move of the handler of A or of the table manager of B.\<close>

lemma role_move:
  assumes net: "net_ok E P" and laws: "packet_laws P holds" and job: "job_ok J"
    and ph: "fetch_phase E P holds J (abs_net s)" and bys: "bystanders E s"
    and move: "thread_move (E i) (role i) (computers s i) = Some (Inr c)"
  shows "\<exists>e. handler_move (E i) (seen_by (role i) (computers s i)) = Some (Inr e) \<and>
    c = put_back (role i) e (computers s i) \<and> arrived (computers s i) = [] \<and>
    tables_of (host e) = tables_of (core (computers s i))"
proof -
  let ?c = "computers s i"
  note f = fetching_computers [OF ph]
  have rt: "\<not> receivedTable (core ?c)" using bys by (simp add: bystanders_def)
  have arr: "arrived ?c = []"
  proof (cases i)
    case A
    show ?thesis
    proof (rule ccontr)
      assume "arrived ?c \<noteq> []"
      with f(7) A have "todoUdp (core ?c) = []" "pcs ?c Handler = Looping \<or> (\<exists>bs. pcs ?c Handler = Sends bs)"
        by (auto simp: append_eq_Cons_conv)
      with move A f(3) [of A] idle_handler [of ?c "E A"] show False by (auto simp: thread_move_def handler_move_def)
    qed
  next
    case B
    with f(4) show ?thesis by simp
  qed
  have loop: "i = A" if "pcs ?c (role i) = Looping"
    using that move rt idle_manager [of ?c "E B"] by (cases i) auto
  from move loop obtain e where e: "handler_move (E i) (seen_by (role i) ?c) = Some (Inr e)" "c = put_back (role i) e ?c"
    by (cases i) (auto simp: thread_move_def split: option.splits sum.splits if_splits)
  have "tables_of (host e) = tables_of (core ?c)"
  proof (cases "pcs ?c (role i) = Looping")
    case False
    then show ?thesis using handler_move_tables [OF e(1)] by simp
  next
    case True
    with loop have i: "i = A" by simp
    have "todoUdp (core ?c) \<noteq> []" using move True i f(3) [of A] idle_handler [of ?c "E A"] by fastforce
    with f(7) arr i obtain k where k: "k < length (requests J)"
      "todoUdp (core ?c) = [request_message P (localAddress (E B)) (rq_change (requests J ! k))]" by auto
    have "change_ok (rq_change (requests J ! k))" using job_request(1) [OF job k(1)] by (simp add: request_ok_def)
    from request_message_decodes(1) [OF laws this] have
      "getPacketID (packets (E i)) (msg_packet (request_message P (localAddress (E B)) (rq_change (requests J ! k)))) = Inr 5"
      using net by (simp add: net_ok_def)
    from loop_request_tables [OF _ _ _ this e(1)] True i k(2) f(3) [of A] show ?thesis by simp
  qed
  with e arr show ?thesis by blast
qed

lemma bystanders_after_role:
  assumes bys: "bystanders E s" and e: "tables_of (host e) = tables_of (core (computers s i))"
  shows "bystanders E (hand_over E i (put_back (role i) e (computers s i)) s)"
proof -
  let ?t = "hand_over E i (put_back (role i) e (computers s i)) s"
  have "greeted (computers ?t j) \<and> \<not> receivedTable (core (computers ?t j)) \<and>
      (\<forall>th. th \<noteq> role j \<longrightarrow> pcs (computers ?t j) th = pcs (computers s j) th)" for j
  proof (rule side_cases [where i = i])
    show "greeted (computers ?t i) \<and> \<not> receivedTable (core (computers ?t i)) \<and>
        (\<forall>th. th \<noteq> role i \<longrightarrow> pcs (computers ?t i) th = pcs (computers s i) th)"
      using bys e by (simp add: bystanders_def tables_of_def)
    show "greeted (computers ?t (other i)) \<and> \<not> receivedTable (core (computers ?t (other i))) \<and>
        (\<forall>th. th \<noteq> role (other i) \<longrightarrow> pcs (computers ?t (other i)) th = pcs (computers s (other i)) th)"
      using bys by (simp add: bystanders_def take_in_keeps)
  qed
  with bys show ?thesis by (simp add: bystanders_def)
qed

lemma discoverer_after_role:
  "pcs (computers (hand_over E i (put_back (role i) e (computers s i)) s) A) Discoverer = pcs (computers s A) Discoverer"
proof (cases i)
  case B
  show ?thesis using hand_over_computers(2) [of E B _ s] by (simp add: B take_in_keeps)
qed simp

section \<open>The simulation\<close>

lemma other_threads_rest:
  assumes ph: "fetch_phase E P holds J (abs_net s)" and bys: "bystanders E s" and th: "th \<noteq> role i" "\<not> (i = A \<and> th = Discoverer)"
  shows "thread_move (E i) th (computers s i) = None"
proof -
  note f = fetching_computers [OF ph]
  have pc: "pcs (computers s i) th = Looping" and c: "\<not> receivedTable (core (computers s i))" "greeted (computers s i)"
    using bys th unfolding bystanders_def by blast+
  show ?thesis
  proof (cases th)
    case Discoverer
    with th have "i = B" by (cases i) simp_all
    with Discoverer pc c f(4) show ?thesis using idle_discoverer by simp
  next
    case Handler
    with th have "i = B" by (cases i) simp_all
    with Handler pc show ?thesis by (simp add: idle_handler f(3,5))
  next
    case Table_manager
    with pc c show ?thesis using idle_manager by simp
  next
    case Directory_watcher
    then show ?thesis using watcher_rests by simp
  qed
qed

lemma abs_end_set_pc [simp]: "abs_end th (set_pc th p c) = (abs_end th c)\<lparr>pc := p\<rparr>"
  by (simp add: abs_end_def set_pc_def)

lemma set_pc_sel [simp]:
  "core (set_pc th p c) = core c" "arrived (set_pc th p c) = arrived c" "replies (set_pc th p c) = replies c"
  "greeted (set_pc th p c) = greeted c" "pcs (set_pc th p c) = (pcs c)(th := p)"
  by (simp_all add: set_pc_def)

text \<open>Steps that change no more than the threads in their roles and the link.\<close>

lemma role_step:
  assumes bys: "bystanders E s" and tables: "\<And>i. tables_of (core (computers t i)) = tables_of (core (computers s i))"
    and pcs: "\<And>i th. th \<noteq> role i \<Longrightarrow> pcs (computers t i) th = pcs (computers s i) th"
    and rest: "\<And>i. greeted (computers t i) = greeted (computers s i)" "arrived (computers t A) = arrived (computers s A)"
      "links t B = links s B"
  shows "bystanders E t \<and> pending t \<le> pending s + 1"
proof -
  have "receivedTable (core (computers t i)) = receivedTable (core (computers s i))" for i
    using tables [of i] by (simp add: tables_of_def)
  moreover have "pcs (computers t A) Discoverer = pcs (computers s A) Discoverer" using pcs [of Discoverer A] by simp
  ultimately show ?thesis using bys pcs rest by (simp add: bystanders_def pending_def)
qed

text \<open>A step of a thread: in its role, of the discover thread of A, or none.\<close>

lemma simulates_thread:
  assumes net: "net_ok E P" and laws: "packet_laws P holds" and job: "job_ok J"
    and own: "\<not> isMyOwn (E A) (localAddress (E B))"
    and ph: "fetch_phase E P holds J (abs_net s)" and bys: "bystanders E s"
    and move: "thread_move (E i) th (computers s i) = Some (Inr c)" and t: "t = hand_over E i c s"
  shows "bystanders E t \<and> (timely_step E (abs_net s) (abs_net t) \<and> pending t \<le> pending s + 1 \<or>
    abs_net t = abs_net s \<and> pending t < pending s)"
proof (cases "th = role i")
  case True
  from role_move [OF net laws job ph bys] move True obtain e where
    e: "handler_move (E i) (seen_by (role i) (computers s i)) = Some (Inr e)"
    "c = put_back (role i) e (computers s i)" "arrived (computers s i) = []"
    "tables_of (host e) = tables_of (core (computers s i))" by blast
  have "timely_step E (abs_net s) (post E i e (abs_net s))"
    using e(1) abs_end_seen [OF e(3)] by (intro timely_step.move) simp
  with abs_post [OF bys _ e(3)] fetching_computers(1) [OF ph] t e(2)
  have st: "timely_step E (abs_net s) (abs_net t)" by simp
  have "fetch_phase E P holds J (abs_net t)" using fetch_phase_step [OF net laws job ph st] by simp
  then have "pending t \<le> pending s + 1"
    using discoverer_after_role [of E i e s] t e(2) by (intro pending_more arrived_short) simp_all
  with st bystanders_after_role [OF bys e(4)] t e(2) show ?thesis by simp
next
  case False
  show ?thesis
  proof (cases "i = A \<and> th = Discoverer")
    case True
    with discoverer_invisible [OF net laws job own ph bys] move t show ?thesis by simp
  next
    case disc: False
    with other_threads_rest [OF ph bys False] move show ?thesis by simp
  qed
qed

text \<open>The other steps are steps of the two nodes.\<close>

lemma simulates_connects:
  assumes bys: "bystanders E s"
    and pc: "pcs (computers s i) th = Connects (localAddress (E (other i))) 45016 path out server fcs"
      "pcs (computers s (other i)) Handler = Listens f"
    and t: "t = s\<lparr>computers := (computers s)(i := set_pc th (Receives path server fcs) (computers s i),
        other i := set_pc Handler (Sends (in_rest f)) (computers s (other i))),
      links := (links s)(other i := Some (transfer_init f out))\<rparr>"
  shows "bystanders E t \<and> timely_step E (abs_net s) (abs_net t) \<and> pending t \<le> pending s + 1"
proof -
  have th: "th = role i" using pc(1) bystander_pc(2) [OF bys] by metis
  have i: "i = B" using pc(2) bystander_pc(5) [OF bys, of Handler B] by (cases i) auto
  note c = pc [unfolded th i, simplified]
  have "abs_net t = (abs_net s)\<lparr>ends := (ends (abs_net s))
      (B := (ends (abs_net s) B)\<lparr>pc := Receives path server fcs\<rparr>,
       other B := (ends (abs_net s) (other B))\<lparr>pc := Sends (in_rest f)\<rparr>), link := Some (transfer_init f out)\<rparr>"
    by (simp add: abs_net_def t th i fun_eq_iff role_def split: side.split)
  with timely_step.connect [of "abs_net s" B E path out server fcs f] c
  have "timely_step E (abs_net s) (abs_net t)" by simp
  moreover have "bystanders E t \<and> pending t \<le> pending s + 1"
    by (rule role_step [OF bys]) (auto simp: t th i role_def split: side.splits)
  ultimately show ?thesis by simp
qed

lemma simulates_transfers:
  assumes bys: "bystanders E s" and x: "links s i = Some x" "transfer_step (packets (E A)) x u"
    and t: "t = s\<lparr>links := (links s)(i := Some u)\<rparr>"
  shows "bystanders E t \<and> timely_step E (abs_net s) (abs_net t) \<and> pending t \<le> pending s + 1"
proof -
  have i: "i = A" using x(1) bys by (cases i) (simp_all add: bystanders_def)
  then have "abs_net t = (abs_net s)\<lparr>link := Some u\<rparr>" using t by (simp add: abs_net_def)
  with timely_step.transfer [of "abs_net s" x E u] x i
  have "timely_step E (abs_net s) (abs_net t)" by simp
  moreover have "bystanders E t \<and> pending t \<le> pending s + 1"
    by (rule role_step [OF bys]) (simp_all add: t i)
  ultimately show ?thesis by simp
qed

lemma simulates_sends:
  assumes bys: "bystanders E s" and c: "pcs (computers s i) Handler = Sends bs" "links s i = Some x" "snd_pc x = Sent"
    and t: "t = s\<lparr>computers := (computers s)(i := set_pc Handler Looping (computers s i))\<rparr>"
  shows "bystanders E t \<and> timely_step E (abs_net s) (abs_net t) \<and> pending t \<le> pending s + 1"
proof -
  have i: "i = A" using c(1) bystander_pc(3) [OF bys, of Handler B] by (cases i) auto
  have "abs_net t = (abs_net s)\<lparr>ends := (ends (abs_net s))(A := (ends (abs_net s) A)\<lparr>pc := Looping\<rparr>)\<rparr>"
    by (simp add: abs_net_def t i fun_eq_iff role_def split: side.split)
  with timely_step.sent [of "abs_net s" A bs x E] c i
  have "timely_step E (abs_net s) (abs_net t)" by simp
  moreover have "bystanders E t \<and> pending t \<le> pending s + 1"
    by (rule role_step [OF bys]) (auto simp: t i role_def split: side.splits)
  ultimately show ?thesis by simp
qed

lemma abs_end_finish:
  assumes "arrived c = []" "todoUdp (core c) = []"
  shows "abs_end th (set_pc th p (c\<lparr>core := finish_request path f (core c)\<rparr>)) =
    (abs_end th c)\<lparr>host := finish_request path f (host (abs_end th c)), pc := p\<rparr>"
  using assms by (simp add: abs_end_def finish_request_def unlock_dirLock_def)

lemma simulates_receives:
  assumes ph: "fetch_phase E P holds J (abs_net s)" and bys: "bystanders E s"
    and c: "pcs (computers s i) th = Receives path server fcs" "links s (other i) = Some x" "rcv_pc x = Received"
    and t: "t = s\<lparr>computers := (computers s)(i := set_pc th (Requests server fcs)
      ((computers s i)\<lparr>core := finish_request path (rcv_file x) (core (computers s i))\<rparr>))\<rparr>"
  shows "bystanders E t \<and> timely_step E (abs_net s) (abs_net t) \<and> pending t \<le> pending s + 1"
proof -
  have th: "th = role i" using c(1) bystander_pc(4) [OF bys] by metis
  have i: "i = B" using c(2) bys by (cases i) (simp_all add: bystanders_def)
  note c' = c [unfolded th i, simplified]
  have "abs_net t = (abs_net s)\<lparr>ends := (ends (abs_net s))(B := (ends (abs_net s) B)
      \<lparr>host := finish_request path (rcv_file x) (host (ends (abs_net s) B)), pc := Requests server fcs\<rparr>)\<rparr>"
    using abs_end_finish [of "computers s B" Table_manager] fetching_computers(4,5) [OF ph]
    by (simp add: abs_net_def t th i fun_eq_iff role_def split: side.split)
  with timely_step.received [of "abs_net s" B path server fcs x E] c'
  have "timely_step E (abs_net s) (abs_net t)" by simp
  moreover have "bystanders E t \<and> pending t \<le> pending s + 1"
    by (rule role_step [OF bys]) (auto simp: t th i role_def split: side.splits)
  ultimately show ?thesis by simp
qed

lemma lan_simulates:
  assumes net: "net_ok E P" and laws: "packet_laws P holds" and job: "job_ok J"
    and own: "\<not> isMyOwn (E A) (localAddress (E B))"
    and ph: "fetch_phase E P holds J (abs_net s)" and bys: "bystanders E s" and step: "lan_step E s t"
  shows "bystanders E t \<and> (timely_step E (abs_net s) (abs_net t) \<and> pending t \<le> pending s + 1 \<or>
    abs_net t = abs_net s \<and> pending t < pending s)"
  using step
proof (cases rule: lan_step.cases)
  case (thread i th c)
  then show ?thesis using simulates_thread [OF net laws job own ph bys] by blast
next
  case (connects i th path out server fcs f)
  from simulates_connects [OF bys connects(2,3,1)] show ?thesis by blast
next
  case (transfers i x u)
  from simulates_transfers [OF bys transfers(2,3,1)] show ?thesis by blast
next
  case (sends i bs x)
  from simulates_sends [OF bys sends(2,3,4,1)] show ?thesis by blast
next
  case (receives i th path server fcs x)
  from simulates_receives [OF ph bys receives(2,3,4,1)] show ?thesis by blast
qed

text \<open>The two computers fetching: everything the simulation rests on.\<close>

definition fetching :: "(side \<Rightarrow> ('p outbox, 's, 'l, 'p) platform) \<Rightarrow> 'p packet_api \<Rightarrow>
    ('p \<Rightarrow> field list \<Rightarrow> field list \<Rightarrow> bool) \<Rightarrow> sync_job \<Rightarrow> ('s, 'l, 'p) lan \<Rightarrow> bool" where
  "fetching E P holds J s \<longleftrightarrow> net_ok E P \<and> packet_laws P holds \<and> job_ok J \<and>
     \<not> isMyOwn (E A) (localAddress (E B)) \<and> fetch_phase E P holds J (abs_net s) \<and> bystanders E s"

interpretation lan_net: stuttering_simulation "lan_step E" "timely_step E" abs_net "fetching E P holds J" pending
  for E P holds J
proof
  fix s t
  assume s: "fetching E P holds J s" and step: "lan_step E s t"
  then have ok: "net_ok E P" "packet_laws P holds" "job_ok J" "\<not> isMyOwn (E A) (localAddress (E B))"
    "fetch_phase E P holds J (abs_net s)" "bystanders E s" by (simp_all add: fetching_def)
  note sim = lan_simulates [OF ok step]
  then have "fetch_phase E P holds J (abs_net t)"
    using fetch_phase_step [OF ok(1-3,5), of "abs_net t"] ok(5) by auto
  with ok sim show "fetching E P holds J t \<and>
      (timely_step E (abs_net s) (abs_net t) \<and> pending t \<le> pending s + 1 \<or> abs_net t = abs_net s \<and> pending t < pending s)"
    by (simp add: fetching_def)
qed

end
