(* ===== verification/Threaded_Runs.thy ===== *)
theory Threaded_Runs
  imports Threaded_Simulation
begin

text \<open>
  The whole run of a newcomer's arrival: it greets, the node answers with its table, the table
  goes through the queue to the table manager, which fetches the files. Every step costs weight.
\<close>

section \<open>The phases\<close>

definition meeting_ok :: "(side \<Rightarrow> ('p outbox, 's, 'l, 'p) platform) \<Rightarrow> 'p packet_api \<Rightarrow>
    ('p \<Rightarrow> field list \<Rightarrow> field list \<Rightarrow> bool) \<Rightarrow> sync_job \<Rightarrow> hash_table \<Rightarrow> hash_table \<Rightarrow> bool" where
  "meeting_ok E P holds J tbA tbB \<longleftrightarrow> net_ok E P \<and> packet_laws P holds \<and> job_ok J \<and>
     (\<forall>i. \<not> isMyOwn (E i) (localAddress (E (other i)))) \<and>
     (\<forall>tb \<in> {tbA, tbB}. paths_ok tb \<and> map_ok tb \<and> length tb < 65536) \<and>
     requested_changes tbA tbB True = [] \<and> requested_changes tbB tbA False = job_changes J"

text \<open>B with the answer in its queue, or in its mailbox.\<close>

definition newcomer_at :: "sync_job \<Rightarrow> hash_table \<Rightarrow> 'p UdpMessage list \<Rightarrow> 'p UdpMessage option \<Rightarrow>
    ('s, 'l, 'p) computer \<Rightarrow> bool" where
  "newcomer_at J tb ms mail c \<longleftrightarrow> at_stage (dst_dir J) (dst_disk J) Looping ms [] [] False (seen_by Handler c) \<and>
     pcs c = (\<lambda>_. Looping) \<and> fileHashes (core c) = tb \<and> greeted c \<and> arrived c = [] \<and>
     (receivedTable (core c) \<longleftrightarrow> mail \<noteq> None) \<and> (mail \<noteq> None \<longrightarrow> tableManagerMessage (core c) = mail)"

definition node_at_rest :: "sync_job \<Rightarrow> hash_table \<Rightarrow> IpAddress \<Rightarrow> ('s, 'l, 'p) computer \<Rightarrow> bool" where
  "node_at_rest J tb ip c \<longleftrightarrow>
     (\<exists>dpc \<in> {Looping, Requests ip []}. disc_at (src_dir J) (src_disk J) tb True [] dpc False c)"

inductive meeting_phase :: "(side \<Rightarrow> ('p outbox, 's, 'l, 'p) platform) \<Rightarrow> 'p packet_api \<Rightarrow>
    ('p \<Rightarrow> field list \<Rightarrow> field list \<Rightarrow> bool) \<Rightarrow> sync_job \<Rightarrow> hash_table \<Rightarrow> hash_table \<Rightarrow> ('s, 'l, 'p) lan \<Rightarrow> bool"
  for E P holds J tbA tbB where
  arriving: "disc_at (src_dir J) (src_disk J) tbA True [] Looping False (computers s A) \<Longrightarrow>
    disc_at (dst_dir J) (dst_disk J) tbB False [] Looping False (computers s B) \<Longrightarrow>
    (\<forall>i. links s i = None) \<Longrightarrow> meeting_phase E P holds J tbA tbB s"
| greeting: "disc_at (src_dir J) (src_disk J) tbA True [(table_arrived P 0 tbB, localAddress (E B))] Looping False (computers s A) \<Longrightarrow>
    disc_at (dst_dir J) (dst_disk J) tbB True [] Looping False (computers s B) \<Longrightarrow>
    (\<forall>i. links s i = None) \<Longrightarrow> meeting_phase E P holds J tbA tbB s"
| answered: "node_at_rest J tbA (localAddress (E B)) (computers s A) \<Longrightarrow>
    disc_at (dst_dir J) (dst_disk J) tbB True [(table_arrived P 1 tbA, localAddress (E A))] Looping False (computers s B) \<Longrightarrow>
    (\<forall>i. links s i = None) \<Longrightarrow> meeting_phase E P holds J tbA tbB s"
| queued: "node_at_rest J tbA (localAddress (E B)) (computers s A) \<Longrightarrow>
    newcomer_at J tbB [message_of (table_arrived P 1 tbA, localAddress (E A))] None (computers s B) \<Longrightarrow>
    (\<forall>i. links s i = None) \<Longrightarrow> meeting_phase E P holds J tbA tbB s"
| mailed: "node_at_rest J tbA (localAddress (E B)) (computers s A) \<Longrightarrow>
    newcomer_at J tbB [] (Some (message_of (table_arrived P 1 tbA, localAddress (E A)))) (computers s B) \<Longrightarrow>
    (\<forall>i. links s i = None) \<Longrightarrow> meeting_phase E P holds J tbA tbB s"
| fetches: "fetch_phase E P holds J (abs_net s) \<Longrightarrow> bystanders E s \<Longrightarrow> meeting_phase E P holds J tbA tbB s"

section \<open>The weight\<close>

definition before_fetching :: "('s, 'l, 'p) lan \<Rightarrow> nat" where
  "before_fetching s =
     (let a = computers s A; b = computers s B
      in if \<not> greeted b then 6
         else if pcs b Table_manager \<noteq> Looping then 0
         else if arrived a \<noteq> [] then 5
         else if arrived b \<noteq> [] then 3
         else if todoUdp (core b) \<noteq> [] then 2
         else if receivedTable (core b) then 1 else 0)"

definition lan_weight :: "sync_job \<Rightarrow> ('s, 'l, 'p) lan \<Rightarrow> nat" where
  "lan_weight J s =
     (if before_fetching s = 0 then 2 * net_weight J (abs_net s) + pending s
      else 2 * (1 + rest_cost J (length (requests J))) + before_fetching s +
        (if pcs (computers s A) Discoverer = Looping then 0 else 1))"

lemma fetch_phase_finished:
  assumes "fetch_phase E P holds J s" "pc (ends s B) = Looping"
  shows "\<exists>fs ng. src_free P holds J [] s \<and> dst_at J fs Looping [] ng False s \<and> filled J (length (requests J)) fs"
  using assms by (cases rule: fetch_phase.cases) (auto simp: dst_at_def at_stage_def)

lemma fetching_weight:
  assumes ph: "fetch_phase E P holds J (abs_net s)" and bys: "bystanders E s"
  shows "before_fetching s = 0" "lan_weight J s = 2 * net_weight J (abs_net s) + pending s"
proof -
  note f = fetching_computers [OF ph]
  have arr: "arrived (computers s A) = []" if l: "pcs (computers s B) Table_manager = Looping"
  proof -
    from fetch_phase_finished [OF ph] l have "src_free P holds J [] (abs_net s)" by auto
    from src_free_at [OF this] show ?thesis by (auto simp: src_at_def at_stage_def)
  qed
  have "greeted (computers s B)" "\<not> receivedTable (core (computers s B))" using bys by (simp_all add: bystanders_def)
  with f(4,5) arr show "before_fetching s = 0" by (simp add: before_fetching_def Let_def)
  then show "lan_weight J s = 2 * net_weight J (abs_net s) + pending s" by (simp add: lan_weight_def)
qed

section \<open>Steps before the fetching\<close>

lemma early_step:
  assumes step: "lan_step E s t" and quiet: "\<forall>i. links s i = None"
    and pcs: "\<And>i th. pcs (computers s i) th = Looping \<or> (\<exists>ip. pcs (computers s i) th = Requests ip [])"
  obtains i th c where "th \<noteq> Directory_watcher" "thread_move (E i) th (computers s i) = Some (Inr c)" "t = hand_over E i c s"
  using step
proof (cases rule: lan_step.cases)
  case (thread i th c)
  then show ?thesis using that watcher_rests [of "E i" "computers s i"] by (cases "th = Directory_watcher") auto
next
  case (connects i th path out server fcs f)
  then show ?thesis using pcs [of i th] by simp
next
  case (transfers i x u)
  then show ?thesis using quiet by simp
next
  case (sends i bs x)
  then show ?thesis using quiet by simp
next
  case (receives i th path server fcs x)
  then show ?thesis using quiet by simp
qed

lemma disc_at_others:
  assumes "disc_at d fs tb g arr dpc lk c" "th \<noteq> Discoverer"
  shows "thread_move E th c = None"
  using assms idle_handler [of c E] idle_manager [of c E] watcher_rests [of E c]
  by (cases th) (simp_all add: disc_at_def at_stage_def)

lemma disc_at_idle: "disc_at d fs tb True [] Looping lk c \<Longrightarrow> thread_move E th c = None"
  using disc_at_others idle_discoverer [of c E] by (cases "th = Discoverer") (fastforce simp: disc_at_def at_stage_def)+

lemma disc_at_pcs:
  "disc_at d fs tb g arr dpc lk c \<Longrightarrow> dpc = Looping \<or> dpc = Requests ip [] \<Longrightarrow>
   pcs c th = Looping \<or> (\<exists>ip. pcs c th = Requests ip [])"
  by (auto simp: disc_at_def)

text \<open>A step of the node at rest: its discover thread finds that nothing is wanted.\<close>

lemma node_at_rest_move:
  assumes rest: "node_at_rest J tb ip c" and move: "thread_move E th c = Some (Inr c')"
  shows "node_at_rest J tb ip c' \<and> udp (core c') = [] \<and> pcs c Discoverer \<noteq> Looping \<and> pcs c' Discoverer = Looping \<and>
    arrived c' = []"
proof -
  from rest obtain dpc where d: "dpc = Looping \<or> dpc = Requests ip []" "disc_at (src_dir J) (src_disk J) tb True [] dpc False c"
    by (auto simp: node_at_rest_def)
  have "dpc \<noteq> Looping" using move d(2) disc_at_idle [of "src_dir J" "src_disk J" tb False c E th] by auto
  with d(1) have dpc: "dpc = Requests ip []" by simp
  have th: "th = Discoverer"
  proof (rule ccontr)
    assume "th \<noteq> Discoverer"
    from disc_at_others [OF d(2) this, of E] move show False by simp
  qed
  have pc: "pcs c Discoverer = Requests ip []" using d(2) dpc by (simp add: disc_at_def)
  from discoverer_done [OF pc move [unfolded th]] have c': "c' = c\<lparr>pcs := (pcs c)(Discoverer := Looping)\<rparr>" .
  have "disc_at (src_dir J) (src_disk J) tb True [] Looping False c'"
    using d(2) by (simp add: c' disc_at_def at_stage_def)
  then show ?thesis using pc by (auto simp: node_at_rest_def c' disc_at_def at_stage_def)
qed

lemma meeting_okD:
  assumes "meeting_ok E P holds J tbA tbB"
  shows "net_ok E P" "packet_laws P holds" "job_ok J" "\<not> isMyOwn (E i) (localAddress (E (other i)))"
    "paths_ok tbA" "map_ok tbA" "length tbA < 65536" "paths_ok tbB" "map_ok tbB" "length tbB < 65536"
    "requested_changes tbA tbB True = []" "requested_changes tbB tbA False = job_changes J"
  using assms unfolding meeting_ok_def by blast+

lemma early_weight:
  "before_fetching s \<noteq> 0 \<Longrightarrow> lan_weight J s = 2 * (1 + rest_cost J (length (requests J))) + before_fetching s +
     (if pcs (computers s A) Discoverer = Looping then 0 else 1)"
  by (simp add: lan_weight_def)

text \<open>The node at rest beside a newcomer that has not begun to fetch.\<close>

lemma rest_pcs: "node_at_rest J tb ip c \<Longrightarrow> pcs c th = Looping \<or> (\<exists>ip. pcs c th = Requests ip [])"
  using disc_at_pcs by (fastforce simp: node_at_rest_def)

lemma rest_arrived: "node_at_rest J tb ip c \<Longrightarrow> arrived c = []"
  by (auto simp: node_at_rest_def disc_at_def)

lemma rest_step:
  assumes rest: "node_at_rest J tb ip (computers s A)" and move: "thread_move E' th (computers s A) = Some (Inr c)"
  shows "node_at_rest J tb ip (computers (hand_over E A c s) A)" "computers (hand_over E A c s) B = computers s B"
    "before_fetching (hand_over E A c s) = before_fetching s"
    "before_fetching s \<noteq> 0 \<Longrightarrow> lan_weight J (hand_over E A c s) < lan_weight J s"
proof -
  note r = node_at_rest_move [OF rest move]
  have t: "computers (hand_over E A c s) A = c" "computers (hand_over E A c s) B = computers s B"
    using r by (simp_all add: hand_over_silent)
  show "node_at_rest J tb ip (computers (hand_over E A c s) A)" "computers (hand_over E A c s) B = computers s B"
    unfolding t using r by simp_all
  show b: "before_fetching (hand_over E A c s) = before_fetching s"
    unfolding before_fetching_def t using r rest_arrived [OF rest] by (simp add: Let_def)
  show "before_fetching s \<noteq> 0 \<Longrightarrow> lan_weight J (hand_over E A c s) < lan_weight J s"
    unfolding t using b r by (simp add: early_weight t del: hand_over_computers)
qed

section \<open>Arrival, greeting, answer\<close>

lemma step_arriving:
  assumes ok: "meeting_ok E P holds J tbA tbB"
    and a: "disc_at (src_dir J) (src_disk J) tbA True [] Looping False (computers s A)"
    and b: "disc_at (dst_dir J) (dst_disk J) tbB False [] Looping False (computers s B)"
    and quiet: "\<forall>i. links s i = None" and step: "lan_step E s t"
  shows "meeting_phase E P holds J tbA tbB t \<and> lan_weight J t < lan_weight J s"
proof -
  have pcs: "pcs (computers s i) th = Looping \<or> (\<exists>ip. pcs (computers s i) th = Requests ip [])" for i th
    using a b by (cases i) (simp_all add: disc_at_def)
  from early_step [OF step quiet pcs] obtain i th c where
    m: "thread_move (E i) th (computers s i) = Some (Inr c)" and t: "t = hand_over E i c s" by blast
  have "i \<noteq> A" using m disc_at_idle [OF a, of "E A" th] by auto
  then have i: "i = B" by (cases i) simp_all
  with m disc_at_others [OF b, of th "E B"] have "th = Discoverer" by auto
  with disc_greet [OF meeting_okD(1) [OF ok], where i = B, unfolded other.simps, OF b a] m i t have
    n: "disc_at (dst_dir J) (dst_disk J) tbB True [] Looping False (computers t B)"
      "disc_at (src_dir J) (src_disk J) tbA True [(table_arrived P 0 tbB, localAddress (E B))] Looping False (computers t A)"
    by auto
  then have "before_fetching t = 5" "before_fetching s = 6"
    using b by (simp_all add: before_fetching_def disc_at_def Let_def)
  then have "lan_weight J t < lan_weight J s" using a n(2) by (simp add: early_weight disc_at_def)
  moreover have "\<forall>i. links t i = None" using quiet t by simp
  ultimately show ?thesis using meeting_phase.greeting n by blast
qed

lemma step_greeting:
  assumes ok: "meeting_ok E P holds J tbA tbB"
    and a: "disc_at (src_dir J) (src_disk J) tbA True [(table_arrived P 0 tbB, localAddress (E B))] Looping False (computers s A)"
    and b: "disc_at (dst_dir J) (dst_disk J) tbB True [] Looping False (computers s B)"
    and quiet: "\<forall>i. links s i = None" and step: "lan_step E s t"
  shows "meeting_phase E P holds J tbA tbB t \<and> lan_weight J t < lan_weight J s"
proof -
  note okd = meeting_okD [OF ok]
  have pcs: "pcs (computers s i) th = Looping \<or> (\<exists>ip. pcs (computers s i) th = Requests ip [])" for i th
    using a b by (cases i) (simp_all add: disc_at_def)
  from early_step [OF step quiet pcs] obtain i th c where
    m: "thread_move (E i) th (computers s i) = Some (Inr c)" and t: "t = hand_over E i c s" by blast
  have "i \<noteq> B" using m disc_at_idle [OF b, of "E B" th] by auto
  then have i: "i = A" by (cases i) simp_all
  with m disc_at_others [OF a, of th "E A"] have "th = Discoverer" by auto
  with disc_collect [OF okd(1,2,8-10) okd(4), where i = A, unfolded other.simps, OF a b] m i t okd(11) have
    n: "disc_at (src_dir J) (src_disk J) tbA True [] (Requests (localAddress (E B)) []) False (computers t A)"
      "disc_at (dst_dir J) (dst_disk J) tbB True [(table_arrived P 1 tbA, localAddress (E A))] Looping False (computers t B)"
    by auto
  then have "before_fetching t = 3" "before_fetching s = 5"
    using a b by (simp_all add: before_fetching_def disc_at_def Let_def)
  then have "lan_weight J t < lan_weight J s" using a n(1) by (simp add: early_weight disc_at_def)
  moreover have "\<forall>i. links t i = None" using quiet t by simp
  moreover have "node_at_rest J tbA (localAddress (E B)) (computers t A)" using n(1) by (auto simp: node_at_rest_def)
  ultimately show ?thesis using meeting_phase.answered n(2) by blast
qed

lemma collect_table:
  assumes ok: "meeting_ok E P holds J tbA tbB" and port: "udpPort n = 45773"
  shows "collect_piece (E B) (table_arrived P 1 tbA) (localAddress (E A)) n =
    Inr (None, n\<lparr>todoUdp := todoUdp n @ [message_of (table_arrived P 1 tbA, localAddress (E A))]\<rparr>)"
  using table_arrived_reads(1) [OF meeting_okD(2,5,6,7) [OF ok], of 1] meeting_okD(1) [OF ok]
    meeting_okD(4) [OF ok, of B] port
  by (simp add: collect_piece_def net_ok_def message_of_def)

lemma step_answered:
  assumes ok: "meeting_ok E P holds J tbA tbB"
    and a: "node_at_rest J tbA (localAddress (E B)) (computers s A)"
    and b: "disc_at (dst_dir J) (dst_disk J) tbB True [(table_arrived P 1 tbA, localAddress (E A))] Looping False (computers s B)"
    and quiet: "\<forall>i. links s i = None" and step: "lan_step E s t"
  shows "meeting_phase E P holds J tbA tbB t \<and> lan_weight J t < lan_weight J s"
proof -
  have pcs: "pcs (computers s i) th = Looping \<or> (\<exists>ip. pcs (computers s i) th = Requests ip [])" for i th
    using rest_pcs [OF a] b by (cases i) (simp_all add: disc_at_def)
  from early_step [OF step quiet pcs] obtain i th c where
    m: "thread_move (E i) th (computers s i) = Some (Inr c)" and t: "t = hand_over E i c s" by blast
  have links: "\<forall>i. links t i = None" using quiet t by simp
  have s3: "before_fetching s = 3" using rest_arrived [OF a] b by (simp add: before_fetching_def disc_at_def Let_def)
  show ?thesis
  proof (cases i)
    case A
    from rest_step [where E = E, OF a m [unfolded A]] t A s3 b links meeting_phase.answered show ?thesis by fastforce
  next
    case B
    let ?c = "computers s B" and ?m = "message_of (table_arrived P 1 tbA, localAddress (E A))"
    from m B disc_at_others [OF b, of th "E B"] have "th = Discoverer" by auto
    with m B b collect_table [OF ok, of "core ?c"] have
      c: "c = ?c\<lparr>arrived := [], core := (core ?c)\<lparr>todoUdp := [?m]\<rparr>\<rparr>"
      by (simp add: thread_move_def discover_move_def disc_at_def at_stage_def)
    have "udp (core c) = []" using b by (simp add: c disc_at_def at_stage_def)
    with t B have ct: "computers t A = computers s A" "computers t B = c" by (simp_all add: hand_over_silent)
    have n: "newcomer_at J tbB [?m] None (computers t B)"
      using b by (simp add: ct c newcomer_at_def disc_at_def at_stage_def fun_eq_iff)
    then have "before_fetching t = 2"
      using rest_arrived [OF a] by (simp add: before_fetching_def newcomer_at_def at_stage_def Let_def ct)
    with s3 have "lan_weight J t < lan_weight J s" by (simp add: early_weight ct)
    moreover have "node_at_rest J tbA (localAddress (E B)) (computers t A)" using a ct(1) by simp
    ultimately show ?thesis using meeting_phase.queued n links by blast
  qed
qed

section \<open>The table on its way to the manager\<close>

lemma take_table:
  assumes ok: "meeting_ok E P holds J tbA tbB"
    and c: "newcomer_at J tbB [message_of (table_arrived P 1 tbA, ip)] None c"
  shows "\<exists>c'. thread_move (E i) Handler c = Some (Inr c') \<and>
    newcomer_at J tbB [] (Some (message_of (table_arrived P 1 tbA, ip))) c' \<and> udp (core c') = []"
proof -
  let ?m = "message_of (table_arrived P 1 tbA, ip)"
  let ?n = "(core c)\<lparr>todoUdp := [], receivedTable := True, tableManagerMessage := Some ?m\<rparr>"
  have P: "packets (E i) = P" using meeting_okD(1) [OF ok] by (simp add: net_ok_def)
  have id: "getPacketID P (msg_packet ?m) = Inr 1"
    using table_arrived_reads(1) [OF meeting_okD(2,5,6,7) [OF ok]] by (simp add: message_of_def)
  have h: "todoUdp (core c) = [?m]" "changeBuf (core c) = []" "pcs c Handler = Looping"
    using c by (simp_all add: newcomer_at_def at_stage_def)
  have "next_message (E i) ?m ((core c)\<lparr>todoUdp := []\<rparr>) = Inr (Looping, ?n)"
    using id P by (simp add: next_message_def short_message_def readResponseToArrival_def lift_result_def)
  then have "handler_move (E i) (seen_by Handler c) = Some (Inr ((seen_by Handler c)\<lparr>host := ?n, pc := Looping\<rparr>))"
    using h by (simp add: handler_move_def flush_idle)
  from thread_move_seen [OF _ _ this]
  have "thread_move (E i) Handler c = Some (Inr (put_back Handler ((seen_by Handler c)\<lparr>host := ?n, pc := Looping\<rparr>) c))"
    by simp
  then show ?thesis
    using c by (simp add: newcomer_at_def at_stage_def fun_eq_iff)
qed

lemma newcomer_others:
  assumes "newcomer_at J tb ms mail c" "th \<noteq> Handler \<or> ms = []" "th \<noteq> Table_manager \<or> mail = None"
  shows "thread_move E th c = None"
  using assms idle_handler [of c E] idle_manager [of c E] watcher_rests [of E c] idle_discoverer [of c E]
  by (cases th) (simp_all add: newcomer_at_def at_stage_def)

lemma step_queued:
  assumes ok: "meeting_ok E P holds J tbA tbB"
    and a: "node_at_rest J tbA (localAddress (E B)) (computers s A)"
    and b: "newcomer_at J tbB [message_of (table_arrived P 1 tbA, localAddress (E A))] None (computers s B)"
    and quiet: "\<forall>i. links s i = None" and step: "lan_step E s t"
  shows "meeting_phase E P holds J tbA tbB t \<and> lan_weight J t < lan_weight J s"
proof -
  have pcs: "pcs (computers s i) th = Looping \<or> (\<exists>ip. pcs (computers s i) th = Requests ip [])" for i th
    using rest_pcs [OF a] b by (cases i) (simp_all add: newcomer_at_def)
  from early_step [OF step quiet pcs] obtain i th c where
    m: "thread_move (E i) th (computers s i) = Some (Inr c)" and t: "t = hand_over E i c s" by blast
  have links: "\<forall>i. links t i = None" using quiet t by simp
  have s2: "before_fetching s = 2"
    using rest_arrived [OF a] b by (simp add: before_fetching_def newcomer_at_def at_stage_def Let_def)
  show ?thesis
  proof (cases i)
    case A
    note r = rest_step [where E = E, OF a m [unfolded A], folded t [unfolded A]]
    have "newcomer_at J tbB [message_of (table_arrived P 1 tbA, localAddress (E A))] None (computers t B)" using b r(2) by simp
    with meeting_phase.queued [where E = E, OF r(1) _ links] r(4) s2 show ?thesis by simp
  next
    case B
    from m B newcomer_others [OF b, of th "E B"] have "th = Handler" by auto
    with m B take_table [OF ok b, of B] have
      c: "newcomer_at J tbB [] (Some (message_of (table_arrived P 1 tbA, localAddress (E A)))) c" "udp (core c) = []" by auto
    with t B have ct: "computers t A = computers s A" "computers t B = c" by (simp_all add: hand_over_silent)
    have "before_fetching t = 1"
      using rest_arrived [OF a] c(1) by (simp add: before_fetching_def newcomer_at_def at_stage_def Let_def ct)
    with s2 have "lan_weight J t < lan_weight J s" by (simp add: early_weight ct)
    moreover have "node_at_rest J tbA (localAddress (E B)) (computers t A)" using a ct(1) by simp
    moreover have "newcomer_at J tbB [] (Some (message_of (table_arrived P 1 tbA, localAddress (E A)))) (computers t B)"
      using c(1) ct(2) by simp
    ultimately show ?thesis using meeting_phase.mailed links by blast
  qed
qed

lemma take_mail:
  assumes ok: "meeting_ok E P holds J tbA tbB"
    and c: "newcomer_at J tbB [] (Some (message_of (table_arrived P 1 tbA, ip))) c"
  shows "thread_move (E i) Table_manager c = Some (Inr (c\<lparr>core := (core c)\<lparr>receivedTable := False, tableManagerMessage := None\<rparr>,
      pcs := (pcs c)(Table_manager := Requests ip (job_changes J))\<rparr>))"
proof -
  have P: "packets (E i) = P" using meeting_okD(1) [OF ok] by (simp add: net_ok_def)
  have h: "tableManagerMessage (core c) = Some (message_of (table_arrived P 1 tbA, ip))" "receivedTable (core c)"
    "fileHashes (core c) = tbB" "pcs c Table_manager = Looping" using c by (simp_all add: newcomer_at_def)
  from table_arrived_reads(2) [OF meeting_okD(2,5,6,7) [OF ok], of 1] obtain p1 p2 where
    "get_u8 P (table_arrived P 1 tbA) = Inr (1, p1)" "get_hashTable P p1 [] = Inr (tbA, p2)" by blast
  with h P meeting_okD(12) [OF ok] have "manager_piece (E i) (core c) =
      Inr ((ip, job_changes J), (core c)\<lparr>receivedTable := False, tableManagerMessage := None\<rparr>)"
    by (simp add: manager_piece_def message_of_def)
  with h show ?thesis by (simp add: thread_move_def manager_move_def)
qed

lemma step_mailed:
  assumes ok: "meeting_ok E P holds J tbA tbB"
    and a: "node_at_rest J tbA (localAddress (E B)) (computers s A)"
    and b: "newcomer_at J tbB [] (Some (message_of (table_arrived P 1 tbA, localAddress (E A)))) (computers s B)"
    and quiet: "\<forall>i. links s i = None" and step: "lan_step E s t"
  shows "meeting_phase E P holds J tbA tbB t \<and> lan_weight J t < lan_weight J s"
proof -
  have pcs: "pcs (computers s i) th = Looping \<or> (\<exists>ip. pcs (computers s i) th = Requests ip [])" for i th
    using rest_pcs [OF a] b by (cases i) (simp_all add: newcomer_at_def)
  from early_step [OF step quiet pcs] obtain i th c where
    m: "thread_move (E i) th (computers s i) = Some (Inr c)" and t: "t = hand_over E i c s" by blast
  have links: "\<forall>i. links t i = None" using quiet t by simp
  have s1: "before_fetching s = 1"
    using rest_arrived [OF a] b by (simp add: before_fetching_def newcomer_at_def at_stage_def Let_def)
  show ?thesis
  proof (cases i)
    case A
    note r = rest_step [where E = E, OF a m [unfolded A], folded t [unfolded A]]
    have "newcomer_at J tbB [] (Some (message_of (table_arrived P 1 tbA, localAddress (E A)))) (computers t B)"
      using b r(2) by simp
    with meeting_phase.mailed [where E = E, OF r(1) _ links] r(4) s1 show ?thesis by simp
  next
    case B
    from m B newcomer_others [OF b, of th "E B"] have "th = Table_manager" by auto
    with m B take_mail [OF ok b, of B] have c: "c = (computers s B)\<lparr>core := (core (computers s B))
        \<lparr>receivedTable := False, tableManagerMessage := None\<rparr>,
        pcs := (pcs (computers s B))(Table_manager := Requests (localAddress (E A)) (job_changes J))\<rparr>" by auto
    have "udp (core c) = []" using b by (simp add: c newcomer_at_def at_stage_def)
    with t B have ct: "computers t A = computers s A" "computers t B = c" by (simp_all add: hand_over_silent)
    from a obtain dpc where dpc: "dpc = Looping \<or> dpc = Requests (localAddress (E B)) []"
      "disc_at (src_dir J) (src_disk J) tbA True [] dpc False (computers s A)" by (auto simp: node_at_rest_def)
    have src: "src_at J Looping [] (abs_net t)"
      using dpc(2) by (simp add: src_at_def at_stage_def disc_at_def ct)
    have dst: "dst_at J (dst_disk J) (Requests (localAddress (E A)) (drop 0 (job_changes J))) [] [] False (abs_net t)"
      using b by (simp add: dst_at_def at_stage_def newcomer_at_def ct c)
    have "src_free P holds J [] (abs_net t)" using src links by (simp add: src_free_def quiet_link_def)
    from fetch_phase.asking [where E = E, OF this _ filled_0 [OF meeting_okD(3) [OF ok]] dst]
    have ph: "fetch_phase E P holds J (abs_net t)" by simp
    have bys: "bystanders E t"
      using dpc b links by (auto simp: bystanders_def ct c disc_at_def newcomer_at_def all_sides role_def)
    have "net_weight J (abs_net t) = 1 + rest_cost J (length (requests J))"
      using src dst by (simp add: net_weight_def src_weight_def dst_weight_def src_at_def dst_at_def at_stage_def)
    then have "lan_weight J t < lan_weight J s"
      using fetching_weight(2) [OF ph bys] s1 rest_arrived [OF a] by (simp add: early_weight pending_def ct)
    with meeting_phase.fetches [OF ph bys] show ?thesis by simp
  qed
qed

lemma meeting_phase_step:
  assumes ok: "meeting_ok E P holds J tbA tbB" and ph: "meeting_phase E P holds J tbA tbB s" and step: "lan_step E s t"
  shows "meeting_phase E P holds J tbA tbB t \<and> lan_weight J t < lan_weight J s"
  using ph
proof (cases rule: meeting_phase.cases)
  case arriving
  then show ?thesis using step_arriving [OF ok] step by blast
next
  case greeting
  then show ?thesis using step_greeting [OF ok] step by blast
next
  case answered
  then show ?thesis using step_answered [OF ok] step by blast
next
  case queued
  then show ?thesis using step_queued [OF ok] step by blast
next
  case mailed
  then show ?thesis using step_mailed [OF ok] step by blast
next
  case fetches
  note okd = meeting_okD [OF ok]
  have own: "\<not> isMyOwn (E A) (localAddress (E B))" using okd(4) [of A] by simp
  from okd(1-3) own fetches have f: "fetching E P holds J s" by (simp add: fetching_def)
  note sim = lan_net.simulates [OF f step]
  then have t: "fetch_phase E P holds J (abs_net t)" "bystanders E t" by (simp_all add: fetching_def)
  have "2 * net_weight J (abs_net t) + pending t < 2 * net_weight J (abs_net s) + pending s"
    using sim fetch_phase_step [OF okd(1-3) fetches(1), of "abs_net t"] by auto
  then show ?thesis
    using meeting_phase.fetches [OF t] fetching_weight(2) [OF fetches] fetching_weight(2) [OF t] by simp
qed

section \<open>A step is possible until the end\<close>

lemma thread_progress: "thread_move (E i) th (computers s i) = Some (Inr c) \<Longrightarrow> \<exists>t. lan_step E s t"
  using lan_step.thread by blast

lemma fetch_phase_pc:
  assumes "fetch_phase E P holds J s"
  shows "pc (ends s A) \<noteq> Connects ip port path out server fcs \<and> pc (ends s A) \<noteq> Receives path server fcs \<and>
    pc (ends s B) \<noteq> Sends bs \<and> pc (ends s B) \<noteq> Listens f"
  using assms
  by (cases rule: fetch_phase.cases)
    (auto simp: src_free_def src_serves_def src_moves_def src_at_def dst_at_def at_stage_def)

lemma loop_needs_message:
  assumes "pc e = Looping" "todoUdp (host e) = []" "changeBuf (host e) = []"
  shows "handler_move E e = None"
  using assms by (simp add: handler_move_def flush_idle)

text \<open>When nothing is pending, a step of the two nodes is one of the two computers.\<close>

lemma net_step_follows:
  assumes ph: "fetch_phase E P holds J (abs_net s)" and bys: "bystanders E s"
    and none: "arrived (computers s A) = []" and step: "timely_step E (abs_net s) u"
  shows "\<exists>t. lan_step E s t"
  using step
proof (cases rule: timely_step.cases)
  case (move i e)
  note f = fetching_computers [OF ph]
  have arr: "arrived (computers s i) = []" using none f(4) by (cases i) simp_all
  then have h: "handler_move (E i) (seen_by (role i) (computers s i)) = Some (Inr e)"
    using move(2) abs_end_seen [of "computers s i"] by simp
  have "role i = Handler \<or> pcs (computers s i) (role i) \<noteq> Looping"
  proof (cases i)
    case B
    have "pcs (computers s B) Table_manager \<noteq> Looping"
    proof
      assume "pcs (computers s B) Table_manager = Looping"
      then have "handler_move (E B) (seen_by Table_manager (computers s B)) = None"
        using f(3) [of B] f(5) by (intro loop_needs_message) simp_all
      with h B show False by simp
    qed
    then show ?thesis by (simp add: B)
  qed simp
  moreover have "role i \<noteq> Directory_watcher" by (cases i) simp_all
  ultimately show ?thesis using thread_move_seen [OF _ _ h] thread_progress by blast
next
  case (connect i path out server fcs f)
  have "i = B" using connect(2) fetch_phase_pc [OF ph, of "localAddress (E B)" 45016 path out server fcs] by (cases i) simp_all
  with connect lan_step.connects [of s B Table_manager E path out server fcs f] show ?thesis by auto
next
  case (transfer x v)
  then show ?thesis using lan_step.transfers [of s A x E v] by auto
next
  case (sent i bs x)
  have "i = A" using sent(2) fetch_phase_pc [OF ph, where bs = bs] by (cases i) simp_all
  with sent lan_step.sends [of s A bs x E] show ?thesis by auto
next
  case (received i path server fcs x)
  have "i = B" using received(2) fetch_phase_pc [OF ph, where path = path and server = server and fcs = fcs] by (cases i) simp_all
  with received lan_step.receives [of s B Table_manager path server fcs x E] show ?thesis by auto
qed

lemma collect_progress:
  assumes net: "net_ok E P" and laws: "packet_laws P holds" and job: "job_ok J"
    and own: "\<not> isMyOwn (E A) (localAddress (E B))"
    and ph: "fetch_phase E P holds J (abs_net s)" and bys: "bystanders E s"
    and pend: "pending s \<noteq> 0"
  shows "\<exists>t. lan_step E s t"
proof (cases "pcs (computers s A) Discoverer = Looping")
  case False
  with bystanders_discoverer(2) [OF bys] have "pcs (computers s A) Discoverer = Requests (localAddress (E B)) []" by simp
  from discoverer_can_finish [OF this, of "E A"] thread_progress show ?thesis by blast
next
  case True
  with pend have "arrived (computers s A) \<noteq> []" by (simp add: pending_def)
  with fetching_computers(7) [OF ph] obtain k where k: "k < length (requests J)"
    "map message_of (arrived (computers s A)) = [request_message P (localAddress (E B)) (rq_change (requests J ! k))]"
    by (auto simp: append_eq_Cons_conv)
  then have arr: "arrived (computers s A) = [(request_arrived P (rq_change (requests J ! k)), localAddress (E B))]"
    by (auto simp: message_of_eq)
  have "change_ok (rq_change (requests J ! k))" using job_request(1) [OF job k(1)] by (simp add: request_ok_def)
  from collect_request [OF net laws this own fetching_computers(1) [OF ph]] True arr bystanders_discoverer(1) [OF bys]
  have "\<exists>c. thread_move (E A) Discoverer (computers s A) = Some (Inr c)"
    by (simp add: thread_move_def discover_move_def)
  with thread_progress show ?thesis by blast
qed

lemma meeting_progress:
  assumes ok: "meeting_ok E P holds J tbA tbB" and ph: "meeting_phase E P holds J tbA tbB s"
    and stop: "\<nexists>t. lan_step E s t"
  shows "fetch_phase E P holds J (abs_net s) \<and> bystanders E s \<and> pending s = 0 \<and>
    (\<exists>fs ng. src_at J Looping [] (abs_net s) \<and> dst_at J fs Looping [] ng False (abs_net s) \<and>
       filled J (length (requests J)) fs)"
  using ph
proof (cases rule: meeting_phase.cases)
  case arriving
  from disc_greet [OF meeting_okD(1) [OF ok], where i = B, unfolded other.simps, OF arriving(2,1)] thread_progress stop
  show ?thesis by blast
next
  case greeting
  from disc_collect [OF meeting_okD(1,2,8-10) [OF ok] meeting_okD(4) [OF ok], where i = A, unfolded other.simps,
      OF greeting(1,2)] thread_progress stop show ?thesis by blast
next
  case answered
  have "udpPort (core (computers s B)) = 45773" using answered(2) by (simp add: disc_at_def at_stage_def)
  from collect_table [OF ok this] answered(2)
  have "\<exists>c. thread_move (E B) Discoverer (computers s B) = Some (Inr c)"
    by (simp add: thread_move_def discover_move_def disc_at_def)
  with thread_progress stop show ?thesis by blast
next
  case queued
  from take_table [OF ok queued(2), of B] thread_progress stop show ?thesis by blast
next
  case mailed
  from take_mail [OF ok mailed(2), of B] thread_progress stop show ?thesis by blast
next
  case fetches
  note okd = meeting_okD [OF ok]
  have own: "\<not> isMyOwn (E A) (localAddress (E B))" using okd(4) [of A] by simp
  have p: "pending s = 0" using collect_progress [OF okd(1-3) own fetches] stop by blast
  then have "arrived (computers s A) = []" by (simp add: pending_def)
  from net_step_follows [OF fetches this] stop have "\<nexists>u. timely_step E (abs_net s) u" by blast
  from fetch_progress [OF okd(1-3) fetches(1) this] fetches p show ?thesis by blast
qed

section \<open>The run as a terminating system\<close>

definition meeting_start :: "(side \<Rightarrow> ('p outbox, 's, 'l, 'p) platform) \<Rightarrow> 'p packet_api \<Rightarrow>
    ('p \<Rightarrow> field list \<Rightarrow> field list \<Rightarrow> bool) \<Rightarrow> sync_job \<Rightarrow> hash_table \<Rightarrow> hash_table \<Rightarrow> ('s, 'l, 'p) lan \<Rightarrow> bool" where
  "meeting_start E P holds J tbA tbB s \<longleftrightarrow> meeting_ok E P holds J tbA tbB \<and> (\<forall>i. links s i = None) \<and>
     disc_at (src_dir J) (src_disk J) tbA True [] Looping False (computers s A) \<and>
     disc_at (dst_dir J) (dst_disk J) tbB False [] Looping False (computers s B)"

definition meeting_run :: "(side \<Rightarrow> ('p outbox, 's, 'l, 'p) platform) \<Rightarrow> 'p packet_api \<Rightarrow>
    ('p \<Rightarrow> field list \<Rightarrow> field list \<Rightarrow> bool) \<Rightarrow> sync_job \<Rightarrow> hash_table \<Rightarrow> hash_table \<Rightarrow> ('s, 'l, 'p) lan \<Rightarrow> bool" where
  "meeting_run E P holds J tbA tbB s \<longleftrightarrow> meeting_ok E P holds J tbA tbB \<and> meeting_phase E P holds J tbA tbB s"

interpretation meeting: terminating_system "meeting_start E P holds J tbA tbB" "lan_step E"
  "meeting_run E P holds J tbA tbB" "lan_weight J"
  for E P holds J tbA tbB
proof
  show "meeting_start E P holds J tbA tbB s \<Longrightarrow> meeting_run E P holds J tbA tbB s" for s
    using meeting_phase.arriving unfolding meeting_start_def meeting_run_def by blast
  fix s t
  assume st: "meeting_run E P holds J tbA tbB s" "lan_step E s t"
  then show "meeting_run E P holds J tbA tbB t" using meeting_phase_step unfolding meeting_run_def by blast
  show "lan_weight J t < lan_weight J s" using st meeting_phase_step unfolding meeting_run_def by blast
qed

lemma meeting_start_weight:
  assumes "meeting_start E P holds J tbA tbB s"
  shows "lan_weight J s = 8 + 2 * (\<Sum>r\<leftarrow>requests J. file_cost r)"
proof -
  have "before_fetching s = 6" using assms by (simp add: meeting_start_def before_fetching_def disc_at_def Let_def)
  with assms show ?thesis by (simp add: early_weight meeting_start_def disc_at_def rest_cost_def)
qed

text \<open>Nothing is left to do: every thread is at the head of its loop, the sockets, queues and
  mailboxes are empty, and the locks free.\<close>

definition all_idle :: "('s, 'l, 'p) lan \<Rightarrow> bool" where
  "all_idle s \<longleftrightarrow> (\<forall>i. (\<forall>th. pcs (computers s i) th = Looping) \<and> arrived (computers s i) = [] \<and>
     todoUdp (core (computers s i)) = [] \<and> \<not> receivedTable (core (computers s i)) \<and> \<not> dirLocked (core (computers s i)))"

lemma meeting_end:
  assumes run: "meeting_run E P holds J tbA tbB s" and stop: "\<nexists>t. lan_step E s t"
  shows "all_idle s \<and> disk (core (computers s A)) = src_disk J \<and>
    file_at (disk (core (computers s B))) = file_at (dst_disk J) ++
      map_of (map (\<lambda>r. (place J r, rq_content r)) (requests J))"
proof -
  from run have ok: "meeting_ok E P holds J tbA tbB" "meeting_phase E P holds J tbA tbB s" by (simp_all add: meeting_run_def)
  from meeting_progress [OF ok stop] obtain fs ng where bys: "bystanders E s" "pending s = 0"
    and src: "src_at J Looping [] (abs_net s)" and dst: "dst_at J fs Looping [] ng False (abs_net s)"
    and full: "filled J (length (requests J)) fs" by blast
  have "pcs (computers s i) th = Looping" for i th
  proof (cases "th = role i")
    case True
    with src dst show ?thesis by (cases i) (simp_all add: src_at_def dst_at_def at_stage_def)
  next
    case False
    have "pcs (computers s A) Discoverer = Looping" using bys(2) by (simp add: pending_def split: if_splits)
    with bys(1) False show ?thesis unfolding bystanders_def by metis
  qed
  moreover have "\<not> receivedTable (core (computers s i))" for i using bys(1) by (simp add: bystanders_def)
  ultimately show ?thesis
    using src dst full by (simp add: all_idle_def all_sides src_at_def dst_at_def at_stage_def filled_def)
qed

end
