(* ===== verification/Sample_Pair.thy ===== *)
theory Sample_Pair
  imports Two_Node_Runs Sample_Network
begin

text \<open>Two concrete nodes: A has two files to announce, the folder of B is empty.\<close>

definition pair_address :: "side \<Rightarrow> IpAddress" where
  "pair_address i = (case i of A \<Rightarrow> IpAddress 1 True | B \<Rightarrow> IpAddress 2 True)"

definition sample_pair :: "side \<Rightarrow> (wire_packet outbox, wire_packet rpeer, unit, wire_packet) platform" where
  "sample_pair i = server_platform\<lparr>udps := outbox_api wire_api, localAddress := pair_address i\<rparr>"

definition sample_end :: "fsnode \<Rightarrow> fileChangeData list \<Rightarrow> (wire_packet rpeer, unit, wire_packet) endpoint" where
  "sample_end fs buf =
     \<lparr>host = (sample_machine (fresh_rpeer) [] fs [])\<lparr>changeBuf := buf\<rparr>, negotiation = [], pc = Looping\<rparr>"

definition second_change :: fileChangeData where
  "second_change = \<lparr>filePath = backslash # wide ''b'', fileHash = 1, change = Addition\<rparr>"

definition pair_disk :: fsnode where
  "pair_disk = Dir [(wide ''C:'', Dir [(wide ''Users'', Dir [(wide ''u'', Dir [(wide ''Documents'',
     Dir [(wide ''S'', Dir [(wide ''a'', File [72])]), (wide ''b'', File [73, 74])])])])])]"

definition sample_job :: sync_job where
  "sample_job =
     \<lparr>src_dir = getDocumentsPath sample_usr, src_disk = pair_disk,
      dst_dir = getDocumentsPath sample_usr, dst_disk = empty_disk,
      requests =
        [\<lparr>rq_change = sample_change, rq_names = [wide ''S'', wide ''a''], rq_content = [72]\<rparr>,
         \<lparr>rq_change = second_change, rq_names = [wide ''b''], rq_content = [73, 74]\<rparr>]\<rparr>"

definition sample_network :: "(wire_packet rpeer, unit, wire_packet) network" where
  "sample_network =
     \<lparr>ends = (\<lambda>i. case i of A \<Rightarrow> sample_end pair_disk [sample_change, second_change] | B \<Rightarrow> sample_end empty_disk []),
      link = None\<rparr>"

lemma sample_net_ok: "net_ok sample_pair wire_api"
  by (simp add: net_ok_def sample_pair_def server_platform_def)

lemma sample_pair_address [simp]: "localAddress (sample_pair i) = pair_address i"
  by (simp add: sample_pair_def)

lemma second_change_ok: "change_ok second_change"
  by (simp add: change_ok_def second_change_def wide_def)

lemma second_change_sel [simp]:
  "filePath second_change = join [wide ''b'']" "change second_change = Addition" "names_ok [wide ''b'']"
  by code_simp+

lemma sample_apart: "apart [wide ''S'', wide ''a''] [wide ''b'']"
proof -
  have "wide ''S'' \<noteq> wide ''b''" by code_simp
  then show ?thesis by (auto simp: apart_def take_Cons split: nat.splits)
qed

lemma sample_place:
  assumes "cs \<noteq> []"
  shows "place_ok empty_disk (resolve (getDocumentsPath sample_usr) @ cs) \<and>
    file_at empty_disk (resolve (getDocumentsPath sample_usr) @ cs) = None"
  by (rule empty_place_ok [OF _ assms]) (simp add: sample_documents empty_disk_def)

lemma pair_disk_files:
  "file_at pair_disk (resolve (getDocumentsPath sample_usr) @ [wide ''S'', wide ''a'']) = Some [72]"
  "file_at pair_disk (resolve (getDocumentsPath sample_usr) @ [wide ''b'']) = Some [73, 74]"
  by (simp_all add: sample_documents file_at_iff pair_disk_def wide_def)

lemma sample_job_ok: "job_ok sample_job"
  unfolding job_ok_def
  by (simp add: sample_job_def job_changes_def changes_ok_def sample_change_ok second_change_ok request_ok_def
      sample_dir_path place_def apart_append sample_apart sample_place pair_disk_files sample_rel_join sample_names_ok)

lemma sample_pair_start: "sync_start sample_pair wire_api wire_holds sample_job sample_network"
  unfolding sync_start_def
  by (simp add: sample_net_ok wire.packet_laws_axioms sample_job_ok)
    (simp add: sample_network_def sample_job_def at_stage_def sample_end_def job_changes_def sample_machine_def)

end
