(* ===== verification/Two_Node_Claims.thy ===== *)
theory Two_Node_Claims
  imports Two_Node_Hazards Sample_Pair File_Transfer_Claims
begin

text \<open>
  What two running nodes reach together: the files of the one at the other, when only one has
  changes and every datagram arrives; a standstill, when both have, when a datagram is lost
  or when a client connects before the server listens.
\<close>

section \<open>Changes on one side\<close>

text \<open>C3 A announces additions or edits, no deletions, of files that B does not have; B announces nothing;
  every datagram arrives, and B connects when the server of A listens (what happens when it connects
  before, which the code allows, is \<open>early_connection_never_returns\<close>). However the two handlers, the
  network and the transfers interleave, the two nodes take at most three steps and for each file
  three a chunk and twelve, every run ends, and where it ends both handlers are idle with free
  locks, A's disk is as it was and B's files are those it had and the announced ones.\<close>

theorem two_nodes_synchronise:
  fixes E :: "side \<Rightarrow> ('p outbox, 's, 'l, 'p) platform"
  assumes "sync_start E P holds J s" "(timely_step E ^^ m) s t"
  shows "m \<le> 3 + (\<Sum>r\<leftarrow>requests J. file_cost r) \<and>
    (\<exists>u. (timely_step E)\<^sup>*\<^sup>* t u \<and> (\<nexists>v. timely_step E u v)) \<and>
    (\<forall>u. (timely_step E)\<^sup>*\<^sup>* t u \<longrightarrow> (\<nexists>v. timely_step E u v) \<longrightarrow> synced J u)"
proof -
  have s: "sync_run E P holds J s" using assms(1) by (rule sync_start_run)
  have "requests J \<noteq> []" using assms(1) by (simp add: sync_start_def job_ok_def)
  then have "net_weight J s = 3 + (\<Sum>r\<leftarrow>requests J. file_cost r)"
    using assms(1) by (simp add: sync_start_def net_weight_def src_weight_def dst_weight_def at_stage_def
        rest_cost_def job_changes_def)
  with two_nodes.steps_bounded [OF assms(2) s] have "m \<le> 3 + (\<Sum>r\<leftarrow>requests J. file_cost r)" by simp
  moreover have t: "sync_run E P holds J t"
    using two_nodes.inv_steps [OF relpowp_imp_rtranclp [OF assms(2)] s] .
  moreover have "synced J u" if "(timely_step E)\<^sup>*\<^sup>* t u" "\<nexists>v. timely_step E u v" for u
  proof -
    have "sync_run E P holds J u" using two_nodes.inv_steps [OF that(1) t] .
    with sync_progress that(2) obtain fs ng where "src_at J Looping [] u" "dst_at J fs Looping [] ng False u"
      "filled J (length (requests J)) fs" unfolding sync_run_def by blast
    then show ?thesis
      by (simp add: synced_def all_sides src_at_def dst_at_def at_stage_def filled_def place_def)
  qed
  ultimately show ?thesis using two_nodes.reaches_end [OF t] by blast
qed

theorem two_nodes_synchronise_witness:
  "\<exists>t. (timely_step sample_pair ^^ 1) sample_network t \<and>
    (\<exists>u. (timely_step sample_pair)\<^sup>*\<^sup>* t u \<and> (\<nexists>v. timely_step sample_pair u v) \<and> synced sample_job u)"
proof -
  from sample_pair_start have start: "net_ok sample_pair wire_api" "job_ok sample_job"
      "at_stage (src_dir sample_job) (src_disk sample_job) Looping [] [] (job_changes sample_job) False (ends sample_network A)"
      "at_stage (dst_dir sample_job) (dst_disk sample_job) Looping [] [] [] False (ends sample_network B)"
    by (simp_all add: sync_start_def)
  have "job_changes sample_job \<noteq> []" using start(2) by (simp add: job_ok_def job_changes_def)
  with move_announce [OF start(1), where i = A, unfolded other.simps, OF start(3) _ start(4)] obtain e where
    "handler_move (sample_pair A) (ends sample_network A) = Some (Inr e)" by blast
  then have "(timely_step sample_pair ^^ 1) sample_network (post sample_pair A e sample_network)"
    by (simp add: move eq_OO)
  with two_nodes_synchronise [OF sample_pair_start this] show ?thesis by blast
qed

section \<open>Changes on both sides\<close>

text \<open>C10 When both nodes announce changes, and each lacks the first file of the other, the two handlers
  can come to the point where each waits for the other's answer with \<open>dirLock\<close> taken. Neither
  ever moves again, whatever the users, the watchers and the network do.\<close>

theorem two_nodes_deadlock:
  fixes E :: "side \<Rightarrow> ('p outbox, 's, 'l, 'p) platform"
  assumes net: "net_ok E P" and laws: "packet_laws P holds"
    and start: "\<And>i. at_stage (d i) (fs i) Looping [] [] (c i # cs i) False (ends s i)"
    and changes: "\<And>i. changes_ok (c i # cs i)" "\<And>i. change (c i) \<noteq> Deletion"
    and missing: "\<And>i. already_have (E i) (host (ends s i)) (c (other i)) = Inr False"
  shows "\<exists>t. (timely_step E)\<^sup>*\<^sup>* s t \<and>
    (\<forall>u. (noisy_step E)\<^sup>*\<^sup>* t u \<longrightarrow> (\<forall>i. pc (ends u i) = Awaits (localAddress (E (other i))) (cs (other i)) \<and>
      dirLocked (host (ends u i))))"
proof -
  from both_nodes_ask [where d = d and fs = fs and c = c and cs = cs, OF net laws start changes missing]
  obtain t where "(timely_step E)\<^sup>*\<^sup>* s t"
    and t: "\<forall>i. waits_in_vain (ends t i)" "\<forall>i. pc (ends t i) = Awaits (localAddress (E (other i))) (cs (other i))"
    by blast
  moreover have "(\<forall>i. waits_in_vain (ends u i)) \<and> (\<forall>i. pc (ends u i) = pc (ends t i))"
    if "(noisy_step E)\<^sup>*\<^sup>* t u" for u using both_wait_for_ever [OF that t(1)] .
  ultimately show ?thesis using waits_in_vain_def by metis
qed

definition second_disk :: fsnode where
  "second_disk = Dir [(wide ''C:'', Dir [(wide ''Users'', Dir [(wide ''u'', Dir [(wide ''Documents'',
     Dir [(wide ''b'', File [73])])])])])]"

definition crossing_network :: "(wire_packet rpeer, unit, wire_packet) network" where
  "crossing_network =
     \<lparr>ends = (\<lambda>i. case i of A \<Rightarrow> sample_end (sample_fs [72]) [sample_change]
                         | B \<Rightarrow> sample_end second_disk [second_change]), link = None\<rparr>"

theorem two_nodes_deadlock_witness:
  "\<exists>t. (timely_step sample_pair)\<^sup>*\<^sup>* crossing_network t \<and>
    (\<forall>u. (noisy_step sample_pair)\<^sup>*\<^sup>* t u \<longrightarrow>
      (\<forall>i. pc (ends u i) = Awaits (pair_address (other i)) [] \<and> dirLocked (host (ends u i))))"
proof -
  let ?d = "\<lambda>_. getDocumentsPath sample_usr"
  let ?fs = "\<lambda>i. case i of A \<Rightarrow> sample_fs [72] | B \<Rightarrow> second_disk"
  let ?c = "\<lambda>i. case i of A \<Rightarrow> sample_change | B \<Rightarrow> second_change" and ?cs = "\<lambda>_. []"
  have start: "at_stage (?d i) (?fs i) Looping [] [] (?c i # ?cs i) False (ends crossing_network i)" for i
    by (cases i) (simp_all add: at_stage_def crossing_network_def sample_end_def sample_machine_def)
  have changes: "changes_ok (?c i # ?cs i)" "change (?c i) \<noteq> Deletion" for i
    by (cases i; simp add: changes_ok_def sample_change_ok second_change_ok)+
  have "already_have (sample_pair A) (host (ends crossing_network A)) second_change = Inr False"
    by (rule already_have_new [OF second_change_sel(1,3)])
      (simp_all add: crossing_network_def sample_end_def sample_documents file_at_def dir_at_def
        sample_fs_def sample_fs_for_def wide_def)
  moreover have "already_have (sample_pair B) (host (ends crossing_network B)) sample_change = Inr False"
    by (rule already_have_new [OF _ sample_names_ok])
      (simp_all add: crossing_network_def sample_end_def sample_rel_join sample_documents file_at_def dir_at_def
        second_disk_def wide_def)
  ultimately have "already_have (sample_pair i) (host (ends crossing_network i)) (?c (other i)) = Inr False" for i
    by (cases i) simp_all
  from two_nodes_deadlock [where d = ?d and fs = ?fs and c = ?c and cs = ?cs, OF sample_net_ok wire.packet_laws_axioms
      start changes this]
  show ?thesis by simp
qed

section \<open>A connection before the server listens\<close>

text \<open>C12 The server sends the details of the connection before it listens, and the client does not look
  at the result of its attempt to connect. On sockets on which nothing is received after a refused
  \<open>connect\<close>, a client that connects in between, as it can from every start of a synchronisation,
  goes into \<open>receiveFile\<close>, and that call does not return, whatever the other node, the users, the
  watchers and the network do: the thread stays there with \<open>dirLock\<close> taken.\<close>

theorem early_connection_never_returns:
  fixes E :: "side \<Rightarrow> ('p outbox, 's, 'l, 'p) platform"
  assumes start: "sync_start E P holds J s" and refuses: "refuses (tcp (E B)) gone"
  shows "\<exists>t path out server fcs. (net_step E)\<^sup>*\<^sup>* s t \<and> (\<exists>file. pc (ends t A) = Prepares file) \<and>
    (\<forall>u. (noisy_step E)\<^sup>*\<^sup>* t u \<longrightarrow> pc (ends u B) = Unconnected path out server fcs \<and> dirLocked (host (ends u B)) \<and>
      Node_receiveFile (E B) out (host (ends u B)) = None)"
proof -
  from sync_first_answer [OF start] obtain t f ip port path out server fcs where
    t: "(timely_step E)\<^sup>*\<^sup>* s t" "pc (ends t A) = Prepares f"
      "pc (ends t B) = Connects ip port path out server fcs" "dirLocked (host (ends t B))" by blast
  obtain ok n where n: "startClient (E B) ip port (host (ends t B)) = (ok, n)" by fastforce
  obtain c where c: "n = (host (ends t B))\<lparr>tcpClient := c\<rparr>" "gone (cl_socket c)"
    using startClient_refused [OF refuses n] by blast
  let ?c = "Unconnected path out server fcs"
  let ?t = "t\<lparr>ends := (ends t)(B := (ends t B)\<lparr>host := n, pc := ?c\<rparr>)\<rparr>"
  have "net_step E t ?t" using t(2) by (intro refused [where i = B and s = t and E = E, OF t(3) _ n]) simp
  with net_steps [OF t(1)] have "(net_step E)\<^sup>*\<^sup>* s ?t" by simp
  moreover have "\<exists>file. pc (ends ?t A) = Prepares file" using t(2) by simp
  moreover have "stranded gone ?c (ends ?t B)" using c t(4) by (simp add: stranded_def)
  moreover have pg: "peer_gone (tcp (E B)) gone" using refuses by (simp add: refuses_def)
  ultimately show ?thesis
    using stranded_for_ever [where E = E and j = B, OF _ pg] stranded_receives [OF pg] unfolding stranded_def by blast
qed

text \<open>The pair of nodes on sockets that refuse every connection.\<close>

definition refused_pair :: "side \<Rightarrow> (wire_packet outbox, wire_packet rpeer, unit, wire_packet) platform" where
  "refused_pair i = (sample_pair i)\<lparr>tcp := dead_api wire_api IpAddress_None\<rparr>"

lemma refused_pair_start: "sync_start refused_pair wire_api wire_holds sample_job sample_network"
  using sample_pair_start by (simp add: sync_start_def net_ok_def refused_pair_def)

theorem early_connection_never_returns_witness:
  "\<exists>t path out server fcs. (net_step refused_pair)\<^sup>*\<^sup>* sample_network t \<and> (\<exists>file. pc (ends t A) = Prepares file) \<and>
    (\<forall>u. (noisy_step refused_pair)\<^sup>*\<^sup>* t u \<longrightarrow> pc (ends u B) = Unconnected path out server fcs \<and>
      dirLocked (host (ends u B)) \<and> Node_receiveFile (refused_pair B) out (host (ends u B)) = None)"
  by (rule early_connection_never_returns [where gone = "\<lambda>_. True", OF refused_pair_start])
    (simp add: refuses_def peer_gone_def refused_pair_def dead_api_def)

section \<open>A lost datagram\<close>

text \<open>C13 One lost datagram is enough. From every start of a synchronisation the nodes come, without any
  loss, to the point where the first request is the only message before A and B waits for the
  answer; when that datagram is lost, B waits for ever, with \<open>dirLock\<close> taken, whatever is sent or
  done later. (Without the loss B gets the file: \<open>two_nodes_synchronise\<close>.)\<close>

theorem lost_datagram_blocks:
  fixes E :: "side \<Rightarrow> ('p outbox, 's, 'l, 'p) platform"
  assumes start: "sync_start E P holds J s"
  shows "\<exists>t. (timely_step E)\<^sup>*\<^sup>* s t \<and>
    todoUdp (host (ends t A)) = [request_message P (localAddress (E B)) (rq_change (requests J ! 0))] \<and>
    (let t' = t\<lparr>ends := (ends t)(A := (ends t A)\<lparr>host := (host (ends t A))\<lparr>todoUdp := []\<rparr>\<rparr>)\<rparr>
     in noisy_step E t t' \<and>
       (\<forall>u. (noisy_step E)\<^sup>*\<^sup>* t' u \<longrightarrow> is_awaiting (pc (ends u B)) \<and> dirLocked (host (ends u B))))"
proof -
  let ?m = "request_message P (localAddress (E B)) (rq_change (requests J ! 0))"
  from start have net: "net_ok E P" by (simp add: sync_start_def)
  from sync_first_request [OF start] obtain t where t: "(timely_step E)\<^sup>*\<^sup>* s t" "src_at J Looping [?m] t"
    "dst_at J (dst_disk J) (Awaits (localAddress (E A)) (drop (Suc 0) (job_changes J))) [] [] True t" by blast
  then have m: "todoUdp (host (ends t A)) = [] @ ?m # []" by (simp add: src_at_def at_stage_def)
  let ?t = "t\<lparr>ends := (ends t)(A := (ends t A)\<lparr>host := (host (ends t A))\<lparr>todoUdp := [] @ []\<rparr>\<rparr>)\<rparr>"
  have lost: "noisy_step E t ?t" by (rule lost_message [OF m])
  have "nobody_answers E ?t"
    using t(2,3) by (simp add: nobody_answers_def waits_in_vain_def is_awaiting_def src_at_def dst_at_def at_stage_def)
  then have "\<forall>u. (noisy_step E)\<^sup>*\<^sup>* ?t u \<longrightarrow> waits_in_vain (ends u B)"
    using nobody_answers_for_ever [OF _ net] nobody_answers_def by blast
  with t(1) m lost show ?thesis by (intro exI [of _ t]) (simp add: waits_in_vain_def)
qed

theorem lost_datagram_blocks_witness:
  "\<exists>t t'. (timely_step sample_pair)\<^sup>*\<^sup>* sample_network t \<and> noisy_step sample_pair t t' \<and>
    (\<forall>u. (noisy_step sample_pair)\<^sup>*\<^sup>* t' u \<longrightarrow> is_awaiting (pc (ends u B)) \<and> dirLocked (host (ends u B)))"
  using lost_datagram_blocks [OF sample_pair_start] unfolding Let_def by blast

end
