(* ===== verification/Threaded_Claims.thy ===== *)
theory Threaded_Claims
  imports Threaded_Runs Two_Node_Claims
begin

text \<open>
  Two computers with all their threads: a newcomer that meets a running node, two that start
  at the same time, and how the first refines the two nodes of Two\_Nodes.
\<close>

section \<open>A newcomer meets a node\<close>

text \<open>The files of a table as a job.\<close>

definition meeting_job :: "fsnode \<Rightarrow> wstring \<Rightarrow> hash_table \<Rightarrow> fsnode \<Rightarrow> wstring \<Rightarrow> sync_job" where
  "meeting_job fsA dA tb fsB dB =
     \<lparr>src_dir = dA, src_disk = fsA, dst_dir = dB, dst_disk = fsB, requests = map (request_of fsA dA) tb\<rparr>"

lemma meeting_job_sel [simp]:
  "src_dir (meeting_job fsA dA tb fsB dB) = dA" "src_disk (meeting_job fsA dA tb fsB dB) = fsA"
  "dst_dir (meeting_job fsA dA tb fsB dB) = dB" "dst_disk (meeting_job fsA dA tb fsB dB) = fsB"
  "requests (meeting_job fsA dA tb fsB dB) = map (request_of fsA dA) tb"
  by (simp_all add: meeting_job_def)

lemma rq_of [simp]:
  "rq_change (request_of fs d e) = addition_of e" "rq_names (request_of fs d e) = components (fst e)"
  "rq_content (request_of fs d e) = content_at fs d (fst e)"
  by (simp_all add: request_of_def)





section \<open>Sample computers\<close>

definition sample_computer :: "fsnode \<Rightarrow> hash_table \<Rightarrow> bool \<Rightarrow> (wire_packet rpeer, unit, wire_packet) computer" where
  "sample_computer fs tb g =
     \<lparr>core = sample_machine fresh_rpeer [] fs tb, arrived = [], replies = [], pcs = (\<lambda>_. Looping), greeted = g\<rparr>"

definition sample_lan :: "fsnode \<Rightarrow> hash_table \<Rightarrow> bool \<Rightarrow> fsnode \<Rightarrow> hash_table \<Rightarrow> (wire_packet rpeer, unit, wire_packet) lan" where
  "sample_lan fsA tbA g fsB tbB =
     \<lparr>computers = (\<lambda>i. case i of A \<Rightarrow> sample_computer fsA tbA g | B \<Rightarrow> sample_computer fsB tbB False), links = (\<lambda>_. None)\<rparr>"

lemma sample_computer_disc: "disc_at (getDocumentsPath sample_usr) fs tb g [] Looping False (sample_computer fs tb g)"
  by (simp add: disc_at_def at_stage_def sample_computer_def sample_machine_def fun_eq_iff)

lemma sample_not_own: "\<not> isMyOwn (sample_pair i) (localAddress (sample_pair (other i)))"
  by (cases i) (simp_all add: isMyOwn_def sample_pair_def server_platform_def pair_address_def host_string_def)


section \<open>Two computers start at the same time\<close>

text \<open>C11 Two computers whose threads have just started, each with a file that the other wants, can come
  to the point where both discover threads wait for the answer to a request that only the
  other discover thread could collect. No thread of either ever moves again, whatever the
  users, the watchers and the network do.\<close>

theorem simultaneous_start_deadlock:
  fixes E :: "side \<Rightarrow> ('p outbox, 's, 'l, 'p) platform"
  assumes net: "net_ok E P" "packet_laws P holds" "\<And>i. \<not> isMyOwn (E i) (localAddress (E (other i)))"
    and start: "\<And>i. just_started (d i) (fs i) (tb i) (computers s i)"
    and wanted: "\<And>i. requested_changes (tb i) (tb (other i)) True = fc i # fcs i" "\<And>i. change (fc i) \<noteq> Deletion"
    and missing: "\<And>i. already_have (E i) (core (computers s i)) (fc i) = Inr False"
  shows "\<exists>t. (lan_step E)\<^sup>*\<^sup>* s t \<and>
    (\<forall>u. (disturbed_step E)\<^sup>*\<^sup>* t u \<longrightarrow> (\<forall>i. dirLocked (core (computers u i)) \<and>
      pcs (computers u i) Discoverer = Awaits (localAddress (E (other i))) (fcs i) \<and>
      (\<forall>th. thread_move (E i) th (computers u i) = None)))"
proof -
  from both_discoverers_ask [where d = d and fs = fs and tb = tb and fc = fc and fcs = fcs, OF net start wanted missing]
  obtain t where "(lan_step E)\<^sup>*\<^sup>* s t" and t: "\<forall>i. nobody_collects (computers t i)"
    "\<forall>i. pcs (computers t i) Discoverer = Awaits (localAddress (E (other i))) (fcs i)" by blast
  moreover have "nobody_collects (computers u i) \<and> pcs (computers u i) = pcs (computers t i)"
    if "(disturbed_step E)\<^sup>*\<^sup>* t u" for u i using nobody_for_ever [OF that t(1)] by blast
  ultimately show ?thesis using nobody_moves unfolding nobody_collects_def by metis
qed

definition second_table :: hash_table where
  "second_table = [(backslash # wide ''b'', 1)]"

lemma sample_wanted:
  "requested_changes sample_table second_table True = [second_change]"
  "requested_changes second_table sample_table True = [sample_change]"
  unfolding sample_table_def sample_change_def sample_hash_def by code_simp+

lemma sample_starts: "just_started (getDocumentsPath sample_usr) fs tb (sample_computer fs tb False)"
  if "tb = sample_table \<or> tb = second_table"
  using that sample_computer_disc [of fs tb False] sample_rel_length
  by (auto simp: just_started_def sample_table_def second_table_def paths_ok_def map_ok_def wide_def)

theorem simultaneous_start_deadlock_witness:
  "\<exists>t. (lan_step sample_pair)\<^sup>*\<^sup>* (sample_lan (sample_fs [72]) sample_table False second_disk second_table) t \<and>
    (\<forall>u. (disturbed_step sample_pair)\<^sup>*\<^sup>* t u \<longrightarrow> (\<forall>i. dirLocked (core (computers u i)) \<and>
      (\<forall>th. thread_move (sample_pair i) th (computers u i) = None)))"
proof -
  let ?s = "sample_lan (sample_fs [72]) sample_table False second_disk second_table"
  let ?d = "\<lambda>_. getDocumentsPath sample_usr" and ?fs = "\<lambda>i. case i of A \<Rightarrow> sample_fs [72] | B \<Rightarrow> second_disk"
  let ?tb = "\<lambda>i. case i of A \<Rightarrow> sample_table | B \<Rightarrow> second_table"
  let ?fc = "\<lambda>i. case i of A \<Rightarrow> second_change | B \<Rightarrow> sample_change" and ?fcs = "\<lambda>_. []"
  have start: "just_started (?d i) (?fs i) (?tb i) (computers ?s i)" for i
    by (cases i) (simp_all add: sample_lan_def sample_starts)
  have wanted: "requested_changes (?tb i) (?tb (other i)) True = ?fc i # ?fcs i" "change (?fc i) \<noteq> Deletion" for i
    by (cases i; simp add: sample_wanted)+
  have "already_have (sample_pair A) (core (computers ?s A)) second_change = Inr False"
    by (rule already_have_new [OF second_change_sel(1,3)])
      (simp_all add: sample_lan_def sample_computer_def sample_documents file_at_def dir_at_def
        sample_fs_def sample_fs_for_def wide_def)
  moreover have "already_have (sample_pair B) (core (computers ?s B)) sample_change = Inr False"
    by (rule already_have_new [OF _ sample_names_ok])
      (simp_all add: sample_lan_def sample_computer_def sample_rel_join sample_documents file_at_def dir_at_def
        second_disk_def wide_def)
  ultimately have missing: "already_have (sample_pair i) (core (computers ?s i)) (?fc i) = Inr False" for i
    by (cases i) simp_all
  from simultaneous_start_deadlock [where d = ?d and fs = ?fs and tb = ?tb and fc = ?fc and fcs = ?fcs,
      OF sample_net_ok wire.packet_laws_axioms sample_not_own start wanted missing]
  show ?thesis by blast
qed

section \<open>The refinement\<close>

text \<open>While the newcomer fetches, its table manager and the node's handler are the two handlers of
  Two\_Nodes: every run of the two computers with all their threads is a run of the two nodes,
  at least half as long but for the datagrams that were pending.\<close>

theorem computers_refine_nodes:
  assumes "fetching E P holds J s" "(lan_step E ^^ n) s t"
  shows "\<exists>k. (timely_step E ^^ k) (abs_net s) (abs_net t) \<and> n + pending t \<le> 2 * k + pending s"
  using lan_net.simulated_run [OF assms(2,1)] by blast

definition fetching_lan :: "(wire_packet rpeer, unit, wire_packet) lan" where
  "fetching_lan =
     (let s = sample_lan pair_disk [] True empty_disk [];
          b = (computers s B)\<lparr>pcs := (\<lambda>_. Looping)(Table_manager := Requests (pair_address A) (job_changes sample_job)),
            greeted := True\<rparr>
      in s\<lparr>computers := (computers s)(B := b)\<rparr>)"

lemma fetching_sample: "fetching sample_pair wire_api wire_holds sample_job fetching_lan"
proof -
  have "src_at sample_job Looping [] (abs_net fetching_lan)"
    "dst_at sample_job empty_disk (Requests (localAddress (sample_pair A)) (drop 0 (job_changes sample_job))) [] [] False
      (abs_net fetching_lan)"
    by (simp_all add: src_at_def dst_at_def at_stage_def fetching_lan_def sample_lan_def sample_computer_def
        sample_machine_def Let_def sample_job_def)
  moreover have "filled sample_job 0 empty_disk"
    using filled_0 [OF sample_job_ok] by (simp add: sample_job_def)
  moreover have "quiet_link wire_api (abs_net fetching_lan)"
    by (simp add: quiet_link_def fetching_lan_def sample_lan_def Let_def)
  ultimately have "fetch_phase sample_pair wire_api wire_holds sample_job (abs_net fetching_lan)"
    by (intro fetch_phase.asking [where k = 0]) (simp_all add: src_free_def)
  moreover have "bystanders sample_pair fetching_lan"
    by (simp add: bystanders_def all_sides fetching_lan_def sample_lan_def sample_computer_def sample_machine_def Let_def)
  ultimately show ?thesis
    using sample_net_ok wire.packet_laws_axioms sample_job_ok sample_not_own [of A] by (simp add: fetching_def)
qed

theorem computers_refine_nodes_witness:
  "\<exists>t k. (lan_step sample_pair ^^ 1) fetching_lan t \<and>
    (timely_step sample_pair ^^ k) (abs_net fetching_lan) (abs_net t) \<and> 1 \<le> 2 * k"
proof -
  have lt: "0 < length (requests sample_job)" by (simp add: sample_job_def)
  have "drop 0 (job_changes sample_job) = sample_change # [second_change]"
    by (simp add: sample_job_def job_changes_def)
  then have "at_stage (dst_dir sample_job) empty_disk (Requests (pair_address A) [sample_change, second_change]) [] [] [] False
      (seen_by Table_manager (computers fetching_lan B))"
    by (simp add: at_stage_def fetching_lan_def sample_lan_def sample_computer_def sample_machine_def Let_def sample_job_def)
  moreover have "already_have (sample_pair B) (host (seen_by Table_manager (computers fetching_lan B))) sample_change = Inr False"
    by (rule already_have_new [OF _ sample_names_ok])
      (simp_all add: fetching_lan_def sample_lan_def sample_computer_def Let_def sample_rel_join sample_documents
        file_at_def dir_at_def empty_disk_def)
  ultimately obtain e where "handler_move (sample_pair B) (seen_by Table_manager (computers fetching_lan B)) = Some (Inr e)"
    using local_ask [OF sample_net_ok, where i = B] by fastforce
  moreover have "pcs (computers fetching_lan B) Table_manager \<noteq> Looping"
    by (simp add: fetching_lan_def sample_lan_def Let_def)
  ultimately have "thread_move (sample_pair B) Table_manager (computers fetching_lan B) =
      Some (Inr (put_back Table_manager e (computers fetching_lan B)))" by (intro thread_move_seen) simp_all
  then have step: "(lan_step sample_pair ^^ 1) fetching_lan
      (hand_over sample_pair B (put_back Table_manager e (computers fetching_lan B)) fetching_lan)"
    by (simp add: lan_step.thread eq_OO)
  have "pending fetching_lan = 0"
    by (simp add: pending_def fetching_lan_def sample_lan_def sample_computer_def Let_def)
  with computers_refine_nodes [OF fetching_sample step] step show ?thesis by fastforce
qed

end
