(* ===== verification/Sf_Utf.thy ===== *)
theory Sf_Utf
  imports Prelude
begin

text \<open>
  The Unicode conversions of \<open>SFML/System/Utf.inl\<close>: the classes \<open>Utf<8>\<close>,
  \<open>Utf<16>\<close> and \<open>Utf<32>\<close>. An input range \<open>[begin, end)\<close> is the list of the
  elements that are left, an output iterator the list of what was written so far, to
  whose end \<open>*output++ = c\<close> appends. \<open>decode\<close> reads \<open>*begin\<close> without a test; every
  caller has checked that it exists, so the model passes that element on its own.
\<close>

unbundle bit_operations_syntax

section \<open>UTF-8, one character\<close>

definition trailing :: "nat list" where
  "trailing = replicate 192 0 @ replicate 32 1 @ replicate 16 2 @ replicate 8 3 @ replicate 4 4
     @ replicate 4 5"

definition offsets :: "u32 list" where
  "offsets = [0x00000000, 0x00003080, 0x000E2080, 0x03C82080, 0xFA082080, 0x82082080]"

text \<open>The \<open>switch\<close> that falls through from \<open>case n\<close> to \<open>case 0\<close>. The guard of
  \<open>decode\<close> keeps it from reading behind the end.\<close>

fun gather :: "nat \<Rightarrow> u32 \<Rightarrow> u8 list \<Rightarrow> u32 \<times> u8 list" where
  "gather n output [] = (output, [])"
| "gather 0 output (b # bs) = (output + ucast b, bs)"
| "gather (Suc n) output (b # bs) = gather n (push_bit 6 (output + ucast b)) bs"

definition utf8_decode :: "u32 \<Rightarrow> u8 \<Rightarrow> u8 list \<Rightarrow> u32 \<times> u8 list" where
  "utf8_decode replacement b bs =
     (let trailingBytes = trailing ! unat b
      in if trailingBytes < length (b # bs)
         then (case gather trailingBytes 0 (b # bs) of
                 (output, rest) \<Rightarrow> (output - offsets ! trailingBytes, rest))
         else (replacement, []))"

definition firstBytes :: "u8 list" where
  "firstBytes = [0x00, 0x00, 0xC0, 0xE0, 0xF0, 0xF8, 0xFC]"

definition bytestoWrite :: "u32 \<Rightarrow> nat" where
  "bytestoWrite input =
     (if input < 0x80 then 1 else if input < 0x800 then 2 else if input < 0x10000 then 3
      else if input \<le> 0x0010FFFF then 4 else 1)"

text \<open>The \<open>switch\<close> of \<open>encode\<close>, from \<open>case n\<close> down to \<open>case 1\<close>: the bytes behind
  the one it writes are in \<open>later\<close>.\<close>

fun fill_bytes :: "nat \<Rightarrow> nat \<Rightarrow> u32 \<Rightarrow> u8 list \<Rightarrow> u8 list" where
  "fill_bytes k 0 input later = later"
| "fill_bytes k (Suc 0) input later = ucast (input OR ucast (firstBytes ! k)) # later"
| "fill_bytes k (Suc (Suc n)) input later =
     fill_bytes k (Suc n) (drop_bit 6 input) (ucast ((input OR 0x80) AND 0xBF) # later)"

definition replaced :: "'a::zero \<Rightarrow> 'a list \<Rightarrow> 'a list" where
  "replaced replacement output = (if replacement \<noteq> 0 then output @ [replacement] else output)"

definition utf8_encode :: "u8 \<Rightarrow> u32 \<Rightarrow> u8 list \<Rightarrow> u8 list" where
  "utf8_encode replacement input output =
     (if input > 0x0010FFFF \<or> (input \<ge> 0xD800 \<and> input \<le> 0xDBFF) then replaced replacement output
      else (let n = bytestoWrite input in output @ fill_bytes n n input []))"

section \<open>UTF-16, one character\<close>

definition utf16_decode :: "u32 \<Rightarrow> u16 \<Rightarrow> u16 list \<Rightarrow> u32 \<times> u16 list" where
  "utf16_decode replacement first us =
     (if first \<ge> 0xD800 \<and> first \<le> 0xDBFF
      then (case us of
              second # rest \<Rightarrow>
                (if second \<ge> 0xDC00 \<and> second \<le> 0xDFFF
                 then (push_bit 10 (ucast first - 0xD800) + (ucast second - 0xDC00) + 0x0010000, rest)
                 else (replacement, rest))
            | [] \<Rightarrow> (replacement, []))
      else (ucast first, us))"

definition utf16_encode :: "u16 \<Rightarrow> u32 \<Rightarrow> u16 list \<Rightarrow> u16 list" where
  "utf16_encode replacement input output =
     (if input \<le> 0xFFFF
      then (if input \<ge> 0xD800 \<and> input \<le> 0xDFFF then replaced replacement output
            else output @ [ucast input])
      else if input > 0x0010FFFF then replaced replacement output
      else (let v = input - 0x0010000
            in output @ [ucast (drop_bit 10 v + 0xD800), ucast ((v AND 0x3FF) + 0xDC00)]))"

section \<open>UTF-32, one character\<close>

definition utf32_decode :: "u32 \<Rightarrow> u32 \<Rightarrow> u32 list \<Rightarrow> u32 \<times> u32 list" where
  "utf32_decode replacement c cs = (c, cs)"

definition utf32_encode :: "u32 \<Rightarrow> u32 \<Rightarrow> u32 list \<Rightarrow> u32 list" where
  "utf32_encode replacement input output = output @ [input]"

definition decodeWide :: "wchar \<Rightarrow> u32" where
  "decodeWide c = ucast c"

text \<open>\<open>wchar_t\<close> has two bytes on Windows: the \<open>switch (sizeof(wchar_t))\<close> takes its default.\<close>

definition encodeWide :: "wchar \<Rightarrow> u32 \<Rightarrow> wchar list \<Rightarrow> wchar list" where
  "encodeWide replacement codepoint output =
     (if codepoint \<le> 0xFFFF \<and> (codepoint < 0xD800 \<or> codepoint > 0xDFFF)
      then output @ [ucast codepoint] else replaced replacement output)"

text \<open>The locale's facet is the standard library's: its two functions are a parameter. The
  program is built with Visual C++, so the branch for glibc++ is not compiled.\<close>

record ctype_facet =
  facet_widen :: "u8 \<Rightarrow> wchar"
  facet_narrow :: "wchar \<Rightarrow> u8 \<Rightarrow> u8"

definition decodeAnsi :: "ctype_facet \<Rightarrow> u8 \<Rightarrow> u32" where
  "decodeAnsi facet input = ucast (facet_widen facet input)"

definition encodeAnsi :: "ctype_facet \<Rightarrow> u8 \<Rightarrow> u32 \<Rightarrow> u8 list \<Rightarrow> u8 list" where
  "encodeAnsi facet replacement codepoint output =
     output @ [facet_narrow facet (ucast codepoint) replacement]"

section \<open>Loops over a range\<close>

lemma gather_shorter: "length (snd (gather n output bs)) \<le> length bs"
  by (induction n "output" bs rule: gather.induct) auto

lemma gather_reads: "bs \<noteq> [] \<Longrightarrow> length (snd (gather n output bs)) < length bs"
  by (cases bs; cases n) (auto simp: le_imp_less_Suc gather_shorter)

lemma utf8_decode_shorter: "length (snd (utf8_decode r b bs)) \<le> length bs"
  using gather_reads [of "b # bs"]
  by (auto simp: utf8_decode_def Let_def less_Suc_eq_le split: prod.split) (metis snd_conv)

lemma utf16_decode_shorter: "length (snd (utf16_decode r u us)) \<le> length us"
  by (auto simp: utf16_decode_def split: list.split)

text \<open>The loop \<open>while (begin < end) { begin = decode(begin, end, codepoint); ... }\<close>
  of the conversions, whose body does \<open>put\<close> with the code point.\<close>

function utf8_each :: "(u32 \<Rightarrow> 'o \<Rightarrow> 'o) \<Rightarrow> u8 list \<Rightarrow> 'o \<Rightarrow> 'o" where
  "utf8_each put [] output = output"
| "utf8_each put (b # bs) output =
     (case utf8_decode 0 b bs of (codepoint, rest) \<Rightarrow> utf8_each put rest (put codepoint output))"
  by pat_completeness auto
termination
  by (relation "measure (\<lambda>(_, bs, _). length bs)")
    (auto simp: less_Suc_eq_le, metis snd_conv utf8_decode_shorter)

function utf16_each :: "(u32 \<Rightarrow> 'o \<Rightarrow> 'o) \<Rightarrow> u16 list \<Rightarrow> 'o \<Rightarrow> 'o" where
  "utf16_each put [] output = output"
| "utf16_each put (u # us) output =
     (case utf16_decode 0 u us of (codepoint, rest) \<Rightarrow> utf16_each put rest (put codepoint output))"
  by pat_completeness auto
termination
  by (relation "measure (\<lambda>(_, us, _). length us)")
    (auto simp: less_Suc_eq_le, metis snd_conv utf16_decode_shorter)

text \<open>The loop \<open>while (begin < end) output = ...(*begin++, output)\<close>.\<close>

fun each_unit :: "('a \<Rightarrow> 'o \<Rightarrow> 'o) \<Rightarrow> 'a list \<Rightarrow> 'o \<Rightarrow> 'o" where
  "each_unit put [] output = output"
| "each_unit put (c # cs) output = each_unit put cs (put c output)"

definition utf8_next :: "u8 \<Rightarrow> u8 list \<Rightarrow> u8 list" where
  "utf8_next b bs = snd (utf8_decode 0 b bs)"

definition utf16_next :: "u16 \<Rightarrow> u16 list \<Rightarrow> u16 list" where
  "utf16_next u us = snd (utf16_decode 0 u us)"

definition utf32_next :: "u32 \<Rightarrow> u32 list \<Rightarrow> u32 list" where
  "utf32_next c cs = cs"

function utf8_count :: "u8 list \<Rightarrow> u32" where
  "utf8_count [] = 0"
| "utf8_count (b # bs) = 1 + utf8_count (utf8_next b bs)"
  by pat_completeness auto
termination
  by (relation "measure length") (auto simp: utf8_next_def less_Suc_eq_le utf8_decode_shorter)

function utf16_count :: "u16 list \<Rightarrow> u32" where
  "utf16_count [] = 0"
| "utf16_count (u # us) = 1 + utf16_count (utf16_next u us)"
  by pat_completeness auto
termination
  by (relation "measure length") (auto simp: utf16_next_def less_Suc_eq_le utf16_decode_shorter)

text \<open>The subtraction is \<open>begin - end\<close>, as in the source, in a 32-bit \<open>std::size_t\<close>:
  with \<open>end = begin + n\<close> it is \<open>- n\<close>.\<close>

definition utf32_count :: "u32 list \<Rightarrow> u32" where
  "utf32_count cs = 0 - word_of_nat (length cs)"

section \<open>Conversions\<close>

text \<open>An argument of type \<open>char\<close> or \<open>wchar_t\<close> is converted to \<open>Uint32\<close> when it is
  passed on: \<open>char\<close> is signed, so it is sign-extended. \<open>latin1\<close> is that conversion for
  the element type of the range.\<close>

definition char_to_Uint32 :: "u8 \<Rightarrow> u32" where
  "char_to_Uint32 c = scast c"

definition utf8_fromAnsi :: "ctype_facet \<Rightarrow> u8 list \<Rightarrow> u8 list \<Rightarrow> u8 list" where
  "utf8_fromAnsi facet cs output = each_unit (\<lambda>c. utf8_encode 0 (decodeAnsi facet c)) cs output"

definition utf8_fromWide :: "wchar list \<Rightarrow> u8 list \<Rightarrow> u8 list" where
  "utf8_fromWide cs output = each_unit (\<lambda>c. utf8_encode 0 (decodeWide c)) cs output"

definition utf8_fromLatin1 :: "('a \<Rightarrow> u32) \<Rightarrow> 'a list \<Rightarrow> u8 list \<Rightarrow> u8 list" where
  "utf8_fromLatin1 latin1 cs output = each_unit (\<lambda>c. utf8_encode 0 (latin1 c)) cs output"

definition utf8_toAnsi :: "ctype_facet \<Rightarrow> u8 \<Rightarrow> u8 list \<Rightarrow> u8 list \<Rightarrow> u8 list" where
  "utf8_toAnsi facet replacement bs output = utf8_each (encodeAnsi facet replacement) bs output"

definition utf8_toWide :: "wchar \<Rightarrow> u8 list \<Rightarrow> wchar list \<Rightarrow> wchar list" where
  "utf8_toWide replacement bs output = utf8_each (encodeWide replacement) bs output"

definition latin1_char :: "u8 \<Rightarrow> u32 \<Rightarrow> u8" where
  "latin1_char replacement codepoint = (if codepoint < 256 then ucast codepoint else replacement)"

definition utf8_toLatin1 :: "u8 \<Rightarrow> u8 list \<Rightarrow> u8 list \<Rightarrow> u8 list" where
  "utf8_toLatin1 replacement bs output =
     utf8_each (\<lambda>codepoint out. out @ [latin1_char replacement codepoint]) bs output"

definition utf8_toUtf8 :: "u8 list \<Rightarrow> u8 list \<Rightarrow> u8 list" where
  "utf8_toUtf8 bs output = output @ bs"

definition utf8_toUtf16 :: "u8 list \<Rightarrow> u16 list \<Rightarrow> u16 list" where
  "utf8_toUtf16 bs output = utf8_each (utf16_encode 0) bs output"

definition utf8_toUtf32 :: "u8 list \<Rightarrow> u32 list \<Rightarrow> u32 list" where
  "utf8_toUtf32 bs output = utf8_each (\<lambda>codepoint out. out @ [codepoint]) bs output"

definition utf16_fromAnsi :: "ctype_facet \<Rightarrow> u8 list \<Rightarrow> u16 list \<Rightarrow> u16 list" where
  "utf16_fromAnsi facet cs output = each_unit (\<lambda>c. utf16_encode 0 (decodeAnsi facet c)) cs output"

definition utf16_fromWide :: "wchar list \<Rightarrow> u16 list \<Rightarrow> u16 list" where
  "utf16_fromWide cs output = each_unit (\<lambda>c. utf16_encode 0 (decodeWide c)) cs output"

text \<open>\<open>std::copy\<close> converts each element to the element type of the output.\<close>

definition utf16_fromLatin1 :: "('a \<Rightarrow> u16) \<Rightarrow> 'a list \<Rightarrow> u16 list \<Rightarrow> u16 list" where
  "utf16_fromLatin1 latin1 cs output = output @ map latin1 cs"

definition utf16_toAnsi :: "ctype_facet \<Rightarrow> u8 \<Rightarrow> u16 list \<Rightarrow> u8 list \<Rightarrow> u8 list" where
  "utf16_toAnsi facet replacement us output = utf16_each (encodeAnsi facet replacement) us output"

definition utf16_toWide :: "wchar \<Rightarrow> u16 list \<Rightarrow> wchar list \<Rightarrow> wchar list" where
  "utf16_toWide replacement us output = utf16_each (encodeWide replacement) us output"

text \<open>This one looks at the code units themselves, not at code points.\<close>

definition utf16_toLatin1 :: "u8 \<Rightarrow> u16 list \<Rightarrow> u8 list \<Rightarrow> u8 list" where
  "utf16_toLatin1 replacement us output =
     each_unit (\<lambda>u out. out @ [if u < 256 then ucast u else replacement]) us output"

definition utf16_toUtf8 :: "u16 list \<Rightarrow> u8 list \<Rightarrow> u8 list" where
  "utf16_toUtf8 us output = utf16_each (utf8_encode 0) us output"

definition utf16_toUtf16 :: "u16 list \<Rightarrow> u16 list \<Rightarrow> u16 list" where
  "utf16_toUtf16 us output = output @ us"

definition utf16_toUtf32 :: "u16 list \<Rightarrow> u32 list \<Rightarrow> u32 list" where
  "utf16_toUtf32 us output = utf16_each (\<lambda>codepoint out. out @ [codepoint]) us output"

definition utf32_fromAnsi :: "ctype_facet \<Rightarrow> u8 list \<Rightarrow> u32 list \<Rightarrow> u32 list" where
  "utf32_fromAnsi facet cs output = each_unit (\<lambda>c out. out @ [decodeAnsi facet c]) cs output"

definition utf32_fromWide :: "wchar list \<Rightarrow> u32 list \<Rightarrow> u32 list" where
  "utf32_fromWide cs output = each_unit (\<lambda>c out. out @ [decodeWide c]) cs output"

definition utf32_fromLatin1 :: "('a \<Rightarrow> u32) \<Rightarrow> 'a list \<Rightarrow> u32 list \<Rightarrow> u32 list" where
  "utf32_fromLatin1 latin1 cs output = output @ map latin1 cs"

definition utf32_toAnsi :: "ctype_facet \<Rightarrow> u8 \<Rightarrow> u32 list \<Rightarrow> u8 list \<Rightarrow> u8 list" where
  "utf32_toAnsi facet replacement cs output = each_unit (encodeAnsi facet replacement) cs output"

definition utf32_toWide :: "wchar \<Rightarrow> u32 list \<Rightarrow> wchar list \<Rightarrow> wchar list" where
  "utf32_toWide replacement cs output = each_unit (encodeWide replacement) cs output"

definition utf32_toLatin1 :: "u8 \<Rightarrow> u32 list \<Rightarrow> u8 list \<Rightarrow> u8 list" where
  "utf32_toLatin1 replacement cs output =
     each_unit (\<lambda>c out. out @ [latin1_char replacement c]) cs output"

definition utf32_toUtf8 :: "u32 list \<Rightarrow> u8 list \<Rightarrow> u8 list" where
  "utf32_toUtf8 cs output = each_unit (utf8_encode 0) cs output"

definition utf32_toUtf16 :: "u32 list \<Rightarrow> u16 list \<Rightarrow> u16 list" where
  "utf32_toUtf16 cs output = each_unit (utf16_encode 0) cs output"

definition utf32_toUtf32 :: "u32 list \<Rightarrow> u32 list \<Rightarrow> u32 list" where
  "utf32_toUtf32 cs output = output @ cs"

section \<open>String\<close>

text \<open>The factory functions of \<open>SFML/System/String.inl\<close>; \<open>m_string\<close> holds UTF-32.\<close>

definition String_fromUtf8 :: "u8 list \<Rightarrow> u32 list" where
  "String_fromUtf8 bs = utf8_toUtf32 bs []"

definition String_fromUtf16 :: "u16 list \<Rightarrow> u32 list" where
  "String_fromUtf16 us = utf16_toUtf32 us []"

definition String_fromUtf32 :: "u32 list \<Rightarrow> u32 list" where
  "String_fromUtf32 cs = cs"

end
