(* ===== verification/Sf_Utf_Proofs.thy ===== *)
theory Sf_Utf_Proofs
  imports Sf_Utf
begin

text \<open>
  The proofs about \<open>Utf.inl\<close>: the bytes that \<open>Utf<8>::encode\<close> writes are those of the
  table in the Unicode standard (\<open>utf8_bytes\<close>, on numbers), \<open>decode\<close> undoes \<open>encode\<close>
  in both encodings, and a conversion loop run over encoded characters does its body once
  for each of them.
\<close>

unbundle bit_operations_syntax

section \<open>Bits of a byte\<close>

lemma unat_or_disjoint: "x AND y = 0 \<Longrightarrow> unat (x OR y) = unat x + unat (y :: 'a::len word)"
  by (metis disjunctive_add_eq_or unsigned_and_eq unsigned_or_eq unsigned_0)

lemma low_disjoint: "unat x < 2 ^ n \<Longrightarrow> (x :: 'a::len word) AND push_bit n y = 0"
proof -
  assume a: "unat x < 2 ^ n"
  have "take_bit n x = x"
    using a by (simp add: word_unat_eq_iff unsigned_take_bit_eq take_bit_nat_eq_self)
  then have "x AND push_bit n y = take_bit n x AND push_bit n y" by simp
  also have "\<dots> = 0" by (rule bit_eqI) (auto simp: bit_simps)
  finally show ?thesis .
qed

lemma unat_and_63: "unat ((x :: u32) AND 63) = unat x mod 64"
proof -
  have "x AND 63 = take_bit 6 x" by (simp add: take_bit_eq_mask mask_numeral)
  then show ?thesis by (simp only: unsigned_take_bit_eq) (simp add: take_bit_eq_mod)
qed

lemma continuation_bits: "((x :: u32) OR 0x80) AND 0xBF = (x AND 63) OR 0x80"
proof -
  have "(x OR 0x80) AND 0xBF = (x AND 0xBF) OR (0x80 AND 0xBF)"
    by (rule bit.conj_disj_distrib2)
  also have "x AND 0xBF = (x AND 63) OR (x AND 0x80)"
    by (simp flip: bit.conj_disj_distrib)
  finally show ?thesis by (simp add: or.assoc)
qed

lemma unat_continuation: "unat (ucast (((x :: u32) OR 0x80) AND 0xBF) :: u8) = 0x80 + unat x mod 64"
proof -
  have "unat (x AND 63 OR 0x80) = unat x mod 64 + 0x80"
    using low_disjoint [of "x AND 63" 7 1]
    by (subst unat_or_disjoint) (simp_all add: unat_and_63 push_bit_eq_mult)
  moreover have "unat x mod 64 < 64" by simp
  ultimately show ?thesis by (simp add: continuation_bits unsigned_ucast_eq take_bit_nat_eq_self)
qed

lemma unat_leading:
  assumes "unat (x :: u32) < 2 ^ n" and "unat (push_bit n y) + unat x < 256"
  shows "unat (ucast (x OR push_bit n y) :: u8) = unat (push_bit n y) + unat x"
proof -
  have "unat (x OR push_bit n y) = unat x + unat (push_bit n y)"
    using low_disjoint [OF assms(1), of y] by (simp add: unat_or_disjoint)
  with assms(2) show ?thesis by (simp add: unsigned_ucast_eq take_bit_nat_eq_self)
qed

lemma unat_leading_bytes:
  "unat x < 32 \<Longrightarrow> unat (ucast ((x :: u32) OR 0xC0) :: u8) = 0xC0 + unat x"
  "unat x < 16 \<Longrightarrow> unat (ucast ((x :: u32) OR 0xE0) :: u8) = 0xE0 + unat x"
  "unat x < 8 \<Longrightarrow> unat (ucast ((x :: u32) OR 0xF0) :: u8) = 0xF0 + unat x"
  using unat_leading [of x 5 6] unat_leading [of x 5 7] unat_leading [of x 4 15]
  by (simp_all add: push_bit_eq_mult)

section \<open>The bytes of a character\<close>

text \<open>The reference: the UTF-8 bit distribution table, for a code point as a number.\<close>

fun utf8_bytes :: "nat \<Rightarrow> nat list" where
  "utf8_bytes n =
     (if n < 0x80 then [n]
      else if n < 0x800 then [0xC0 + n div 64, 0x80 + n mod 64]
      else if n < 0x10000 then [0xE0 + n div 4096, 0x80 + n div 64 mod 64, 0x80 + n mod 64]
      else [0xF0 + n div 262144, 0x80 + n div 4096 mod 64, 0x80 + n div 64 mod 64, 0x80 + n mod 64])"

declare utf8_bytes.simps [simp del]

definition utf8_of :: "u32 \<Rightarrow> u8 list" where
  "utf8_of c = fill_bytes (bytestoWrite c) (bytestoWrite c) c []"

lemma unat_drop_bit: "unat (drop_bit n (w :: 'a::len word)) = unat w div 2 ^ n"
  by (subst unsigned_drop_bit_eq) (simp add: drop_bit_eq_div take_bit_nat_eq_self unat_bound)

lemma fill_bytes_numeral:
  "fill_bytes k 1 w later = ucast (w OR ucast (firstBytes ! k)) # later"
  "fill_bytes k 2 w later = fill_bytes k 1 (drop_bit 6 w) (ucast ((w OR 0x80) AND 0xBF) # later)"
  "fill_bytes k 3 w later = fill_bytes k 2 (drop_bit 6 w) (ucast ((w OR 0x80) AND 0xBF) # later)"
  "fill_bytes k 4 w later = fill_bytes k 3 (drop_bit 6 w) (ucast ((w OR 0x80) AND 0xBF) # later)"
  by (simp_all only: fill_bytes.simps numeral_2_eq_2 numeral_3_eq_3 eval_nat_numeral One_nat_def BitM.simps)

lemma firstBytes_nth:
  "ucast (firstBytes ! 1) = (0 :: u32)" "ucast (firstBytes ! 2) = (0xC0 :: u32)"
  "ucast (firstBytes ! 3) = (0xE0 :: u32)" "ucast (firstBytes ! 4) = (0xF0 :: u32)"
  by (simp_all add: firstBytes_def)

lemma bytestoWrite_unat:
  "bytestoWrite c = (let n = unat c in if n < 0x80 then 1 else if n < 0x800 then 2
     else if n < 0x10000 then 3 else if n \<le> 0x10FFFF then 4 else 1)"
  by (simp add: bytestoWrite_def word_less_nat_alt word_le_nat_alt Let_def)

lemma utf8_of_bytes:
  assumes "c \<le> 0x10FFFF"
  shows "map unat (utf8_of c) = utf8_bytes (unat c)"
proof -
  have n: "unat c \<le> 0x10FFFF" using assms by (simp add: word_le_nat_alt)
  consider "unat c < 0x80" | "0x80 \<le> unat c" "unat c < 0x800" | "0x800 \<le> unat c" "unat c < 0x10000"
    | "0x10000 \<le> unat c" by linarith
  then show ?thesis
  proof cases
    case 1
    then show ?thesis
      by (simp add: utf8_of_def bytestoWrite_unat utf8_bytes.simps fill_bytes_numeral firstBytes_nth
         unsigned_ucast_eq take_bit_nat_eq_self del: One_nat_def fill_bytes.simps)
  next
    case 2
    then show ?thesis
      by (simp add: utf8_of_def bytestoWrite_unat utf8_bytes.simps fill_bytes_numeral firstBytes_nth
        unat_leading_bytes unat_continuation unat_drop_bit del: One_nat_def fill_bytes.simps)
  next
    case 3
    then show ?thesis
      by (simp add: utf8_of_def bytestoWrite_unat utf8_bytes.simps fill_bytes_numeral firstBytes_nth
        unat_leading_bytes unat_continuation unat_drop_bit div_mult2_eq [symmetric] del: One_nat_def fill_bytes.simps)
  next
    case 4
    with n show ?thesis
      by (simp add: utf8_of_def bytestoWrite_unat utf8_bytes.simps fill_bytes_numeral firstBytes_nth
        unat_leading_bytes unat_continuation unat_drop_bit div_mult2_eq [symmetric] del: One_nat_def fill_bytes.simps)
  qed
qed

section \<open>Decoding what was encoded\<close>

lemma trailing_nth:
  "n < 256 \<Longrightarrow> trailing ! n = (if n < 192 then 0 else if n < 224 then 1 else if n < 240 then 2
     else if n < 248 then 3 else if n < 252 then 4 else 5)"
  by (simp add: trailing_def nth_append) linarith

lemma gather_numeral:
  "gather 1 w (b # bs) = gather 0 (push_bit 6 (w + ucast b)) bs"
  "gather 2 w (b # bs) = gather 1 (push_bit 6 (w + ucast b)) bs"
  "gather 3 w (b # bs) = gather 2 (push_bit 6 (w + ucast b)) bs"
  by (simp_all only: gather.simps numeral_2_eq_2 numeral_3_eq_3 One_nat_def)

lemma ucast_of_unat: "unat b = n \<Longrightarrow> (ucast b :: u32) = word_of_nat n" for b :: "'a::len word"
  by auto

lemma offsets_nth:
  "offsets ! 0 = 0" "offsets ! 1 = 0x3080" "offsets ! 2 = 0xE2080" "offsets ! 3 = 0x3C82080"
  by (simp_all add: offsets_def)

lemma shift_in: "push_bit 6 (word_of_nat a) + word_of_nat b = (word_of_nat (64 * a + b) :: u32)"
  by (simp add: push_bit_eq_mult)

lemma minus_offset: "m = unat c + unat k \<Longrightarrow> word_of_nat m - k = (c :: u32)"
  by simp

lemma two_digits: "64 * (n div 64) + n mod 64 = (n :: nat)"
  by simp

lemma utf8_decode_of:
  assumes "c \<le> 0x10FFFF"
  shows "\<exists>b bs. utf8_of c = b # bs \<and> utf8_decode r b (bs @ rest) = (c, rest)"
proof -
  let ?n = "unat c"
  have n: "?n \<le> 0x10FFFF" using assms by (simp add: word_le_nat_alt)
  have bytes: "map unat (utf8_of c) = utf8_bytes ?n" by (rule utf8_of_bytes [OF assms])
  have digits: "64 * (?n div 64) + ?n mod 64 = ?n" "64 * (?n div 4096) + ?n div 64 mod 64 = ?n div 64"
    "64 * (?n div 262144) + ?n div 4096 mod 64 = ?n div 4096"
    using two_digits [of ?n] two_digits [of "?n div 64"] two_digits [of "?n div 4096"]
    by (simp_all add: div_mult2_eq [symmetric])
  consider "?n < 0x80" | "0x80 \<le> ?n" "?n < 0x800" | "0x800 \<le> ?n" "?n < 0x10000"
    | "0x10000 \<le> ?n" by linarith
  then show ?thesis
  proof cases
    case 1
    with bytes obtain b where "utf8_of c = [b]" "unat b = ?n"
      by (auto simp: utf8_bytes.simps)
    with 1 show ?thesis
      by (simp add: utf8_decode_def trailing_nth ucast_of_unat offsets_nth)
  next
    case 2
    with bytes obtain b b1 where b: "utf8_of c = [b, b1]" "unat b = 0xC0 + ?n div 64" "unat b1 = 0x80 + ?n mod 64"
      by (auto simp: utf8_bytes.simps)
    have "64 * (0xC0 + ?n div 64) + (0x80 + ?n mod 64) = ?n + unat (0x3080 :: u32)"
      using digits by simp
    then have "push_bit 6 (ucast b) + ucast b1 - 0x3080 = c"
      by (simp only: ucast_of_unat [OF b(2)] ucast_of_unat [OF b(3)] shift_in minus_offset)
    moreover from 2 b have "trailing ! unat b = 1" by (simp add: trailing_nth)
    ultimately show ?thesis
      using offsets_nth(2) by (simp add: b(1) utf8_decode_def)
  next
    case 3
    with bytes obtain b b1 b2 where b: "utf8_of c = [b, b1, b2]" "unat b = 0xE0 + ?n div 4096"
        "unat b1 = 0x80 + ?n div 64 mod 64" "unat b2 = 0x80 + ?n mod 64"
      by (auto simp: utf8_bytes.simps)
    have "64 * (64 * (0xE0 + ?n div 4096) + (0x80 + ?n div 64 mod 64)) + (0x80 + ?n mod 64) = ?n + unat (0xE2080 :: u32)"
      using digits by simp
    then have "push_bit 6 (push_bit 6 (ucast b) + ucast b1) + ucast b2 - 0xE2080 = c"
      by (simp only: ucast_of_unat [OF b(2)] ucast_of_unat [OF b(3)] ucast_of_unat [OF b(4)] shift_in minus_offset)
    moreover from 3 b have "trailing ! unat b = 2" by (simp add: trailing_nth)
    ultimately show ?thesis
      using offsets_nth by (simp add: b(1) utf8_decode_def gather_numeral)
  next
    case 4
    with bytes obtain b b1 b2 b3 where b: "utf8_of c = [b, b1, b2, b3]" "unat b = 0xF0 + ?n div 262144"
        "unat b1 = 0x80 + ?n div 4096 mod 64" "unat b2 = 0x80 + ?n div 64 mod 64" "unat b3 = 0x80 + ?n mod 64"
      by (auto simp: utf8_bytes.simps)
    have "64 * (64 * (64 * (0xF0 + ?n div 262144) + (0x80 + ?n div 4096 mod 64)) + (0x80 + ?n div 64 mod 64)) + (0x80 + ?n mod 64) = ?n + unat (0x3C82080 :: u32)"
      using digits by simp
    then have "push_bit 6 (push_bit 6 (push_bit 6 (ucast b) + ucast b1) + ucast b2) + ucast b3 - 0x3C82080 = c"
      by (simp only: ucast_of_unat [OF b(2)] ucast_of_unat [OF b(3)] ucast_of_unat [OF b(4)] ucast_of_unat [OF b(5)] shift_in minus_offset)
    moreover from 4 n b have "trailing ! unat b = 3" by (simp add: trailing_nth)
    ultimately show ?thesis
      using offsets_nth by (simp add: b(1) utf8_decode_def gather_numeral)
  qed
qed

definition scalar :: "u32 \<Rightarrow> bool" where
  "scalar c = (c \<le> 0x10FFFF \<and> \<not> (0xD800 \<le> c \<and> c \<le> 0xDFFF))"

definition utf16_of :: "u32 \<Rightarrow> u16 list" where
  "utf16_of c = utf16_encode 0 c []"

lemma utf8_encode_of:
  "c \<le> 0x10FFFF \<Longrightarrow> \<not> (0xD800 \<le> c \<and> c \<le> 0xDBFF) \<Longrightarrow> utf8_encode r c out = out @ utf8_of c"
  by (auto simp: utf8_encode_def utf8_of_def Let_def)

lemma utf8_encode_scalar: "scalar c \<Longrightarrow> utf8_encode r c out = out @ utf8_of c"
  by (rule utf8_encode_of) (auto simp: scalar_def word_le_nat_alt)

lemma utf16_encode_scalar: "scalar c \<Longrightarrow> utf16_encode r c out = out @ utf16_of c"
  by (auto simp: scalar_def utf16_of_def utf16_encode_def Let_def)

lemma take_bit_16_small: "unat (c :: u32) < 2 ^ 16 \<Longrightarrow> take_bit 16 c = c"
  by (simp add: word_unat_eq_iff unsigned_take_bit_eq take_bit_nat_eq_self)

lemma unat_and_3FF: "unat ((x :: u32) AND 0x3FF) = unat x mod 1024"
proof -
  have "x AND 0x3FF = take_bit 10 x" by (simp add: take_bit_eq_mask mask_numeral)
  then show ?thesis by (simp only: unsigned_take_bit_eq) (simp add: take_bit_eq_mod)
qed

lemma surrogates_unat:
  fixes v :: u32
  assumes "unat v < 0x100000"
  shows "unat (ucast (drop_bit 10 v + 0xD800) :: u16) = 0xD800 + unat v div 1024"
    and "unat (ucast ((v AND 0x3FF) + 0xDC00) :: u16) = 0xDC00 + unat v mod 1024"
proof -
  have "unat v div 1024 < 1024" using assms by linarith
  then show "unat (ucast (drop_bit 10 v + 0xD800) :: u16) = 0xD800 + unat v div 1024"
    by (simp add: unsigned_ucast_eq unat_word_ariths unat_drop_bit take_bit_nat_eq_self)
  have "unat v mod 1024 < 1024" by simp
  then show "unat (ucast ((v AND 0x3FF) + 0xDC00) :: u16) = 0xDC00 + unat v mod 1024"
    by (simp add: unsigned_ucast_eq unat_word_ariths unat_and_3FF take_bit_nat_eq_self)
qed

lemma utf16_decode_of:
  assumes "scalar c"
  shows "\<exists>u us. utf16_of c = u # us \<and> utf16_decode r u (us @ rest) = (c, rest)"
proof (cases "c \<le> 0xFFFF")
  case True
  then have "unat c < 2 ^ 16" by (simp add: word_le_nat_alt)
  with True assms show ?thesis
    by (auto simp: scalar_def utf16_of_def utf16_encode_def utf16_decode_def take_bit_16_small
      word_le_nat_alt unsigned_ucast_eq take_bit_nat_eq_self)
next
  case False
  define v where "v = c - 0x10000"
  have c: "unat c \<le> 0x10FFFF" "0x10000 \<le> unat c"
    using assms False by (simp_all add: scalar_def word_le_nat_alt)
  then have v: "unat v < 0x100000" and cv: "unat c = unat v + 0x10000"
    by (simp_all add: v_def unat_sub word_le_nat_alt)
  let ?u = "ucast (drop_bit 10 v + 0xD800) :: u16" and ?w = "ucast ((v AND 0x3FF) + 0xDC00) :: u16"
  have "unat v div 1024 < 1024" "unat v mod 1024 < 1024" using v by linarith simp
  with surrogates_unat [OF v] have u: "0xD800 \<le> ?u" "?u \<le> 0xDBFF" "0xDC00 \<le> ?w" "?w \<le> 0xDFFF"
    by (simp_all add: word_le_nat_alt)
  have "push_bit 10 (ucast ?u - 0xD800) + (ucast ?w - 0xDC00) + 0x10000 = c"
  proof -
    have "ucast ?u = (word_of_nat (0xD800 + unat v div 1024) :: u32)"
      "ucast ?w = (word_of_nat (0xDC00 + unat v mod 1024) :: u32)"
      using surrogates_unat [OF v] by (simp_all only: ucast_of_unat)
    moreover have "word_of_nat (unat v div 1024) * 1024 + word_of_nat (unat v mod 1024) = v"
      using arg_cong [OF div_mult_mod_eq [of "unat v" 1024], of "word_of_nat :: nat \<Rightarrow> u32"]
      by (simp only: of_nat_add of_nat_mult) simp
    moreover have "c = v + 0x10000" by (simp add: v_def)
    ultimately show ?thesis by (simp add: push_bit_eq_mult)
  qed
  with u have "utf16_decode r ?u (?w # rest) = (c, rest)"
    by (simp add: utf16_decode_def)
  moreover have "utf16_of c = [?u, ?w]"
    using False assms by (auto simp: utf16_of_def utf16_encode_def scalar_def v_def Let_def)
  ultimately show ?thesis by auto
qed

section \<open>Loops over encoded characters\<close>

lemma each_unit_fold: "each_unit put cs out = fold put cs out"
  by (induction cs arbitrary: out) auto

lemma utf8_each_of:
  "(\<And>c. c \<in> set cs \<Longrightarrow> c \<le> 0x10FFFF) \<Longrightarrow>
   utf8_each put (concat (map utf8_of cs) @ rest) out = utf8_each put rest (fold put cs out)"
proof (induction cs arbitrary: out)
  case (Cons c cs)
  obtain b bs where "utf8_of c = b # bs"
    "utf8_decode 0 b (bs @ concat (map utf8_of cs) @ rest) = (c, concat (map utf8_of cs) @ rest)"
    using utf8_decode_of [of c 0 "concat (map utf8_of cs) @ rest"] Cons.prems by auto
  with Cons show ?case by simp
qed simp

lemma utf16_each_of:
  "(\<And>c. c \<in> set cs \<Longrightarrow> scalar c) \<Longrightarrow>
   utf16_each put (concat (map utf16_of cs) @ rest) out = utf16_each put rest (fold put cs out)"
proof (induction cs arbitrary: out)
  case (Cons c cs)
  obtain u us where "utf16_of c = u # us"
    "utf16_decode 0 u (us @ concat (map utf16_of cs) @ rest) = (c, concat (map utf16_of cs) @ rest)"
    using utf16_decode_of [of c 0 "concat (map utf16_of cs) @ rest"] Cons.prems by auto
  with Cons show ?case by simp
qed simp

lemma each_all:
  assumes "\<And>c. c \<in> set cs \<Longrightarrow> scalar c"
  shows "utf8_each put (concat (map utf8_of cs)) out = fold put cs out"
    and "utf16_each put (concat (map utf16_of cs)) out = fold put cs out"
  using utf8_each_of [of cs put "[]" out] utf16_each_of [of cs put "[]" out] assms
  by (simp_all add: scalar_def)

lemma fold_append: "fold (\<lambda>c out. out @ f c) cs out = out @ concat (map f cs)"
  by (induction cs arbitrary: out) auto

lemma fold_encode8:
  "(\<And>c. c \<in> set cs \<Longrightarrow> scalar c) \<Longrightarrow> fold (utf8_encode r) cs out = out @ concat (map utf8_of cs)"
  by (induction cs arbitrary: out) (auto simp: utf8_encode_scalar)

lemma fold_encode16:
  "(\<And>c. c \<in> set cs \<Longrightarrow> scalar c) \<Longrightarrow> fold (utf16_encode r) cs out = out @ concat (map utf16_of cs)"
  by (induction cs arbitrary: out) (auto simp: utf16_encode_scalar)

lemma scalar_le: "scalar c \<Longrightarrow> c \<le> 0x10FFFF"
  by (simp add: scalar_def)

text \<open>What the six conversions between the encodings do to a list of scalar values.\<close>

lemma conversions_of:
  assumes "\<And>c. c \<in> set cs \<Longrightarrow> scalar c"
  shows utf32_toUtf8_of: "utf32_toUtf8 cs out8 = out8 @ concat (map utf8_of cs)"
    and utf32_toUtf16_of: "utf32_toUtf16 cs out16 = out16 @ concat (map utf16_of cs)"
    and utf8_toUtf16_of: "utf8_toUtf16 (concat (map utf8_of cs)) out16 = out16 @ concat (map utf16_of cs)"
    and utf8_toUtf32_of: "utf8_toUtf32 (concat (map utf8_of cs)) out32 = out32 @ cs"
    and utf16_toUtf8_of: "utf16_toUtf8 (concat (map utf16_of cs)) out8 = out8 @ concat (map utf8_of cs)"
    and utf16_toUtf32_of: "utf16_toUtf32 (concat (map utf16_of cs)) out32 = out32 @ cs"
  using assms fold_append [of "\<lambda>c. [c]"]
  by (simp_all add: each_all utf32_toUtf8_def utf32_toUtf16_def utf8_toUtf16_def utf8_toUtf32_def utf16_toUtf8_def
    utf16_toUtf32_def each_unit_fold fold_encode8 fold_encode16 scalar_le)

lemma counts_of:
  assumes "\<And>c. c \<in> set cs \<Longrightarrow> scalar c"
  shows "utf8_count (concat (map utf8_of cs)) = word_of_nat (length cs)"
    and "utf16_count (concat (map utf16_of cs)) = word_of_nat (length cs)"
proof -
  show "utf8_count (concat (map utf8_of cs)) = word_of_nat (length cs)"
    using assms
  proof (induction cs)
    case (Cons c cs)
    with utf8_decode_of [of c 0 "concat (map utf8_of cs)"] show ?case
      by (auto simp: utf8_next_def scalar_le)
  qed simp
  show "utf16_count (concat (map utf16_of cs)) = word_of_nat (length cs)"
    using assms
  proof (induction cs)
    case (Cons c cs)
    with utf16_decode_of [of c 0 "concat (map utf16_of cs)"] show ?case
      by (auto simp: utf16_next_def)
  qed simp
qed

end
