(* ===== verification/Sf_Utf_Claims.thy ===== *)
theory Sf_Utf_Claims
  imports Sf_Utf_Proofs
begin

text \<open>What the conversions of \<open>Utf.inl\<close> guarantee, and two places where they do not do
  what their documentation says.\<close>

section \<open>Encoding\<close>

text \<open>C30 For every code point that \<open>Utf<8>::encode\<close> accepts it appends exactly the bytes
  of the UTF-8 bit distribution table, one to four of them; for every other one it appends
  the replacement, or nothing when that is 0.\<close>

theorem utf8_encode_reference:
  "\<exists>bs. utf8_encode r c out = out @ bs \<and>
     map unat bs =
       (if c \<le> 0x10FFFF \<and> \<not> (0xD800 \<le> c \<and> c \<le> 0xDBFF) then utf8_bytes (unat c)
        else if r = 0 then [] else [unat r])"
proof (cases "c \<le> 0x10FFFF \<and> \<not> (0xD800 \<le> c \<and> c \<le> 0xDBFF)")
  case True
  then show ?thesis by (simp add: utf8_encode_of utf8_of_bytes)
next
  case False
  then have "utf8_encode r c out = replaced r out" by (auto simp: utf8_encode_def)
  with False show ?thesis by (auto simp: replaced_def)
qed

section \<open>Round trips\<close>

text \<open>C29 A text of Unicode scalar values survives every chain of conversions: written as
  UTF-8 or UTF-16 it is read back by \<open>String::fromUtf8\<close> and \<open>String::fromUtf16\<close>, the two
  byte forms are turned into each other without loss, and \<open>count\<close> gives the number of
  characters of both.\<close>

theorem utf_roundtrip:
  assumes "list_all scalar cs"
  shows "String_fromUtf8 (utf32_toUtf8 cs []) = cs \<and>
    String_fromUtf16 (utf32_toUtf16 cs []) = cs \<and>
    utf8_toUtf16 (utf32_toUtf8 cs []) [] = utf32_toUtf16 cs [] \<and>
    utf16_toUtf8 (utf32_toUtf16 cs []) [] = utf32_toUtf8 cs [] \<and>
    utf8_count (utf32_toUtf8 cs []) = word_of_nat (length cs) \<and>
    utf16_count (utf32_toUtf16 cs []) = word_of_nat (length cs)"
  using assms by (simp add: String_fromUtf8_def String_fromUtf16_def conversions_of counts_of list_all_iff)

text \<open>A smiling face, an e with acute accent and the euro sign.\<close>

theorem utf_roundtrip_witness:
  "String_fromUtf8 (utf32_toUtf8 [0x1F600, 0xE9, 0x20AC] []) = [0x1F600, 0xE9, 0x20AC] \<and>
   utf32_toUtf16 [0x1F600, 0xE9, 0x20AC] [] = [0xD83D, 0xDE00, 0xE9, 0x20AC] \<and>
   utf8_count (utf32_toUtf8 [0x1F600, 0xE9, 0x20AC] []) = 3"
  using utf_roundtrip [of "[0x1F600, 0xE9, 0x20AC]"]
  by (simp add: scalar_def utf32_toUtf16_def utf16_encode_def Let_def)

lemma sint_byte: "sint (c :: u8) = (if c < 128 then uint c else uint c - 256)"
proof -
  have "0 \<le> uint c" "uint c < 256" using uint_bounded [of c] by simp_all
  moreover from this have "uint c div 128 = (if 128 \<le> uint c then 1 else 0)" by presburger
  ultimately have "bit (uint c) 7 \<longleftrightarrow> 128 \<le> uint c" "take_bit 8 (uint c) = uint c"
    by (simp_all add: bit_iff_odd take_bit_int_eq_self)
  then show ?thesis
    by (simp add: sint_uint signed_take_bit_eq_take_bit_minus word_less_def)
qed

lemma char_to_Uint32_ascii: "c < 128 \<Longrightarrow> char_to_Uint32 c = ucast c"
  by (simp add: char_to_Uint32_def scast_eq sint_byte)

lemma encode_char_to_Uint32: "\<not> c < 128 \<Longrightarrow> utf8_encode 0 (char_to_Uint32 c) out = out"
proof -
  assume "\<not> c < 128"
  then have c: "128 \<le> uint c" "uint c < 256" and "char_to_Uint32 c = word_of_int (uint c - 256)"
    using uint_bounded [of c] by (simp_all add: char_to_Uint32_def scast_eq sint_byte word_less_def)
  then have "uint (char_to_Uint32 c) = (uint c - 256) mod 2 ^ 32"
    by (simp only: uint_word_of_int) simp
  also have "\<dots> = uint c - 256 + 2 ^ 32"
    using c by (subst mod_add_self2 [symmetric], intro mod_pos_pos_trivial) simp_all
  finally have "0x10FFFF < char_to_Uint32 c" using c by (simp add: word_less_def)
  then show ?thesis by (simp add: utf8_encode_def replaced_def)
qed

lemma scalar_byte: "scalar (ucast (c :: u8))"
proof -
  have "unat c < 256" using unat_bound [of c] by simp
  then show ?thesis by (simp add: scalar_def word_le_nat_alt unsigned_ucast_eq take_bit_nat_eq_self)
qed

section \<open>Where the encodings disagree\<close>

text \<open>C37 A low surrogate, which no encoding may contain, is rejected by \<open>Utf<16>::encode\<close> but
  written by \<open>Utf<8>::encode\<close> as three bytes, whose test ends at 0xDBFF instead of 0xDFFF:
  the ill-formed bytes are read back as the surrogate, and are lost on the way to UTF-16.\<close>

theorem utf8_encodes_low_surrogates:
  assumes "0xDC00 \<le> c" and "c \<le> 0xDFFF"
  shows "length (utf32_toUtf8 [c] []) = 3 \<and> String_fromUtf8 (utf32_toUtf8 [c] []) = [c] \<and>
    utf32_toUtf16 [c] [] = [] \<and> utf8_toUtf16 (utf32_toUtf8 [c] []) [] = []"
proof -
  have c: "c \<le> 0x10FFFF" "\<not> (0xD800 \<le> c \<and> c \<le> 0xDBFF)" and n: "0xDC00 \<le> unat c" "unat c \<le> 0xDFFF"
    using assms by (simp_all add: word_le_nat_alt)
  have "length (utf8_of c) = length (map unat (utf8_of c))" by simp
  also have "\<dots> = 3" using n by (simp only: utf8_of_bytes [OF c(1)]) (simp add: utf8_bytes.simps)
  finally have len: "length (utf8_of c) = 3" .
  have enc: "utf32_toUtf8 [c] [] = utf8_of c"
    using c by (simp add: utf32_toUtf8_def utf8_encode_of)
  have none: "utf16_encode 0 c [] = []"
    using n by (simp add: utf16_encode_def replaced_def word_le_nat_alt)
  have each: "utf8_each put (utf8_of c) out = put c out" for put :: "u32 \<Rightarrow> 'a \<Rightarrow> 'a" and out
    using utf8_each_of [of "[c]" put "[]" out] c by simp
  show ?thesis
    by (simp add: enc len each none String_fromUtf8_def utf8_toUtf32_def utf8_toUtf16_def utf32_toUtf16_def)
qed

theorem utf8_encodes_low_surrogates_witness:
  "length (utf32_toUtf8 [0xDC00] []) = 3 \<and> String_fromUtf8 (utf32_toUtf8 [0xDC00] []) = [0xDC00] \<and>
   utf32_toUtf16 [0xDC00] [] = [] \<and> utf8_toUtf16 (utf32_toUtf8 [0xDC00] []) [] = []"
  by (rule utf8_encodes_low_surrogates) simp_all

text \<open>\<open>Utf<32>::count\<close> subtracts the wrong way round: of a range of n characters, n not
  0 and at most half the address space, it returns 2^32 - n, never n.\<close>

theorem utf32_count_negative:
  assumes "cs \<noteq> []" and "length cs < 2 ^ 31"
  shows "unat (utf32_count cs) = 2 ^ 32 - length cs \<and> unat (utf32_count cs) \<noteq> length cs"
proof -
  have "(word_of_nat (2 ^ 32 - length cs) :: u32) = word_of_nat (2 ^ 32) - word_of_nat (length cs)"
    using assms(2) by (intro of_nat_diff) simp
  then have "utf32_count cs = word_of_nat (2 ^ 32 - length cs)"
    by (simp add: utf32_count_def)
  moreover have "2 ^ 32 - length cs < 2 ^ 32" using assms(1) by simp
  ultimately have "unat (utf32_count cs) = 2 ^ 32 - length cs"
    by (simp add: unat_of_nat)
  with assms(2) show ?thesis by simp
qed

theorem utf32_count_negative_witness:
  "unat (utf32_count [65, 66]) = 4294967294"
  using utf32_count_negative [of "[65, 66]"] by simp

text \<open>\<open>Utf<8>::fromLatin1\<close> on a range of \<open>char\<close>, which is signed, drops every character
  outside ASCII: sign extension makes it larger than any code point. On \<open>unsigned char\<close>
  nothing is lost.\<close>

theorem fromLatin1_drops_accents:
  "String_fromUtf8 (utf8_fromLatin1 char_to_Uint32 cs []) = map ucast (filter (\<lambda>c. c < 128) cs) \<and>
   String_fromUtf8 (utf8_fromLatin1 ucast cs []) = map ucast cs"
proof -
  have "utf8_fromLatin1 ucast cs out = utf32_toUtf8 (map ucast cs) out" for out
    by (simp add: utf8_fromLatin1_def utf32_toUtf8_def each_unit_fold fold_map comp_def)
  moreover have "utf8_fromLatin1 char_to_Uint32 cs out =
      utf32_toUtf8 (map ucast (filter (\<lambda>c. c < 128) cs)) out" for out
    unfolding utf8_fromLatin1_def utf32_toUtf8_def
    by (induction cs arbitrary: out) (simp_all add: char_to_Uint32_ascii encode_char_to_Uint32)
  moreover have "utf8_toUtf32 (utf32_toUtf8 (map ucast cs) []) [] = map ucast cs" for cs :: "u8 list"
  proof -
    have s: "scalar c" if "c \<in> set (map ucast cs)" for c using that by (auto simp: scalar_byte)
    show ?thesis using conversions_of(1) [of "map ucast cs" "[]", OF s] conversions_of(4) [of "map ucast cs" "[]", OF s] by simp
  qed
  ultimately show ?thesis by (simp add: String_fromUtf8_def)
qed

end
