(* ===== verification/Sf_Vector.thy ===== *)
theory Sf_Vector
  imports Prelude
begin

text \<open>
  The value classes of \<open>SFML/System/Vector2.inl\<close>, \<open>SFML/System/Vector3.inl\<close> and
  \<open>SFML/Graphics/Glsl.inl\<close>. They are templates over the component type, so the model is
  polymorphic: over an additive group for the sums, over any multiplication for scaling.
  \<open>T / T\<close> depends on the type (truncated for integers, rounded for floats) and is passed
  as \<open>quot\<close>, a \<open>static_cast<T>\<close> from another type as \<open>cast\<close>.
  Each binary operator comes with an instance of the library's class for it.
\<close>

section \<open>Vector2\<close>

datatype 'a Vector2 = Vector2 (v2_x: 'a) (v2_y: 'a)

definition Vector2_zero :: "'a::zero Vector2" where
  "Vector2_zero = Vector2 0 0"

definition Vector2_of :: "'a \<Rightarrow> 'a \<Rightarrow> 'a Vector2" where
  "Vector2_of X Y = Vector2 X Y"

definition Vector2_convert :: "('u \<Rightarrow> 'a) \<Rightarrow> 'u Vector2 \<Rightarrow> 'a Vector2" where
  "Vector2_convert cast v = Vector2 (cast (v2_x v)) (cast (v2_y v))"

definition Vector2_neg :: "'a::uminus Vector2 \<Rightarrow> 'a Vector2" where
  "Vector2_neg right = Vector2 (- v2_x right) (- v2_y right)"

text \<open>An assignment operator returns its left operand as it is afterwards.\<close>

definition Vector2_add_assign :: "'a::plus Vector2 \<Rightarrow> 'a Vector2 \<Rightarrow> 'a Vector2" where
  "Vector2_add_assign left right =
     (let left1 = Vector2 (v2_x left + v2_x right) (v2_y left)
      in Vector2 (v2_x left1) (v2_y left1 + v2_y right))"

definition Vector2_sub_assign :: "'a::minus Vector2 \<Rightarrow> 'a Vector2 \<Rightarrow> 'a Vector2" where
  "Vector2_sub_assign left right =
     (let left1 = Vector2 (v2_x left - v2_x right) (v2_y left)
      in Vector2 (v2_x left1) (v2_y left1 - v2_y right))"

definition Vector2_add :: "'a::plus Vector2 \<Rightarrow> 'a Vector2 \<Rightarrow> 'a Vector2" where
  "Vector2_add left right = Vector2 (v2_x left + v2_x right) (v2_y left + v2_y right)"

definition Vector2_sub :: "'a::minus Vector2 \<Rightarrow> 'a Vector2 \<Rightarrow> 'a Vector2" where
  "Vector2_sub left right = Vector2 (v2_x left - v2_x right) (v2_y left - v2_y right)"

definition Vector2_scale :: "'a::times Vector2 \<Rightarrow> 'a \<Rightarrow> 'a Vector2" where
  "Vector2_scale left right = Vector2 (v2_x left * right) (v2_y left * right)"

definition Vector2_scale_left :: "'a::times \<Rightarrow> 'a Vector2 \<Rightarrow> 'a Vector2" where
  "Vector2_scale_left left right = Vector2 (v2_x right * left) (v2_y right * left)"

definition Vector2_scale_assign :: "'a::times Vector2 \<Rightarrow> 'a \<Rightarrow> 'a Vector2" where
  "Vector2_scale_assign left right =
     (let left1 = Vector2 (v2_x left * right) (v2_y left)
      in Vector2 (v2_x left1) (v2_y left1 * right))"

definition Vector2_quot :: "('a \<Rightarrow> 'a \<Rightarrow> 'a) \<Rightarrow> 'a Vector2 \<Rightarrow> 'a \<Rightarrow> 'a Vector2" where
  "Vector2_quot quot left right = Vector2 (quot (v2_x left) right) (quot (v2_y left) right)"

definition Vector2_quot_assign :: "('a \<Rightarrow> 'a \<Rightarrow> 'a) \<Rightarrow> 'a Vector2 \<Rightarrow> 'a \<Rightarrow> 'a Vector2" where
  "Vector2_quot_assign quot left right =
     (let left1 = Vector2 (quot (v2_x left) right) (v2_y left)
      in Vector2 (v2_x left1) (quot (v2_y left1) right))"

definition Vector2_eq :: "'a Vector2 \<Rightarrow> 'a Vector2 \<Rightarrow> bool" where
  "Vector2_eq left right = (v2_x left = v2_x right \<and> v2_y left = v2_y right)"

definition Vector2_neq :: "'a Vector2 \<Rightarrow> 'a Vector2 \<Rightarrow> bool" where
  "Vector2_neq left right = (v2_x left \<noteq> v2_x right \<or> v2_y left \<noteq> v2_y right)"

lemmas Vector2_ops = Vector2_zero_def Vector2_neg_def Vector2_add_def Vector2_sub_def
  Vector2_scale_def Vector2_scale_left_def

instantiation Vector2 :: (ab_group_add) ab_group_add
begin

definition zero_Vector2 :: "'a Vector2" where "zero_Vector2 = Vector2_zero"
definition uminus_Vector2 :: "'a Vector2 \<Rightarrow> 'a Vector2" where "uminus_Vector2 = Vector2_neg"
definition plus_Vector2 :: "'a Vector2 \<Rightarrow> 'a Vector2 \<Rightarrow> 'a Vector2" where
  "plus_Vector2 = Vector2_add"
definition minus_Vector2 :: "'a Vector2 \<Rightarrow> 'a Vector2 \<Rightarrow> 'a Vector2" where
  "minus_Vector2 = Vector2_sub"

instance
  by standard (simp_all add: zero_Vector2_def uminus_Vector2_def plus_Vector2_def
    minus_Vector2_def Vector2_ops ac_simps)

end

lemma Vector2_assignments:
  "Vector2_add_assign v w = Vector2_add v w" "Vector2_sub_assign v w = Vector2_sub v w"
  "Vector2_scale_assign v k = Vector2_scale v k" "Vector2_quot_assign q v k = Vector2_quot q v k"
  by (simp_all add: Vector2_add_assign_def Vector2_add_def Vector2_sub_assign_def Vector2_sub_def
    Vector2_scale_assign_def Vector2_scale_def Vector2_quot_assign_def Vector2_quot_def)

lemma Vector2_eq_iff: "Vector2_eq v w \<longleftrightarrow> v = w" "Vector2_neq v w \<longleftrightarrow> v \<noteq> w"
  by (auto simp: Vector2_eq_def Vector2_neq_def Vector2.expand)

section \<open>Vector3\<close>

datatype 'a Vector3 = Vector3 (v3_x: 'a) (v3_y: 'a) (v3_z: 'a)

definition Vector3_zero :: "'a::zero Vector3" where
  "Vector3_zero = Vector3 0 0 0"

definition Vector3_of :: "'a \<Rightarrow> 'a \<Rightarrow> 'a \<Rightarrow> 'a Vector3" where
  "Vector3_of X Y Z = Vector3 X Y Z"

definition Vector3_convert :: "('u \<Rightarrow> 'a) \<Rightarrow> 'u Vector3 \<Rightarrow> 'a Vector3" where
  "Vector3_convert cast v = Vector3 (cast (v3_x v)) (cast (v3_y v)) (cast (v3_z v))"

definition Vector3_neg :: "'a::uminus Vector3 \<Rightarrow> 'a Vector3" where
  "Vector3_neg left = Vector3 (- v3_x left) (- v3_y left) (- v3_z left)"

definition Vector3_add_assign :: "'a::plus Vector3 \<Rightarrow> 'a Vector3 \<Rightarrow> 'a Vector3" where
  "Vector3_add_assign left right =
     (let left1 = Vector3 (v3_x left + v3_x right) (v3_y left) (v3_z left);
          left2 = Vector3 (v3_x left1) (v3_y left1 + v3_y right) (v3_z left1)
      in Vector3 (v3_x left2) (v3_y left2) (v3_z left2 + v3_z right))"

definition Vector3_sub_assign :: "'a::minus Vector3 \<Rightarrow> 'a Vector3 \<Rightarrow> 'a Vector3" where
  "Vector3_sub_assign left right =
     (let left1 = Vector3 (v3_x left - v3_x right) (v3_y left) (v3_z left);
          left2 = Vector3 (v3_x left1) (v3_y left1 - v3_y right) (v3_z left1)
      in Vector3 (v3_x left2) (v3_y left2) (v3_z left2 - v3_z right))"

definition Vector3_add :: "'a::plus Vector3 \<Rightarrow> 'a Vector3 \<Rightarrow> 'a Vector3" where
  "Vector3_add left right =
     Vector3 (v3_x left + v3_x right) (v3_y left + v3_y right) (v3_z left + v3_z right)"

definition Vector3_sub :: "'a::minus Vector3 \<Rightarrow> 'a Vector3 \<Rightarrow> 'a Vector3" where
  "Vector3_sub left right =
     Vector3 (v3_x left - v3_x right) (v3_y left - v3_y right) (v3_z left - v3_z right)"

definition Vector3_scale :: "'a::times Vector3 \<Rightarrow> 'a \<Rightarrow> 'a Vector3" where
  "Vector3_scale left right = Vector3 (v3_x left * right) (v3_y left * right) (v3_z left * right)"

definition Vector3_scale_left :: "'a::times \<Rightarrow> 'a Vector3 \<Rightarrow> 'a Vector3" where
  "Vector3_scale_left left right = Vector3 (v3_x right * left) (v3_y right * left) (v3_z right * left)"

definition Vector3_scale_assign :: "'a::times Vector3 \<Rightarrow> 'a \<Rightarrow> 'a Vector3" where
  "Vector3_scale_assign left right =
     (let left1 = Vector3 (v3_x left * right) (v3_y left) (v3_z left);
          left2 = Vector3 (v3_x left1) (v3_y left1 * right) (v3_z left1)
      in Vector3 (v3_x left2) (v3_y left2) (v3_z left2 * right))"

definition Vector3_quot :: "('a \<Rightarrow> 'a \<Rightarrow> 'a) \<Rightarrow> 'a Vector3 \<Rightarrow> 'a \<Rightarrow> 'a Vector3" where
  "Vector3_quot quot left right =
     Vector3 (quot (v3_x left) right) (quot (v3_y left) right) (quot (v3_z left) right)"

definition Vector3_quot_assign :: "('a \<Rightarrow> 'a \<Rightarrow> 'a) \<Rightarrow> 'a Vector3 \<Rightarrow> 'a \<Rightarrow> 'a Vector3" where
  "Vector3_quot_assign quot left right =
     (let left1 = Vector3 (quot (v3_x left) right) (v3_y left) (v3_z left);
          left2 = Vector3 (v3_x left1) (quot (v3_y left1) right) (v3_z left1)
      in Vector3 (v3_x left2) (v3_y left2) (quot (v3_z left2) right))"

definition Vector3_eq :: "'a Vector3 \<Rightarrow> 'a Vector3 \<Rightarrow> bool" where
  "Vector3_eq left right = (v3_x left = v3_x right \<and> v3_y left = v3_y right \<and> v3_z left = v3_z right)"

definition Vector3_neq :: "'a Vector3 \<Rightarrow> 'a Vector3 \<Rightarrow> bool" where
  "Vector3_neq left right = (v3_x left \<noteq> v3_x right \<or> v3_y left \<noteq> v3_y right \<or> v3_z left \<noteq> v3_z right)"

lemmas Vector3_ops = Vector3_zero_def Vector3_neg_def Vector3_add_def Vector3_sub_def
  Vector3_scale_def Vector3_scale_left_def

instantiation Vector3 :: (ab_group_add) ab_group_add
begin

definition zero_Vector3 :: "'a Vector3" where "zero_Vector3 = Vector3_zero"
definition uminus_Vector3 :: "'a Vector3 \<Rightarrow> 'a Vector3" where "uminus_Vector3 = Vector3_neg"
definition plus_Vector3 :: "'a Vector3 \<Rightarrow> 'a Vector3 \<Rightarrow> 'a Vector3" where
  "plus_Vector3 = Vector3_add"
definition minus_Vector3 :: "'a Vector3 \<Rightarrow> 'a Vector3 \<Rightarrow> 'a Vector3" where
  "minus_Vector3 = Vector3_sub"

instance
  by standard (simp_all add: zero_Vector3_def uminus_Vector3_def plus_Vector3_def
    minus_Vector3_def Vector3_ops ac_simps)

end

lemma Vector3_assignments:
  "Vector3_add_assign v w = Vector3_add v w" "Vector3_sub_assign v w = Vector3_sub v w"
  "Vector3_scale_assign v k = Vector3_scale v k" "Vector3_quot_assign q v k = Vector3_quot q v k"
  by (simp_all add: Vector3_add_assign_def Vector3_add_def Vector3_sub_assign_def Vector3_sub_def
    Vector3_scale_assign_def Vector3_scale_def Vector3_quot_assign_def Vector3_quot_def)

lemma Vector3_eq_iff: "Vector3_eq v w \<longleftrightarrow> v = w" "Vector3_neq v w \<longleftrightarrow> v \<noteq> w"
  by (auto simp: Vector3_eq_def Vector3_neq_def Vector3.expand)

section \<open>Vector4 and Matrix\<close>

text \<open>The types that pass uniforms to a shader. \<open>copyMatrix\<close> and \<open>copyVector\<close> are compiled
  into the library, of which the repository has the headers only: they are parameters. The
  constructors hand them the uninitialised object, whose content is \<open>garbage\<close>.\<close>

datatype 'a Vector4 = Vector4 (v4_x: 'a) (v4_y: 'a) (v4_z: 'a) (v4_w: 'a)

definition Vector4_zero :: "'a::zero Vector4" where
  "Vector4_zero = Vector4 0 0 0 0"

definition Vector4_of :: "'a \<Rightarrow> 'a \<Rightarrow> 'a \<Rightarrow> 'a \<Rightarrow> 'a Vector4" where
  "Vector4_of X Y Z W = Vector4 X Y Z W"

definition Vector4_convert :: "('u \<Rightarrow> 'a) \<Rightarrow> 'u Vector4 \<Rightarrow> 'a Vector4" where
  "Vector4_convert cast other =
     Vector4 (cast (v4_x other)) (cast (v4_y other)) (cast (v4_z other)) (cast (v4_w other))"

definition Vector4_of_color :: "('c \<Rightarrow> 'a Vector4 \<Rightarrow> 'a Vector4) \<Rightarrow> 'a Vector4 \<Rightarrow> 'c \<Rightarrow> 'a Vector4" where
  "Vector4_of_color copyVector garbage color = copyVector color garbage"

record 'a Matrix =
  matrix_columns :: nat
  matrix_rows :: nat
  matrix_array :: "'a list"

definition Matrix_of_array ::
  "('a list \<Rightarrow> nat \<Rightarrow> 'a list \<Rightarrow> 'a list) \<Rightarrow> 'a list \<Rightarrow> nat \<Rightarrow> nat \<Rightarrow> 'a list \<Rightarrow> 'a Matrix" where
  "Matrix_of_array copyMatrix garbage columns rows pointer =
     \<lparr>matrix_columns = columns, matrix_rows = rows,
      matrix_array = copyMatrix pointer (columns * rows) garbage\<rparr>"

definition Matrix_of_transform ::
  "('t \<Rightarrow> 'a Matrix \<Rightarrow> 'a Matrix) \<Rightarrow> 'a Matrix \<Rightarrow> 't \<Rightarrow> 'a Matrix" where
  "Matrix_of_transform copyMatrix garbage transform = copyMatrix transform garbage"

end
