(* ===== verification/Sf_Rect.thy ===== *)
theory Sf_Rect
  imports Sf_Vector
begin

text \<open>
  \<open>SFML/Graphics/Rect.inl\<close>: axis-aligned rectangles with possibly negative width or height.
  \<open>intersects\<close> is shown to compute the intersection of the two sets of points. The theorems
  are for component types whose sums do not overflow; the definitions are for every ordered
  type with sums and differences.
\<close>

datatype 'a Rect = Rect (rect_left: 'a) (rect_top: 'a) (rect_width: 'a) (rect_height: 'a)

definition Rect_zero :: "'a::zero Rect" where
  "Rect_zero = Rect 0 0 0 0"

definition Rect_of :: "'a \<Rightarrow> 'a \<Rightarrow> 'a \<Rightarrow> 'a \<Rightarrow> 'a Rect" where
  "Rect_of rectLeft rectTop rectWidth rectHeight = Rect rectLeft rectTop rectWidth rectHeight"

definition Rect_of_vectors :: "'a Vector2 \<Rightarrow> 'a Vector2 \<Rightarrow> 'a Rect" where
  "Rect_of_vectors position size_v = Rect (v2_x position) (v2_y position) (v2_x size_v) (v2_y size_v)"

definition Rect_convert :: "('u \<Rightarrow> 'a) \<Rightarrow> 'u Rect \<Rightarrow> 'a Rect" where
  "Rect_convert cast r =
     Rect (cast (rect_left r)) (cast (rect_top r)) (cast (rect_width r)) (cast (rect_height r))"

definition Rect_contains :: "'a::{linorder,plus} Rect \<Rightarrow> 'a \<Rightarrow> 'a \<Rightarrow> bool" where
  "Rect_contains r x y =
     (let minX = min (rect_left r) (rect_left r + rect_width r);
          maxX = max (rect_left r) (rect_left r + rect_width r);
          minY = min (rect_top r) (rect_top r + rect_height r);
          maxY = max (rect_top r) (rect_top r + rect_height r)
      in x \<ge> minX \<and> x < maxX \<and> y \<ge> minY \<and> y < maxY)"

definition Rect_contains_point :: "'a::{linorder,plus} Rect \<Rightarrow> 'a Vector2 \<Rightarrow> bool" where
  "Rect_contains_point r point = Rect_contains r (v2_x point) (v2_y point)"

text \<open>The result and what is written to the argument \<open>intersection\<close>.\<close>

definition Rect_intersection ::
  "'a::{linorder,plus,minus,zero} Rect \<Rightarrow> 'a Rect \<Rightarrow> bool \<times> 'a Rect" where
  "Rect_intersection r rectangle =
     (let r1MinX = min (rect_left r) (rect_left r + rect_width r);
          r1MaxX = max (rect_left r) (rect_left r + rect_width r);
          r1MinY = min (rect_top r) (rect_top r + rect_height r);
          r1MaxY = max (rect_top r) (rect_top r + rect_height r);
          r2MinX = min (rect_left rectangle) (rect_left rectangle + rect_width rectangle);
          r2MaxX = max (rect_left rectangle) (rect_left rectangle + rect_width rectangle);
          r2MinY = min (rect_top rectangle) (rect_top rectangle + rect_height rectangle);
          r2MaxY = max (rect_top rectangle) (rect_top rectangle + rect_height rectangle);
          interLeft = max r1MinX r2MinX;
          interTop = max r1MinY r2MinY;
          interRight = min r1MaxX r2MaxX;
          interBottom = min r1MaxY r2MaxY
      in if interLeft < interRight \<and> interTop < interBottom
         then (True, Rect interLeft interTop (interRight - interLeft) (interBottom - interTop))
         else (False, Rect 0 0 0 0))"

definition Rect_intersects :: "'a::{linorder,plus,minus,zero} Rect \<Rightarrow> 'a Rect \<Rightarrow> bool" where
  "Rect_intersects r rectangle = fst (Rect_intersection r rectangle)"

definition Rect_eq :: "'a Rect \<Rightarrow> 'a Rect \<Rightarrow> bool" where
  "Rect_eq left right =
     (rect_left left = rect_left right \<and> rect_width left = rect_width right \<and>
      rect_top left = rect_top right \<and> rect_height left = rect_height right)"

definition Rect_neq :: "'a Rect \<Rightarrow> 'a Rect \<Rightarrow> bool" where
  "Rect_neq left right = (\<not> Rect_eq left right)"

lemma Rect_eq_iff: "Rect_eq r s \<longleftrightarrow> r = s"
  by (auto simp: Rect_eq_def Rect.expand)

text \<open>A rectangle is a product of two half-open intervals.\<close>

definition span :: "'a::{linorder,plus} \<Rightarrow> 'a \<Rightarrow> 'a \<Rightarrow> bool" where
  "span a d x \<longleftrightarrow> min a (a + d) \<le> x \<and> x < max a (a + d)"

lemma Rect_contains_span:
  "Rect_contains r x y \<longleftrightarrow>
   span (rect_left r) (rect_width r) x \<and> span (rect_top r) (rect_height r) y"
  by (auto simp: Rect_contains_def span_def Let_def)

lemma span_between:
  fixes a :: "'a::linordered_ab_group_add"
  shows "a < b \<Longrightarrow> span a (b - a) x \<longleftrightarrow> a \<le> x \<and> x < b"
  by (simp add: span_def)

text \<open>The rectangle \<open>intersects\<close> writes contains exactly the points that both rectangles
  contain, and it returns true exactly when there is such a point, whatever the signs of the
  widths and heights.\<close>

theorem Rect_intersection_points:
  fixes r s :: "'a::linordered_ab_group_add Rect"
  shows "(Rect_contains (snd (Rect_intersection r s)) x y \<longleftrightarrow>
      Rect_contains r x y \<and> Rect_contains s x y) \<and>
    (Rect_intersects r s \<longleftrightarrow> (\<exists>x y. Rect_contains r x y \<and> Rect_contains s x y))"
proof -
  define l t b u where
    "l = max (min (rect_left r) (rect_left r + rect_width r)) (min (rect_left s) (rect_left s + rect_width s))"
    "t = max (min (rect_top r) (rect_top r + rect_height r)) (min (rect_top s) (rect_top s + rect_height s))"
    "b = min (max (rect_left r) (rect_left r + rect_width r)) (max (rect_left s) (rect_left s + rect_width s))"
    "u = min (max (rect_top r) (rect_top r + rect_height r)) (max (rect_top s) (rect_top s + rect_height s))"
  have result: "Rect_intersection r s =
      (if l < b \<and> t < u then (True, Rect l t (b - l) (u - t)) else (False, Rect 0 0 0 0))"
    unfolding Rect_intersection_def Let_def l_t_b_u_def by (rule refl)
  have both: "Rect_contains r x y \<and> Rect_contains s x y \<longleftrightarrow> (l \<le> x \<and> x < b) \<and> (t \<le> y \<and> y < u)" for x y
    unfolding Rect_contains_span span_def l_t_b_u_def by (simp only: max.bounded_iff min_less_iff_conj) blast
  have "(\<exists>x y. (l \<le> x \<and> x < b) \<and> (t \<le> y \<and> y < u)) \<longleftrightarrow> l < b \<and> t < u"
    by (metis le_less_trans order.refl)
  then have some: "(\<exists>x y. Rect_contains r x y \<and> Rect_contains s x y) \<longleftrightarrow> l < b \<and> t < u"
    by (simp only: both)
  have "Rect_contains (snd (Rect_intersection r s)) x y \<longleftrightarrow> (l \<le> x \<and> x < b) \<and> (t \<le> y \<and> y < u)"
  proof (cases "l < b \<and> t < u")
    case True
    then show ?thesis by (simp add: result Rect_contains_span span_between)
  next
    case False
    then have "\<not> ((l \<le> x \<and> x < b) \<and> (t \<le> y \<and> y < u))" by (meson le_less_trans)
    with False show ?thesis by (auto simp: result Rect_contains_span span_def)
  qed
  moreover have "Rect_intersects r s \<longleftrightarrow> l < b \<and> t < u" by (simp add: Rect_intersects_def result)
  ultimately show ?thesis using both [of x y] some by blast
qed

end
