(* ===== verification/Sf_Runtime.thy ===== *)
theory Sf_Runtime
  imports Prelude
begin

text \<open>
  Three templates of SFML whose code is in the repository's headers: the entry points of
  \<open>sf::Thread\<close> (\<open>SFML/System/Thread.inl\<close>), which the program's three threads are not
  made with but the library offers for the purpose, \<open>sf::ThreadLocalPtr\<close>
  (\<open>SFML/System/ThreadLocalPtr.inl\<close>) and the registry of sound file classes
  (\<open>SFML/Audio/SoundFileFactory.inl\<close>).
\<close>

section \<open>Threads\<close>

text \<open>A class derived from \<open>ThreadFunc\<close> holds what \<open>run\<close> will call. A call is a function
  on the state \<open>'w\<close> of the program; \<open>'o\<close> are the objects and \<open>'a\<close> the arguments.\<close>

datatype ('w, 'a, 'o) ThreadFunc =
    ThreadFunctor "'w \<Rightarrow> 'w"
  | ThreadFunctorWithArg "'a \<Rightarrow> 'w \<Rightarrow> 'w" 'a
  | ThreadMemberFunc "'o \<Rightarrow> 'w \<Rightarrow> 'w" 'o

fun ThreadFunc_run :: "('w, 'a, 'o) ThreadFunc \<Rightarrow> 'w \<Rightarrow> 'w" where
  "ThreadFunc_run (ThreadFunctor functor) w = functor w"
| "ThreadFunc_run (ThreadFunctorWithArg function arg) w = function arg w"
| "ThreadFunc_run (ThreadMemberFunc function object) w = function object w"

text \<open>\<open>m_impl\<close> is null until the thread is launched.\<close>

record ('i, 'w, 'a, 'o) Thread =
  m_impl :: "'i option"
  m_entryPoint :: "('w, 'a, 'o) ThreadFunc"

definition Thread_functor :: "('w \<Rightarrow> 'w) \<Rightarrow> ('i, 'w, 'a, 'o) Thread" where
  "Thread_functor functor = \<lparr>m_impl = None, m_entryPoint = ThreadFunctor functor\<rparr>"

definition Thread_with_arg :: "('a \<Rightarrow> 'w \<Rightarrow> 'w) \<Rightarrow> 'a \<Rightarrow> ('i, 'w, 'a, 'o) Thread" where
  "Thread_with_arg function argument =
     \<lparr>m_impl = None, m_entryPoint = ThreadFunctorWithArg function argument\<rparr>"

definition Thread_member :: "('o \<Rightarrow> 'w \<Rightarrow> 'w) \<Rightarrow> 'o \<Rightarrow> ('i, 'w, 'a, 'o) Thread" where
  "Thread_member function object =
     \<lparr>m_impl = None, m_entryPoint = ThreadMemberFunc function object\<rparr>"

section \<open>Thread-local pointers\<close>

text \<open>\<open>ThreadLocal\<close> is compiled into the library: \<open>getValue\<close> and \<open>setValue\<close> are a
  parameter. A pointer is an address, or \<open>None\<close> when it is null; \<open>memory\<close> maps addresses
  to objects.\<close>

record ('s, 'p) ThreadLocal =
  tl_new :: "'p option \<Rightarrow> 's"
  tl_getValue :: "'s \<Rightarrow> 'p option"
  tl_setValue :: "'p option \<Rightarrow> 's \<Rightarrow> 's"

definition ThreadLocalPtr_new :: "('s, 'p) ThreadLocal \<Rightarrow> 'p option \<Rightarrow> 's" where
  "ThreadLocalPtr_new api = tl_new api"

definition ThreadLocalPtr_deref ::
  "('s, 'p) ThreadLocal \<Rightarrow> ('p \<rightharpoonup> 'v) \<Rightarrow> 's \<Rightarrow> 'v result" where
  "ThreadLocalPtr_deref api memory s =
     (case tl_getValue api s of
        None \<Rightarrow> Inl Null_dereference
      | Some p \<Rightarrow> (case memory p of None \<Rightarrow> Inl Null_dereference | Some v \<Rightarrow> Inr v))"

definition ThreadLocalPtr_arrow :: "('s, 'p) ThreadLocal \<Rightarrow> 's \<Rightarrow> 'p option" where
  "ThreadLocalPtr_arrow api s = tl_getValue api s"

definition ThreadLocalPtr_raw :: "('s, 'p) ThreadLocal \<Rightarrow> 's \<Rightarrow> 'p option" where
  "ThreadLocalPtr_raw api s = tl_getValue api s"

definition ThreadLocalPtr_assign :: "('s, 'p) ThreadLocal \<Rightarrow> 'p option \<Rightarrow> 's \<Rightarrow> 's" where
  "ThreadLocalPtr_assign api v s = tl_setValue api v s"

definition ThreadLocalPtr_assign_ptr :: "('s, 'p) ThreadLocal \<Rightarrow> 's \<Rightarrow> 's \<Rightarrow> 's" where
  "ThreadLocalPtr_assign_ptr api right s = tl_setValue api (tl_getValue api right) s"

section \<open>The registry of sound file readers and writers\<close>

text \<open>A reader class \<open>T\<close> is known by its static function \<open>check\<close> and by the address of
  the instance \<open>createReader<T>\<close>, which is what two factories are compared by. The same
  for writers.\<close>

record ('c, 'id) factory =
  factory_check :: 'c
  factory_create :: 'id

type_synonym ('c, 'id) factories = "('c, 'id) factory list"

text \<open>The loop of \<open>unregister...\<close>: an element with that address is erased and the iterator
  stays, otherwise it moves on.\<close>

fun erase_factories :: "'id \<Rightarrow> ('c, 'id) factories \<Rightarrow> ('c, 'id) factories" where
  "erase_factories create [] = []"
| "erase_factories create (it # rest) =
     (if factory_create it = create then erase_factories create rest
      else it # erase_factories create rest)"

record ('c, 'd, 'id) SoundFileFactory =
  s_readers :: "('c, 'id) factories"
  s_writers :: "('d, 'id) factories"

definition unregisterReader :: "'id \<Rightarrow> ('c, 'd, 'id) SoundFileFactory \<Rightarrow> ('c, 'd, 'id) SoundFileFactory" where
  "unregisterReader create F = F\<lparr>s_readers := erase_factories create (s_readers F)\<rparr>"

definition registerReader ::
  "'c \<Rightarrow> 'id \<Rightarrow> ('c, 'd, 'id) SoundFileFactory \<Rightarrow> ('c, 'd, 'id) SoundFileFactory" where
  "registerReader check create F =
     (let F1 = unregisterReader create F;
          new_factory = \<lparr>factory_check = check, factory_create = create\<rparr>
      in F1\<lparr>s_readers := s_readers F1 @ [new_factory]\<rparr>)"

definition unregisterWriter :: "'id \<Rightarrow> ('c, 'd, 'id) SoundFileFactory \<Rightarrow> ('c, 'd, 'id) SoundFileFactory" where
  "unregisterWriter create F = F\<lparr>s_writers := erase_factories create (s_writers F)\<rparr>"

definition registerWriter ::
  "'d \<Rightarrow> 'id \<Rightarrow> ('c, 'd, 'id) SoundFileFactory \<Rightarrow> ('c, 'd, 'id) SoundFileFactory" where
  "registerWriter check create F =
     (let F1 = unregisterWriter create F;
          new_factory = \<lparr>factory_check = check, factory_create = create\<rparr>
      in F1\<lparr>s_writers := s_writers F1 @ [new_factory]\<rparr>)"

lemma erase_factories_filter:
  "erase_factories create fs = filter (\<lambda>f. factory_create f \<noteq> create) fs"
  by (induction fs) auto

definition registered_once :: "('c, 'd, 'id) SoundFileFactory \<Rightarrow> bool" where
  "registered_once F \<longleftrightarrow>
     distinct (map factory_create (s_readers F)) \<and> distinct (map factory_create (s_writers F))"

inductive registry_step ::
  "('c, 'd, 'id) SoundFileFactory \<Rightarrow> ('c, 'd, 'id) SoundFileFactory \<Rightarrow> bool" where
  "registry_step F (registerReader check create F)"
| "registry_step F (unregisterReader create F)"
| "registry_step F (registerWriter writer_check create F)"
| "registry_step F (unregisterWriter create F)"

lemma registered_once_step: "registered_once F \<Longrightarrow> registry_step F G \<Longrightarrow> registered_once G"
  by (erule registry_step.cases)
    (auto simp: registered_once_def registerReader_def unregisterReader_def registerWriter_def
      unregisterWriter_def Let_def erase_factories_filter distinct_map_filter)

interpretation registry:
  invariant_system "\<lambda>F. F = \<lparr>s_readers = [], s_writers = []\<rparr>" registry_step registered_once
  by unfold_locales (simp add: registered_once_def, erule (1) registered_once_step)

end
