(* ===== verification/Sf_Enums.thy ===== *)
theory Sf_Enums
  imports Prelude
begin

text \<open>
  The enumerations of the SFML headers, as tables: the enumerators in the order of the
  declaration, each with its initialiser. \<open>enum_values\<close> gives them the values the language
  rules give them: an enumerator without an initialiser is one more than the one before it,
  the first one 0.
\<close>

datatype initialiser =
    Next
  | Value int
  | Shifted int nat
  | Names "string list"

type_synonym enumeration = "(string \<times> initialiser) list"

text \<open>\<open>a | b | ...\<close> of enumerators declared before; a single name is an alias.\<close>

fun enum_union :: "(string \<times> int) list \<Rightarrow> string list \<Rightarrow> int" where
  "enum_union env [] = 0"
| "enum_union env (n # ns) =
     or (case map_of env n of Some v \<Rightarrow> v | None \<Rightarrow> 0) (enum_union env ns)"

fun enum_from :: "int \<Rightarrow> (string \<times> int) list \<Rightarrow> enumeration \<Rightarrow> (string \<times> int) list" where
  "enum_from next env [] = []"
| "enum_from next env ((n, i) # rest) =
     (let v = (case i of Next \<Rightarrow> next | Value k \<Rightarrow> k | Shifted k s \<Rightarrow> push_bit s k
                 | Names ns \<Rightarrow> enum_union env ns)
      in (n, v) # enum_from (v + 1) ((n, v) # env) rest)"

definition enum_values :: "enumeration \<Rightarrow> (string \<times> int) list" where
  "enum_values e = enum_from 0 [] e"

definition enum_value :: "enumeration \<Rightarrow> string \<rightharpoonup> int" where
  "enum_value e = map_of (enum_values e)"

section \<open>Network\<close>

definition Socket_Type :: enumeration where
  "Socket_Type =
    [(''Tcp'', Next), (''Udp'', Next)]"

definition Socket_Ports :: enumeration where
  "Socket_Ports =
    [(''AnyPort'', Value 0)]"

definition UdpSocket_Limits :: enumeration where
  "UdpSocket_Limits =
    [(''MaxDatagramSize'', Value 65507)]"

definition Ftp_TransferMode :: enumeration where
  "Ftp_TransferMode =
    [(''Binary'', Next), (''Ascii'', Next), (''Ebcdic'', Next)]"

definition Ftp_Status :: enumeration where
  "Ftp_Status =
    [(''RestartMarkerReply'', Value 110), (''ServiceReadySoon'', Value 120),
     (''DataConnectionAlreadyOpened'', Value 125), (''OpeningDataConnection'', Value 150),
     (''Ok'', Value 200), (''PointlessCommand'', Value 202), (''SystemStatus'', Value 211),
     (''DirectoryStatus'', Value 212), (''FileStatus'', Value 213),
     (''HelpMessage'', Value 214), (''SystemType'', Value 215), (''ServiceReady'', Value 220),
     (''ClosingConnection'', Value 221), (''DataConnectionOpened'', Value 225),
     (''ClosingDataConnection'', Value 226), (''EnteringPassiveMode'', Value 227),
     (''LoggedIn'', Value 230), (''FileActionOk'', Value 250), (''DirectoryOk'', Value 257),
     (''NeedPassword'', Value 331), (''NeedAccountToLogIn'', Value 332),
     (''NeedInformation'', Value 350), (''ServiceUnavailable'', Value 421),
     (''DataConnectionUnavailable'', Value 425), (''TransferAborted'', Value 426),
     (''FileActionAborted'', Value 450), (''LocalError'', Value 451),
     (''InsufficientStorageSpace'', Value 452), (''CommandUnknown'', Value 500),
     (''ParametersUnknown'', Value 501), (''CommandNotImplemented'', Value 502),
     (''BadCommandSequence'', Value 503), (''ParameterNotImplemented'', Value 504),
     (''NotLoggedIn'', Value 530), (''NeedAccountToStore'', Value 532),
     (''FileUnavailable'', Value 550), (''PageTypeUnknown'', Value 551),
     (''NotEnoughMemory'', Value 552), (''FilenameNotAllowed'', Value 553),
     (''InvalidResponse'', Value 1000), (''ConnectionFailed'', Value 1001),
     (''ConnectionClosed'', Value 1002), (''InvalidFile'', Value 1003)]"

definition Http_Method :: enumeration where
  "Http_Method =
    [(''Get'', Next), (''Post'', Next), (''Head'', Next), (''Put'', Next), (''Delete'', Next)]"

definition Http_Status :: enumeration where
  "Http_Status =
    [(''Ok'', Value 200), (''Created'', Value 201), (''Accepted'', Value 202),
     (''NoContent'', Value 204), (''ResetContent'', Value 205),
     (''PartialContent'', Value 206), (''MultipleChoices'', Value 300),
     (''MovedPermanently'', Value 301), (''MovedTemporarily'', Value 302),
     (''NotModified'', Value 304), (''BadRequest'', Value 400), (''Unauthorized'', Value 401),
     (''Forbidden'', Value 403), (''NotFound'', Value 404),
     (''RangeNotSatisfiable'', Value 407), (''InternalServerError'', Value 500),
     (''NotImplemented'', Value 501), (''BadGateway'', Value 502),
     (''ServiceNotAvailable'', Value 503), (''GatewayTimeout'', Value 504),
     (''VersionNotSupported'', Value 505), (''InvalidResponse'', Value 1000),
     (''ConnectionFailed'', Value 1001)]"

section \<open>Window\<close>

definition Keyboard_Key :: enumeration where
  "Keyboard_Key =
    [(''Unknown'', Value (- 1)), (''A'', Value 0), (''B'', Next), (''C'', Next), (''D'', Next),
     (''E'', Next), (''F'', Next), (''G'', Next), (''H'', Next), (''I'', Next), (''J'', Next),
     (''K'', Next), (''L'', Next), (''M'', Next), (''N'', Next), (''O'', Next), (''P'', Next),
     (''Q'', Next), (''R'', Next), (''S'', Next), (''T'', Next), (''U'', Next), (''V'', Next),
     (''W'', Next), (''X'', Next), (''Y'', Next), (''Z'', Next), (''Num0'', Next),
     (''Num1'', Next), (''Num2'', Next), (''Num3'', Next), (''Num4'', Next), (''Num5'', Next),
     (''Num6'', Next), (''Num7'', Next), (''Num8'', Next), (''Num9'', Next),
     (''Escape'', Next), (''LControl'', Next), (''LShift'', Next), (''LAlt'', Next),
     (''LSystem'', Next), (''RControl'', Next), (''RShift'', Next), (''RAlt'', Next),
     (''RSystem'', Next), (''Menu'', Next), (''LBracket'', Next), (''RBracket'', Next),
     (''Semicolon'', Next), (''Comma'', Next), (''Period'', Next), (''Quote'', Next),
     (''Slash'', Next), (''Backslash'', Next), (''Tilde'', Next), (''Equal'', Next),
     (''Hyphen'', Next), (''Space'', Next), (''Enter'', Next), (''Backspace'', Next),
     (''Tab'', Next), (''PageUp'', Next), (''PageDown'', Next), (''End'', Next),
     (''Home'', Next), (''Insert'', Next), (''Delete'', Next), (''Add'', Next),
     (''Subtract'', Next), (''Multiply'', Next), (''Divide'', Next), (''Left'', Next),
     (''Right'', Next), (''Up'', Next), (''Down'', Next), (''Numpad0'', Next),
     (''Numpad1'', Next), (''Numpad2'', Next), (''Numpad3'', Next), (''Numpad4'', Next),
     (''Numpad5'', Next), (''Numpad6'', Next), (''Numpad7'', Next), (''Numpad8'', Next),
     (''Numpad9'', Next), (''F1'', Next), (''F2'', Next), (''F3'', Next), (''F4'', Next),
     (''F5'', Next), (''F6'', Next), (''F7'', Next), (''F8'', Next), (''F9'', Next),
     (''F10'', Next), (''F11'', Next), (''F12'', Next), (''F13'', Next), (''F14'', Next),
     (''F15'', Next), (''Pause'', Next), (''KeyCount'', Next), (''Dash'', Names [''Hyphen'']),
     (''BackSpace'', Names [''Backspace'']), (''BackSlash'', Names [''Backslash'']),
     (''SemiColon'', Names [''Semicolon'']), (''Return'', Names [''Enter''])]"

definition Mouse_Button :: enumeration where
  "Mouse_Button =
    [(''Left'', Next), (''Right'', Next), (''Middle'', Next), (''XButton1'', Next),
     (''XButton2'', Next), (''ButtonCount'', Next)]"

definition Mouse_Wheel :: enumeration where
  "Mouse_Wheel =
    [(''VerticalWheel'', Next), (''HorizontalWheel'', Next)]"

definition Joystick_Limits :: enumeration where
  "Joystick_Limits =
    [(''Count'', Value 8), (''ButtonCount'', Value 32), (''AxisCount'', Value 8)]"

definition Joystick_Axis :: enumeration where
  "Joystick_Axis =
    [(''X'', Next), (''Y'', Next), (''Z'', Next), (''R'', Next), (''U'', Next), (''V'', Next),
     (''PovX'', Next), (''PovY'', Next)]"

definition Sensor_Type :: enumeration where
  "Sensor_Type =
    [(''Accelerometer'', Next), (''Gyroscope'', Next), (''Magnetometer'', Next),
     (''Gravity'', Next), (''UserAcceleration'', Next), (''Orientation'', Next),
     (''Count'', Next)]"

definition Window_Style :: enumeration where
  "Window_Style =
    [(''None'', Value 0), (''Titlebar'', Shifted 1 0), (''Resize'', Shifted 1 1),
     (''Close'', Shifted 1 2), (''Fullscreen'', Shifted 1 3),
     (''Default'', Names [''Titlebar'', ''Resize'', ''Close''])]"

definition Cursor_Type :: enumeration where
  "Cursor_Type =
    [(''Arrow'', Next), (''ArrowWait'', Next), (''Wait'', Next), (''Text'', Next),
     (''Hand'', Next), (''SizeHorizontal'', Next), (''SizeVertical'', Next),
     (''SizeTopLeftBottomRight'', Next), (''SizeBottomLeftTopRight'', Next),
     (''SizeAll'', Next), (''Cross'', Next), (''Help'', Next), (''NotAllowed'', Next)]"

definition Context_Attribute :: enumeration where
  "Context_Attribute =
    [(''Default'', Value 0), (''Core'', Shifted 1 0), (''Debug'', Shifted 1 2)]"

section \<open>Graphics\<close>

definition Blend_Factor :: enumeration where
  "Blend_Factor =
    [(''Zero'', Next), (''One'', Next), (''SrcColor'', Next), (''OneMinusSrcColor'', Next),
     (''DstColor'', Next), (''OneMinusDstColor'', Next), (''SrcAlpha'', Next),
     (''OneMinusSrcAlpha'', Next), (''DstAlpha'', Next), (''OneMinusDstAlpha'', Next)]"

definition Blend_Equation :: enumeration where
  "Blend_Equation =
    [(''Add'', Next), (''Subtract'', Next), (''ReverseSubtract'', Next)]"

definition PrimitiveType :: enumeration where
  "PrimitiveType =
    [(''Points'', Next), (''Lines'', Next), (''LineStrip'', Next), (''Triangles'', Next),
     (''TriangleStrip'', Next), (''TriangleFan'', Next), (''Quads'', Next),
     (''LinesStrip'', Names [''LineStrip'']), (''TrianglesStrip'', Names [''TriangleStrip'']),
     (''TrianglesFan'', Names [''TriangleFan''])]"

definition Shader_Type :: enumeration where
  "Shader_Type =
    [(''Vertex'', Next), (''Geometry'', Next), (''Fragment'', Next)]"

definition Text_Style :: enumeration where
  "Text_Style =
    [(''Regular'', Value 0), (''Bold'', Shifted 1 0), (''Italic'', Shifted 1 1),
     (''Underlined'', Shifted 1 2), (''StrikeThrough'', Shifted 1 3)]"

definition Texture_CoordinateType :: enumeration where
  "Texture_CoordinateType =
    [(''Normalized'', Next), (''Pixels'', Next)]"

definition VertexBuffer_Usage :: enumeration where
  "VertexBuffer_Usage =
    [(''Stream'', Next), (''Dynamic'', Next), (''Static'', Next)]"

section \<open>Audio\<close>

definition SoundSource_Status :: enumeration where
  "SoundSource_Status =
    [(''Stopped'', Next), (''Paused'', Next), (''Playing'', Next)]"

definition SoundStream_Seeks :: enumeration where
  "SoundStream_Seeks =
    [(''NoLoop'', Value (- 1))]"

definition SoundStream_Buffers :: enumeration where
  "SoundStream_Buffers =
    [(''BufferCount'', Value 3), (''BufferRetries'', Value 2)]"

section \<open>Properties\<close>

lemma enum_from_names: "map fst (enum_from k env e) = map fst e"
  by (induction k env e rule: enum_from.induct) (auto simp: Let_def)

text \<open>Without initialisers an enumeration counts from 0.\<close>

lemma enum_from_next:
  "(\<And>x. x \<in> set e \<Longrightarrow> snd x = Next) \<Longrightarrow> map snd (enum_from k env e) = map (\<lambda>i. k + int i) [0..<length e]"
proof (induction k env e rule: enum_from.induct)
  case (2 k env n i rest)
  have i: "i = Next" using "2.prems" [of "(n, i)"] by simp
  with "2.IH" [OF refl] "2.prems" have "map snd (enum_from (k + 1) ((n, k) # env) rest) = map (\<lambda>i. k + 1 + int i) [0..<length rest]"
    by simp
  moreover have "[0..<Suc (length rest)] = 0 # map Suc [0..<length rest]"
    by (simp only: map_Suc_upt upt_conv_Cons zero_less_Suc One_nat_def)
  ultimately show ?case using i by (simp add: comp_def add.assoc del: upt_Suc)
qed simp

lemma enum_values_next:
  "list_all (\<lambda>x. snd x = Next) e \<Longrightarrow> map snd (enum_values e) = map int [0..<length e]"
  unfolding enum_values_def by (subst enum_from_next) (auto simp: list_all_iff)

text \<open>Enumerators that the library uses as the number of the others.\<close>

lemma counts:
  "enum_value Keyboard_Key ''KeyCount'' = Some 101"
  "enum_value Mouse_Button ''ButtonCount'' = Some 5"
  "enum_value Sensor_Type ''Count'' = Some 6"
  by code_simp+

lemma Window_Style_default: "enum_value Window_Style ''Default'' = Some 7"
  by code_simp

text \<open>Every key has a code of its own, and no key has the code \<open>KeyCount\<close>; the deprecated
  names, and only they, share one.\<close>

lemma keys_distinct: "distinct (map snd (take 103 (enum_values Keyboard_Key)))"
  by code_simp

lemma Return_is_Enter:
  "enum_value Keyboard_Key ''Return'' = enum_value Keyboard_Key ''Enter''"
  by code_simp

end
