(* ===== verification/Sf_Event.thy ===== *)
theory Sf_Event
  imports Prelude
begin

text \<open>
  \<open>SFML/Window/Event.hpp\<close>: window events. The anonymous union of the class is a datatype
  with one constructor for each member, so that reading a member other than the one written
  is a failure instead of a reinterpretation of bytes. \<open>float\<close> is the type parameter
  \<open>'f\<close>; key, button, wheel, axis and sensor codes are their C++ values (\<open>Sf_Enums\<close>).
\<close>

section \<open>Parameters of the events\<close>

record SizeEvent =
  size_width :: u32
  size_height :: u32

record KeyEvent =
  key_code :: int
  key_alt :: bool
  key_control :: bool
  key_shift :: bool
  key_system :: bool

record TextEvent =
  text_unicode :: u32

record MouseMoveEvent =
  move_x :: int
  move_y :: int

record MouseButtonEvent =
  mbutton_button :: int
  mbutton_x :: int
  mbutton_y :: int

record MouseWheelEvent =
  wheel_delta :: int
  wheel_x :: int
  wheel_y :: int

record 'f MouseWheelScrollEvent =
  scroll_wheel :: int
  scroll_delta :: 'f
  scroll_x :: int
  scroll_y :: int

record JoystickConnectEvent =
  connect_joystickId :: u32

record 'f JoystickMoveEvent =
  jmove_joystickId :: u32
  jmove_axis :: int
  jmove_position :: 'f

record JoystickButtonEvent =
  jbutton_joystickId :: u32
  jbutton_button :: u32

record TouchEvent =
  touch_finger :: u32
  touch_x :: int
  touch_y :: int

record 'f SensorEvent =
  sensor_type :: int
  sensor_x :: 'f
  sensor_y :: 'f
  sensor_z :: 'f

section \<open>Events\<close>

datatype EventType =
    Closed | Resized | LostFocus | GainedFocus | TextEntered | KeyPressed | KeyReleased
  | MouseWheelMoved | MouseWheelScrolled | MouseButtonPressed | MouseButtonReleased
  | MouseMoved | MouseEntered | MouseLeft | JoystickButtonPressed | JoystickButtonReleased
  | JoystickMoved | JoystickConnected | JoystickDisconnected | TouchBegan | TouchMoved
  | TouchEnded | SensorChanged

definition EventTypes :: "EventType list" where
  "EventTypes =
     [Closed, Resized, LostFocus, GainedFocus, TextEntered, KeyPressed, KeyReleased,
      MouseWheelMoved, MouseWheelScrolled, MouseButtonPressed, MouseButtonReleased,
      MouseMoved, MouseEntered, MouseLeft, JoystickButtonPressed, JoystickButtonReleased,
      JoystickMoved, JoystickConnected, JoystickDisconnected, TouchBegan, TouchMoved,
      TouchEnded, SensorChanged]"

text \<open>The last enumerator.\<close>

definition EventType_Count :: nat where
  "EventType_Count = length EventTypes"

datatype 'f event_data =
    No_data
  | Size_data SizeEvent
  | Key_data KeyEvent
  | Text_data TextEvent
  | MouseMove_data MouseMoveEvent
  | MouseButton_data MouseButtonEvent
  | MouseWheel_data MouseWheelEvent
  | MouseWheelScroll_data "'f MouseWheelScrollEvent"
  | JoystickMove_data "'f JoystickMoveEvent"
  | JoystickButton_data JoystickButtonEvent
  | JoystickConnect_data JoystickConnectEvent
  | Touch_data TouchEvent
  | Sensor_data "'f SensorEvent"

record 'f Event =
  event_type :: EventType
  event_data :: "'f event_data"

text \<open>Which member the comments of the enumeration promise for a type.\<close>

fun data_matches :: "EventType \<Rightarrow> 'f event_data \<Rightarrow> bool" where
  "data_matches t (Size_data _) = (t = Resized)"
| "data_matches t (Text_data _) = (t = TextEntered)"
| "data_matches t (Key_data _) = (t = KeyPressed \<or> t = KeyReleased)"
| "data_matches t (MouseWheel_data _) = (t = MouseWheelMoved)"
| "data_matches t (MouseWheelScroll_data _) = (t = MouseWheelScrolled)"
| "data_matches t (MouseButton_data _) = (t = MouseButtonPressed \<or> t = MouseButtonReleased)"
| "data_matches t (MouseMove_data _) = (t = MouseMoved)"
| "data_matches t (JoystickButton_data _) = (t = JoystickButtonPressed \<or> t = JoystickButtonReleased)"
| "data_matches t (JoystickMove_data _) = (t = JoystickMoved)"
| "data_matches t (JoystickConnect_data _) = (t = JoystickConnected \<or> t = JoystickDisconnected)"
| "data_matches t (Touch_data _) = (t = TouchBegan \<or> t = TouchMoved \<or> t = TouchEnded)"
| "data_matches t (Sensor_data _) = (t = SensorChanged)"
| "data_matches t No_data = (t = Closed \<or> t = LostFocus \<or> t = GainedFocus \<or> t = MouseEntered \<or> t = MouseLeft)"

definition Event_ok :: "'f Event \<Rightarrow> bool" where
  "Event_ok e = data_matches (event_type e) (event_data e)"

fun event_key :: "'f event_data \<Rightarrow> KeyEvent result" where
  "event_key (Key_data k) = Inr k"
| "event_key _ = Inl Range_error"

fun event_text :: "'f event_data \<Rightarrow> TextEvent result" where
  "event_text (Text_data k) = Inr k"
| "event_text _ = Inl Range_error"

text \<open>An event whose data matches its type can be read by the member for that type: here the
  two that carry what was typed.\<close>

lemma event_read_ok:
  "Event_ok e \<Longrightarrow> event_type e = KeyPressed \<Longrightarrow> is_ok (event_key (event_data e))"
  "Event_ok e \<Longrightarrow> event_type e = TextEntered \<Longrightarrow> is_ok (event_text (event_data e))"
  by (cases "event_data e"; simp add: Event_ok_def)+

lemma EventTypes_all: "t \<in> set EventTypes"
  by (cases t) (simp_all add: EventTypes_def)

lemma EventTypes_distinct: "distinct EventTypes"
  by (simp add: EventTypes_def)

lemma data_of_type: "\<exists>d :: 'f event_data. data_matches t d"
  by (cases t) (metis data_matches.simps)+

end
