(* ===== verification/Sf_Config.thy ===== *)
theory Sf_Config
  imports Prelude
begin

text \<open>
  The decisions the preprocessor takes in \<open>SFML/Config.hpp\<close>, in the \<open>Export.hpp\<close> of each
  module and in \<open>SFML/OpenGL.hpp\<close>: which system is compiled for, how functions are exported
  and which types have which width. A compilation is described by the macros the compiler
  and the project define: \<open>defined\<close> holds of their names, \<open>value\<close> is what they expand to
  in an \<open>#if\<close> (0 when not defined). \<open>#error\<close> is a failure.
\<close>

record macros =
  macro_defined :: "string \<Rightarrow> bool"
  macro_value :: "string \<Rightarrow> int"

section \<open>The operating system\<close>

datatype os = Os_Windows | Os_iOS | Os_MacOS | Os_Android | Os_Linux | Os_FreeBSD | Os_OpenBSD

datatype config_error = Unsupported_Apple | Unsupported_Unix | Unsupported_system

definition identify_system :: "macros \<Rightarrow> config_error + os" where
  "identify_system m =
     (if macro_defined m ''_WIN32'' then Inr Os_Windows
      else if macro_defined m ''__APPLE__'' \<and> macro_defined m ''__MACH__''
      then (if macro_value m ''TARGET_OS_IPHONE'' \<noteq> 0 \<or> macro_value m ''TARGET_IPHONE_SIMULATOR'' \<noteq> 0
            then Inr Os_iOS
            else if macro_value m ''TARGET_OS_MAC'' \<noteq> 0 then Inr Os_MacOS
            else Inl Unsupported_Apple)
      else if macro_defined m ''__unix__''
      then (if macro_defined m ''__ANDROID__'' then Inr Os_Android
            else if macro_defined m ''__linux__'' then Inr Os_Linux
            else if macro_defined m ''__FreeBSD__'' \<or> macro_defined m ''__FreeBSD_kernel__''
            then Inr Os_FreeBSD
            else if macro_defined m ''__OpenBSD__'' then Inr Os_OpenBSD
            else Inl Unsupported_Unix)
      else Inl Unsupported_system)"

section \<open>Import and export\<close>

text \<open>What \<open>SFML_API_EXPORT\<close> and \<open>SFML_API_IMPORT\<close> expand to.\<close>

definition api_macros :: "macros \<Rightarrow> os \<Rightarrow> string \<times> string" where
  "api_macros m os =
     (if \<not> macro_defined m ''SFML_STATIC''
      then (if os = Os_Windows then (''__declspec(dllexport)'', ''__declspec(dllimport)'')
            else if macro_value m ''__GNUC__'' \<ge> 4
            then (''__attribute__ ((__visibility__ (\"default\")))'',
                  ''__attribute__ ((__visibility__ (\"default\")))'')
            else ('''', ''''))
      else ('''', ''''))"

definition deprecated_macro :: "macros \<Rightarrow> string" where
  "deprecated_macro m =
     (if macro_defined m ''SFML_NO_DEPRECATED_WARNINGS'' then ''''
      else if macro_defined m ''_MSC_VER'' then ''__declspec(deprecated)''
      else if macro_defined m ''__GNUC__'' then ''__attribute__ ((deprecated))''
      else '''')"

text \<open>The macro of a module: exported while the module itself is built.\<close>

definition audio_api :: "macros \<Rightarrow> os \<Rightarrow> string" where
  "audio_api m os =
     (if macro_defined m ''SFML_AUDIO_EXPORTS'' then fst (api_macros m os) else snd (api_macros m os))"

definition graphics_api :: "macros \<Rightarrow> os \<Rightarrow> string" where
  "graphics_api m os =
     (if macro_defined m ''SFML_GRAPHICS_EXPORTS'' then fst (api_macros m os) else snd (api_macros m os))"

definition network_api :: "macros \<Rightarrow> os \<Rightarrow> string" where
  "network_api m os =
     (if macro_defined m ''SFML_NETWORK_EXPORTS'' then fst (api_macros m os) else snd (api_macros m os))"

definition system_api :: "macros \<Rightarrow> os \<Rightarrow> string" where
  "system_api m os =
     (if macro_defined m ''SFML_SYSTEM_EXPORTS'' then fst (api_macros m os) else snd (api_macros m os))"

definition window_api :: "macros \<Rightarrow> os \<Rightarrow> string" where
  "window_api m os =
     (if macro_defined m ''SFML_WINDOW_EXPORTS'' then fst (api_macros m os) else snd (api_macros m os))"

section \<open>Integer types\<close>

text \<open>The name of each type, whether it is signed, and the type it stands for.\<close>

definition integer_types :: "macros \<Rightarrow> (string \<times> bool \<times> string) list" where
  "integer_types m =
     [(''Int8'', True, ''char''), (''Uint8'', False, ''char''),
      (''Int16'', True, ''short''), (''Uint16'', False, ''short''),
      (''Int32'', True, ''int''), (''Uint32'', False, ''int'')] @
     (if macro_defined m ''_MSC_VER''
      then [(''Int64'', True, ''__int64''), (''Uint64'', False, ''__int64'')]
      else [(''Int64'', True, ''long long''), (''Uint64'', False, ''long long'')])"

section \<open>OpenGL\<close>

text \<open>The headers that \<open>SFML/OpenGL.hpp\<close> includes.\<close>

definition opengl_headers :: "macros \<Rightarrow> os \<Rightarrow> string list" where
  "opengl_headers m os =
     (if os = Os_Windows
      then (if macro_defined m ''_MSC_VER'' then [''windows.h''] else []) @ [''GL/gl.h'']
      else if os = Os_Linux \<or> os = Os_FreeBSD \<or> os = Os_OpenBSD
      then (if macro_defined m ''SFML_OPENGL_ES'' then [''GLES/gl.h'', ''GLES/glext.h'']
            else [''GL/gl.h''])
      else if os = Os_MacOS then [''OpenGL/gl.h'']
      else if os = Os_iOS then [''OpenGLES/ES1/gl.h'', ''OpenGLES/ES1/glext.h'']
      else [''GLES/gl.h'', ''GLES/glext.h'', ''GLES2/gl2platform.h'', ''GLES2/gl2ext.h''])"

section \<open>Handles and the entry point\<close>

text \<open>The C++ type that \<open>WindowHandle.hpp\<close> and \<open>SocketHandle.hpp\<close> name; the last branch of
  the first is for the documentation only.\<close>

definition window_handle :: "os \<Rightarrow> string" where
  "window_handle os =
     (if os = Os_Windows then ''HWND__*''
      else if os = Os_Linux \<or> os = Os_FreeBSD \<or> os = Os_OpenBSD then ''unsigned long''
      else ''void*'')"

definition socket_handle :: "os \<Rightarrow> string" where
  "socket_handle os = (if os = Os_Windows then ''UINT_PTR'' else ''int'')"

text \<open>The name the compiler sees for a function called \<open>main\<close> in a file that includes \<open>Main.hpp\<close>.\<close>

definition main_symbol :: "os \<Rightarrow> string" where
  "main_symbol os = (if os = Os_iOS then ''sfmlMain'' else ''main'')"

text \<open>The variables that \<open>SFML_DEFINE_DISCRETE_GPU_PREFERENCE\<close> exports, with their values.\<close>

definition gpu_preference :: "os \<Rightarrow> (string \<times> u32) list" where
  "gpu_preference os =
     (if os = Os_Windows
      then [(''NvOptimusEnablement'', 1), (''AmdPowerXpressRequestHighPerformance'', 1)] else [])"

section \<open>The build of the program\<close>

text \<open>The project files build with Visual C++ for Windows and link SFML statically.\<close>

definition visual_studio :: macros where
  "visual_studio =
     \<lparr>macro_defined = (\<lambda>n. n \<in> {''_WIN32'', ''_MSC_VER'', ''SFML_STATIC''}), macro_value = (\<lambda>n. 0)\<rparr>"

lemma visual_studio_config:
  "identify_system visual_studio = Inr Os_Windows"
  "network_api visual_studio Os_Windows = ''''"
  "opengl_headers visual_studio Os_Windows = [''windows.h'', ''GL/gl.h'']"
  by (simp_all add: identify_system_def network_api_def api_macros_def opengl_headers_def
    visual_studio_def)

text \<open>\<open>_WIN32\<close> decides alone: whatever else is defined, the system is Windows.\<close>

lemma windows_first: "macro_defined m ''_WIN32'' \<Longrightarrow> identify_system m = Inr Os_Windows"
  by (simp add: identify_system_def)

end
