(* ===== verification/Sf_Data.thy ===== *)
theory Sf_Data
  imports Sf_Rect Sf_Enums
begin

text \<open>
  The state that the classes of the SFML headers declare, where the headers show it and the
  values a constructor written in a header gives it. \<open>float\<close> is the type parameter \<open>'f\<close>,
  an enumeration is the value of its enumerator (\<open>Sf_Enums\<close>), a pointer is an address or
  \<open>None\<close>. What the compiled library does with this state is not in the repository.
\<close>

section \<open>Window\<close>

record ContextSettings =
  depthBits :: u32
  stencilBits :: u32
  antialiasingLevel :: u32
  majorVersion :: u32
  minorVersion :: u32
  attributeFlags :: u32
  sRgbCapable :: bool

definition ContextSettings_new :: "u32 \<Rightarrow> u32 \<Rightarrow> u32 \<Rightarrow> u32 \<Rightarrow> u32 \<Rightarrow> u32 \<Rightarrow> bool \<Rightarrow> ContextSettings" where
  "ContextSettings_new depth stencil antialiasing major minor attributes sRgb =
     \<lparr>depthBits = depth, stencilBits = stencil, antialiasingLevel = antialiasing,
      majorVersion = major, minorVersion = minor, attributeFlags = attributes, sRgbCapable = sRgb\<rparr>"

text \<open>The default arguments.\<close>

definition ContextSettings_default :: ContextSettings where
  "ContextSettings_default =
     ContextSettings_new 0 0 0 1 1
       (case enum_value Context_Attribute ''Default'' of Some v \<Rightarrow> word_of_int v | None \<Rightarrow> 0) False"

record VideoMode =
  mode_width :: u32
  mode_height :: u32
  bitsPerPixel :: u32

record Identification =
  joystick_name :: "u32 list"
  vendorId :: u32
  productId :: u32

section \<open>Network\<close>

record Http_Request =
  request_fields :: "bytes \<rightharpoonup> bytes"
  request_method :: int
  request_uri :: bytes
  request_majorVersion :: u32
  request_minorVersion :: u32
  request_body :: bytes

record Http_Response =
  response_fields :: "bytes \<rightharpoonup> bytes"
  response_status :: int
  response_majorVersion :: u32
  response_minorVersion :: u32
  response_body :: bytes

record Ftp_Response =
  ftp_status :: int
  ftp_message :: bytes

record Ftp_DirectoryResponse = Ftp_Response +
  ftp_directory :: bytes

record Ftp_ListingResponse = Ftp_Response +
  ftp_listing :: "bytes list"

record PendingPacket =
  pending_Size :: u32
  pending_SizeReceived :: u32
  pending_Data :: bytes

section \<open>Graphics\<close>

record Color =
  color_r :: u8
  color_g :: u8
  color_b :: u8
  color_a :: u8

record BlendMode =
  colorSrcFactor :: int
  colorDstFactor :: int
  colorEquation :: int
  alphaSrcFactor :: int
  alphaDstFactor :: int
  alphaEquation :: int

record 'f Transform =
  transform_matrix :: "'f list"

record 'f Vertex =
  vertex_position :: "'f Vector2"
  vertex_color :: Color
  vertex_texCoords :: "'f Vector2"

record ('f, 'p) RenderStates =
  states_blendMode :: BlendMode
  states_transform :: "'f Transform"
  states_texture :: "'p option"
  states_shader :: "'p option"

record 'f StatesCache =
  cache_enable :: bool
  cache_glStatesSet :: bool
  cache_viewChanged :: bool
  cache_lastBlendMode :: BlendMode
  cache_lastTextureId :: u64
  cache_texCoordsArrayEnabled :: bool
  cache_useVertexCache :: bool
  cache_vertexCache :: "'f Vertex list"

record 'f View =
  view_center :: "'f Vector2"
  view_size :: "'f Vector2"
  view_rotation :: 'f
  view_viewport :: "'f Rect"
  view_transform :: "'f Transform"
  view_inverseTransform :: "'f Transform"
  view_transformUpdated :: bool
  view_invTransformUpdated :: bool

record 'f Transformable =
  tr_origin :: "'f Vector2"
  tr_position :: "'f Vector2"
  tr_rotation :: 'f
  tr_scale :: "'f Vector2"
  tr_transform :: "'f Transform"
  tr_transformNeedUpdate :: bool
  tr_inverseTransform :: "'f Transform"
  tr_inverseTransformNeedUpdate :: bool

record ('f, 'p) Shape =
  shape_texture :: "'p option"
  shape_textureRect :: "int Rect"
  shape_fillColor :: Color
  shape_outlineColor :: Color
  shape_outlineThickness :: 'f
  shape_vertices :: "'f Vertex list"
  shape_outlineVertices :: "'f Vertex list"
  shape_insideBounds :: "'f Rect"
  shape_bounds :: "'f Rect"

record ('f, 'p) Sprite =
  sprite_vertices :: "'f Vertex list"
  sprite_texture :: "'p option"
  sprite_textureRect :: "int Rect"

record ('f, 'p) Text =
  text_string :: "u32 list"
  text_font :: "'p option"
  text_characterSize :: u32
  text_letterSpacingFactor :: 'f
  text_lineSpacingFactor :: 'f
  text_style :: u32
  text_fillColor :: Color
  text_outlineColor :: Color
  text_outlineThickness :: 'f
  text_vertices :: "'f Vertex list"
  text_outlineVertices :: "'f Vertex list"
  text_bounds :: "'f Rect"
  text_geometryNeedUpdate :: bool
  text_fontTextureId :: u64

record Texture =
  texture_size :: "u32 Vector2"
  texture_actualSize :: "u32 Vector2"
  texture_id :: u32
  texture_isSmooth :: bool
  texture_sRgb :: bool
  texture_isRepeated :: bool
  texture_pixelsFlipped :: bool
  texture_fboAttachment :: bool
  texture_hasMipmap :: bool
  texture_cacheId :: u64

record 'f Glyph =
  glyph_advance :: 'f
  glyph_bounds :: "'f Rect"
  glyph_textureRect :: "int Rect"

text \<open>The default constructor of \<open>Glyph\<close>; those of the two rectangles make them 0.\<close>

definition Glyph_new :: "'f::zero Glyph" where
  "Glyph_new = \<lparr>glyph_advance = 0, glyph_bounds = Rect_zero, glyph_textureRect = Rect_zero\<rparr>"

record Font_Row =
  row_width :: u32
  row_top :: u32
  row_height :: u32

definition Font_Row_new :: "u32 \<Rightarrow> u32 \<Rightarrow> Font_Row" where
  "Font_Row_new rowTop rowHeight = \<lparr>row_width = 0, row_top = rowTop, row_height = rowHeight\<rparr>"

record 'f Font_Page =
  page_glyphs :: "u64 \<rightharpoonup> 'f Glyph"
  page_texture :: Texture
  page_nextRow :: u32
  page_rows :: "Font_Row list"

section \<open>Audio\<close>

record SoundFile_Info =
  info_sampleCount :: u64
  info_channelCount :: u32
  info_sampleRate :: u32

record 'p SoundStream_Chunk =
  chunk_samples :: "'p option"
  chunk_sampleCount :: u32

record 'a Music_Span =
  span_offset :: 'a
  span_length :: 'a

definition Music_Span_new :: "'a \<Rightarrow> 'a \<Rightarrow> 'a Music_Span" where
  "Music_Span_new off len = \<lparr>span_offset = off, span_length = len\<rparr>"

record 'p InputSoundFile =
  isf_reader :: "'p option"
  isf_stream :: "'p option"
  isf_streamOwned :: bool
  isf_sampleOffset :: u64
  isf_sampleCount :: u64
  isf_channelCount :: u32
  isf_sampleRate :: u32

record ('t, 'x) SoundStream =
  stream_thread :: 't
  stream_threadMutex :: 'x
  stream_threadStartState :: int
  stream_isStreaming :: bool
  stream_buffers :: "u32 list"
  stream_channelCount :: u32
  stream_sampleRate :: u32
  stream_format :: u32
  stream_loop :: bool
  stream_samplesProcessed :: u64
  stream_bufferSeeks :: "u64 list"

record 't SoundRecorder =
  recorder_thread :: 't
  recorder_samples :: "u16 list"
  recorder_sampleRate :: u32
  recorder_processingInterval :: u64
  recorder_isCapturing :: bool
  recorder_deviceName :: bytes
  recorder_channelCount :: u32

lemma ContextSettings_default_values:
  "ContextSettings_default =
     \<lparr>depthBits = 0, stencilBits = 0, antialiasingLevel = 0, majorVersion = 1, minorVersion = 1,
      attributeFlags = 0, sRgbCapable = False\<rparr>"
  by (simp add: ContextSettings_default_def ContextSettings_new_def enum_value_def enum_values_def
    Context_Attribute_def)

lemma Glyph_new_contains_nothing:
  "\<not> Rect_contains (glyph_textureRect Glyph_new) x y"
  by (simp add: Glyph_new_def Rect_zero_def Rect_contains_def)

end
