(* ===== verification/Spec2Isabelle.thy ===== *)
theory Spec2Isabelle
  imports File_Transfer_Claims Networking_Claims Node_Claims Node_Threads Disk_Shape Node_Hazards
    Handler_Deadlock Threaded_Claims Sf_Utf_Claims Sf_Rect Sf_Runtime Sf_Enums Sf_Event Sf_Config Sf_Data
begin

text \<open>
  A verification of the file synchronisation program of this repository and of the part of
  the vendored SFML library whose code is in its headers.

  \<^bold>\<open>The program.\<close> \<open>main\<close> (main.cpp) creates the shared folder in the documents of the user, builds a
  \<open>Node\<close> on it and starts four threads. The discover thread broadcasts the table of file
  hashes, then takes datagrams: a table with id 0 is answered and processed at once, every
  other packet is queued. The handler thread moves the changes the watcher noticed into the
  table, broadcasts them, and handles one queued packet a round: a table (id 1) is left for
  the table manager, a request (id 5) is answered and served over TCP, changes (id 6) are
  requested from their sender. The table manager processes the tables it finds. The watcher
  compares the folder with its last table after each notification of Windows.

  \<^bold>\<open>The theories.\<close>
  \<^item> Prelude: machine types, results, the locales of step systems and their simulations, named collections. Std\_Map:
    \<open>std::map\<close> as a sorted association list, with the contract of a lookup table.
  \<^item> Sf\_Packet, Sf\_Socket: the interface of SFML's packets and sockets as records of functions,
    the laws of packets as the locale \<open>packet_laws\<close>. Wire\_Packet: packets as bytes, which
    satisfy the laws.
  \<^item> File\_System: the part of \<open>std::filesystem\<close> that is used, on a tree of directories;
    File\_View: the same as a map from paths to contents. File\_Helper, File\_Hash,
    Directory\_Listing: FileHelper.cpp.
  \<^item> Directory\_Monitor: DirectoryMonitor.cpp. File\_Change\_Packet: fileChangePacket.cpp.
    Hash\_Table\_Packet, Node\_Tables, Table\_Sync: the tables of Node.cpp, and how monitor and
    handler keep them in step.
  \<^item> Networking, Networking\_Claims: the classes of the Networking Library.
  \<^item> File\_Transfer: \<open>sendFile\<close> and \<open>receiveFile\<close>, as functions on sockets and as a step relation
    of the two loops. Transfer\_Proof, File\_Transfer\_Peers, File\_Transfer\_Claims: its phases,
    the loops against a running peer, and the properties.
  \<^item> Node: the other functions of the class on the state of one computer (\<open>machine\<close>: the members
    of \<open>Node\<close>, the shared buffer, the lock and the disk). Node\_Requests, Node\_Sync,
    Initial\_Sync, Sample\_Network, Node\_Claims, Node\_Hazards: requests, the first
    synchronisation, a concrete network for the witnesses, and what other nodes can do to one.
  \<^item> Node\_System: the threads of main.cpp as rounds that are interleaved. Node\_Threads: the
    pointers they share, interleaved by critical section. Disk\_Shape: the laws a property of the
    disk has to obey to be kept by every operation, and the well-formedness of the tree.
  \<^item> Handler\_Pieces: the functions of the handler thread cut at their waiting calls, and that
    the pieces make up the functions. Two\_Sides, Two\_Nodes: two nodes with the network between
    them, a step of a handler from one waiting call to the next. Two\_Node\_Sync, Two\_Node\_Runs: the
    phases of a run in which one node has changes, and the bound on its steps.
    Two\_Node\_Hazards: the states without a way on. Sample\_Pair, Two\_Node\_Claims: a concrete pair
    and the properties. Handler\_Deadlock: the handlers with messages only counted.
  \<^item> Threaded\_Nodes: two computers whose discover threads, handlers and table managers share the
    node of each, with datagrams waiting in its socket until they are collected. Threaded\_Start:
    how two such computers start. Threaded\_Sync, Threaded\_Simulation: they refine Two\_Nodes from
    the point where one fetches, up to steps of the threads that only move datagrams.
    Threaded\_Runs, Threaded\_Claims: whole runs from the arrival of a newcomer, and the properties.
  \<^item> Sf\_Utf, Sf\_Utf\_Proofs, Sf\_Utf\_Claims: Utf.inl and String.inl. Sf\_Vector, Sf\_Rect: Vector2.inl,
    Vector3.inl, Glsl.inl, Rect.inl. Sf\_Runtime: Thread.inl, ThreadLocalPtr.inl and
    SoundFileFactory.inl. Sf\_Config: what the preprocessor decides. Sf\_Enums, Sf\_Event, Sf\_Data:
    enumerations, events, and the data of the classes.

  \<^bold>\<open>What is shown.\<close>
  \<^item> Synchronisation: a newcomer ends with the files of the node whose table it processes, when
    the network delivers and each request is served; a request fetches exactly one file.
  \<^item> Two nodes: when one has changes to announce and every datagram arrives, every run ends, after
    at most 3 steps and 12 and three a chunk for each file, with the files at the other node;
    when both have changes, when a datagram is lost, or when a client connects before the
    server listens, the handlers can stand still for ever with \<open>dirLock\<close> taken.
  \<^item> Two computers with all threads: a newcomer with an empty folder that meets a running node
    ends with the node's files and every thread idle, after at most 8 steps and, for each
    file, 24 and six a chunk, however the threads interleave. When both start at the same time
    with files the other wants, their discover threads can wait for each other for ever.
  \<^item> Disk: the rounds of the threads keep it a tree with distinct, proper names.
  \<^item> Transfer: the two loops end, what is written is always a prefix of the file and in the end
    the file, below 4 GiB; what happens above it, without a file, or without a peer.
  \<^item> Tables: replaying the reported changes turns the old table into the new one, and in the
    running program no difference is lost between watcher and handler.
  \<^item> Packets: changes and tables are read back as they were written, up to the 16 bits of a
    table's size. Hashes: a closed form, and which edits it sees.
  \<^item> Threads: no message is used after it is freed or freed twice; a waiting table can be lost.
  \<^item> SFML: Unicode text survives the conversions; the points of an intersection.

  \<^bold>\<open>Bounds.\<close> The build is the 32-bit Windows one the project file names: \<open>size_t\<close>, \<open>unsigned\<close> and
  \<open>int\<close> have 32 bits, \<open>wchar_t\<close> 16, \<open>char\<close> is signed. Loops on sockets can run for ever and are
  \<open>partial_function (option)\<close>, where None is a call that does not return; loops that the code
  leaves only on failure are given by their first rounds.

  \<^bold>\<open>Not modelled.\<close>
  \<^item> The functions of SFML that its headers only declare: their code is not in the repository.
    Packets and sockets are parameters with the documented laws as hypotheses.
  \<^item> Console output, the Windows notification calls (a round of the watcher is given the folder
    it finds) and the times of locking.
  \<^item> Between nodes: more than two on the network; datagrams to oneself, which the discover thread
    drops; and the attempts of the operating system to connect again before it reports a
    refusal. A transfer between two nodes is the step relation of File\_Transfer on the
    connection, not calls on the sockets of the platform.
  \<^item> Rounds of two threads that overlap on the tables: the program reads and writes \<open>fileHashes\<close>
    in some places without the lock, which is a data race and has no defined result in C++.
\<close>

end
